(* ===== verification/JosPrelude.thy ===== *)
theory JosPrelude
  imports Main "HOL-Library.Word" "HOL-Library.Monad_Syntax" "HOL-Library.Signed_Division"
begin

text \<open>
  What every component of the JOS development shares: the machine integer types of
  \<^verbatim>\<open>inc/types.h\<close>, byte-addressed memory, C pointers and NUL-terminated strings, and the
  lemmas on words, regions of memory and pointers that the component proofs use.

  \<^item> A memory is a function from 32-bit addresses to bytes. The region of \<open>n\<close> bytes at
    \<open>d\<close> is the set of the addresses \<open>a\<close> with \<open>unat (a - d) < n\<close>, so that regions are
    described modulo \<open>2 ^ 32\<close>, as the machine computes addresses.
  \<^item> A C pointer either points into that memory or into a string literal of the program;
    a literal is an object of its own, which holds its characters and a NUL and cannot be
    written. A read outside a literal and a write to one are \<open>None\<close>.
  \<^item> \<open>cstr m p s\<close> says that the bytes \<open>s\<close>, none of them NUL, followed by a NUL, are
    at \<open>p\<close>.
\<close>

unbundle bit_operations_syntax

section \<open>Machine integers\<close>

type_synonym u8 = "8 word"
type_synonym u16 = "16 word"
type_synonym u32 = "32 word"
type_synonym u64 = "64 word"

text \<open>
  A C \<^verbatim>\<open>int\<close> of the source that takes part in arithmetic is a HOL \<open>int\<close>; where the
  computation can leave the 32-bit range it is wrapped to two's complement, as the i386
  instructions do.
\<close>

definition wrap32 :: "int \<Rightarrow> int" where
  "wrap32 i = signed_take_bit 31 i"

named_theorems word_facts \<open>facts that move word arithmetic to the naturals\<close>
named_theorems region_facts \<open>membership in and updates of regions of memory\<close>
named_theorems ptr_facts \<open>reads, writes and arithmetic of C pointers\<close>

lemma wrap32_id: "- 2147483648 \<le> i \<Longrightarrow> i < 2147483648 \<Longrightarrow> wrap32 i = i"
  unfolding wrap32_def by (rule signed_take_bit_int_eq_self) simp_all

lemma wrap32_sint: "wrap32 (sint (w :: u32)) = sint w"
  by (rule wrap32_id) (use sint_range_size [of w] in \<open>simp_all add: word_size\<close>)

lemma unat_pred_word [word_facts]: "x \<noteq> 0 \<Longrightarrow> unat (x - 1 :: u32) = unat x - 1"
  by (simp add: unat_minus_one)

lemma unat_minus_one_top: "unat (- 1 :: u32) = 4294967295"
  by (simp add: unsigned_minus_1_eq_mask mask_eq_exp_minus_1)

lemma unat_u32_lt [simp]: "unat (x :: u32) < 4294967296"
  using unsigned_less [of x] by simp

lemma unat_u32_le [simp]: "unat (x :: u32) \<le> 4294967296"
  by (rule less_imp_le) simp

lemma unat_of_nat_u32 [word_facts]: "n < 4294967296 \<Longrightarrow> unat (of_nat n :: u32) = n"
  by (simp add: unat_of_nat take_bit_nat_eq_self)

lemma unat_diff_of_nat [word_facts]:
  "j \<le> unat (x :: u32) \<Longrightarrow> unat (x - of_nat j) = unat x - j"
  using unat_u32_lt [of x] by (simp add: unat_sub_if' unat_of_nat_u32 del: unat_u32_lt)

lemma unat_add_of_nat [word_facts]:
  "unat (x :: u32) + j < 4294967296 \<Longrightarrow> unat (x + of_nat j) = unat x + j"
  by (simp add: unat_word_ariths unat_of_nat take_bit_nat_eq_self)

lemma unat_step_less: "s < e \<Longrightarrow> unat (e - (s + 1)) < unat (e - s :: u32)"
proof -
  assume "s < e"
  then have "e - s \<noteq> 0" by auto
  then show ?thesis
    by (metis diff_diff_eq measure_unat)
qed

lemma word_eq_of_nat_unat: "(x :: u32) = of_nat (unat x)"
  by simp

lemma unat_ucast_u32_u64: "unat (ucast (x :: u32) :: u64) = unat x"
proof -
  have "unat x < 2 ^ 64" using unat_u32_lt [of x] by (rule order.strict_trans) simp
  then show ?thesis by (simp add: unsigned_ucast_eq take_bit_nat_eq_self)
qed

section \<open>Memory\<close>

type_synonym mem = "u32 \<Rightarrow> u8"

definition in_region :: "u32 \<Rightarrow> nat \<Rightarrow> u32 \<Rightarrow> bool" where
  "in_region d n a \<longleftrightarrow> unat (a - d) < n"

definition disjoint_regions :: "u32 \<Rightarrow> nat \<Rightarrow> u32 \<Rightarrow> nat \<Rightarrow> bool" where
  "disjoint_regions d n e k \<longleftrightarrow> (\<forall>a. \<not> (in_region d n a \<and> in_region e k a))"

text \<open>Little-endian accesses of 16 and 32 bits.\<close>

definition ld16 :: "mem \<Rightarrow> u32 \<Rightarrow> u16" where
  "ld16 m a = ucast (m a) OR push_bit 8 (ucast (m (a + 1)))"

definition st16 :: "mem \<Rightarrow> u32 \<Rightarrow> u16 \<Rightarrow> mem" where
  "st16 m a w = m(a := ucast w, a + 1 := ucast (drop_bit 8 w))"

definition ld32 :: "mem \<Rightarrow> u32 \<Rightarrow> u32" where
  "ld32 m a = ucast (m a) OR push_bit 8 (ucast (m (a + 1)))
     OR push_bit 16 (ucast (m (a + 2))) OR push_bit 24 (ucast (m (a + 3)))"

definition st32 :: "mem \<Rightarrow> u32 \<Rightarrow> u32 \<Rightarrow> mem" where
  "st32 m a w = m(a := ucast w, a + 1 := ucast (drop_bit 8 w),
     a + 2 := ucast (drop_bit 16 w), a + 3 := ucast (drop_bit 24 w))"

text \<open>The two region updates that the memory routines implement.\<close>

definition fill_region :: "mem \<Rightarrow> u32 \<Rightarrow> u8 \<Rightarrow> nat \<Rightarrow> mem" where
  "fill_region m d c n = (\<lambda>a. if in_region d n a then c else m a)"

definition copy_region :: "mem \<Rightarrow> u32 \<Rightarrow> u32 \<Rightarrow> nat \<Rightarrow> mem" where
  "copy_region m d s n = (\<lambda>a. if in_region d n a then m (a + (s - d)) else m a)"

section \<open>C pointers\<close>

datatype cptr = Mem u32 | Lit string int

abbreviation NULL :: cptr where "NULL \<equiv> Mem 0"

fun padd :: "cptr \<Rightarrow> int \<Rightarrow> cptr" where
  "padd (Mem a) k = Mem (a + of_int k)"
| "padd (Lit l i) k = Lit l (i + k)"

text \<open>
  The difference of two pointers into the same object (in C, of any two others it is
  undefined).
\<close>

fun pdiff :: "cptr \<Rightarrow> cptr \<Rightarrow> int option" where
  "pdiff (Mem a) (Mem b) = Some (sint (a - b))"
| "pdiff (Lit l i) (Lit k j) = (if l = k then Some (i - j) else None)"
| "pdiff _ _ = None"

fun rdb :: "mem \<Rightarrow> cptr \<Rightarrow> u8 option" where
  "rdb m (Mem a) = Some (m a)"
| "rdb m (Lit l i) =
     (if 0 \<le> i \<and> i < int (length l) then Some (of_char (l ! nat i))
      else if i = int (length l) then Some 0 else None)"

fun wrb :: "mem \<Rightarrow> cptr \<Rightarrow> u8 \<Rightarrow> mem option" where
  "wrb m (Mem a) c = Some (m(a := c))"
| "wrb m (Lit l i) c = None"

text \<open>The bytes of a string literal, and the strings found at a pointer.\<close>

definition bytes :: "string \<Rightarrow> u8 list" where
  "bytes l = map of_char l"

fun cstr :: "mem \<Rightarrow> cptr \<Rightarrow> u8 list \<Rightarrow> bool" where
  "cstr m p [] = (rdb m p = Some 0)"
| "cstr m p (c # cs) = (rdb m p = Some c \<and> c \<noteq> 0 \<and> cstr m (padd p 1) cs)"

text \<open>
  The addresses of the \<open>n\<close> bytes from a pointer on (none for a literal, which no store
  reaches), and a sequence of stores at consecutive addresses.
\<close>

definition touches :: "cptr \<Rightarrow> nat \<Rightarrow> u32 \<Rightarrow> bool" where
  "touches p n a = (case p of Mem b \<Rightarrow> in_region b n a | Lit l i \<Rightarrow> False)"

primrec put_bytes :: "mem \<Rightarrow> u32 \<Rightarrow> u8 list \<Rightarrow> mem" where
  "put_bytes m d [] = m"
| "put_bytes m d (b # bs) = put_bytes (m(d := b)) (d + 1) bs"

lemma padd_0 [simp]: "padd p 0 = p"
  by (cases p) auto

lemma padd_padd [simp]: "padd (padd p i) j = padd p (i + j)"
  by (cases p) (auto simp: add.assoc)


section \<open>Facts about regions\<close>

lemma word_mod4_iff: "(x :: u32) mod 4 = 0 \<longleftrightarrow> 4 dvd unat x"
proof -
  have "x mod 4 = 0 \<longleftrightarrow> unat (x mod 4) = 0" by (simp add: unat_eq_zero)
  then show ?thesis by (simp add: unat_mod mod_eq_0_iff_dvd)
qed

lemma unat_div4: "unat ((x :: u32) div 4) = unat x div 4"
  by (simp add: unat_div)

lemma in_region_0 [simp]: "\<not> in_region d 0 a"
  by (simp add: in_region_def)

lemma in_region_base [simp]: "0 < n \<Longrightarrow> in_region d n d"
  by (simp add: in_region_def)

lemma in_region_offset [region_facts]:
  "i < 4294967296 \<Longrightarrow> in_region d n (d + of_nat i) \<longleftrightarrow> i < n"
  by (simp add: in_region_def unat_of_nat_u32)

lemma in_region_iff: "in_region d n a \<longleftrightarrow> (\<exists>i < n. i < 4294967296 \<and> a = d + of_nat i)"
proof
  assume "in_region d n a"
  then show "\<exists>i < n. i < 4294967296 \<and> a = d + of_nat i"
    by (intro exI [of _ "unat (a - d)"]) (simp add: in_region_def)
qed (auto simp: in_region_offset)

lemma in_region_mono: "in_region d n a \<Longrightarrow> n \<le> k \<Longrightarrow> in_region d k a"
  by (simp add: in_region_def)

text \<open>A region splits into its first \<open>j\<close> bytes and the rest.\<close>

lemma in_region_split:
  assumes "j + k \<le> 4294967296"
  shows "in_region d (j + k) a \<longleftrightarrow> in_region d j a \<or> in_region (d + of_nat j) k a"
proof (cases "unat (a - d) < j")
  case False
  then show ?thesis
    by (auto simp: in_region_def unat_diff_of_nat diff_diff_eq [symmetric])
next
  case True
  then show ?thesis by (simp add: in_region_def)
qed

lemma in_region_split_disj:
  assumes "j + k \<le> 4294967296" "in_region d j a"
  shows "\<not> in_region (d + of_nat j) k a"
proof -
  let ?x = "a - d"
  have x: "unat ?x < j" using assms by (simp add: in_region_def)
  then have j: "j \<noteq> 0" by simp
  have "unat (?x - of_nat j) = unat ?x + 4294967296 - j \<or> j = 4294967296"
  proof (cases "j = 4294967296")
    case False
    with assms have "j < 4294967296" by simp
    with x show ?thesis by (simp add: unat_sub_if' unat_of_nat_u32)
  qed simp
  then show ?thesis
    using assms(1) x j by (auto simp: in_region_def diff_diff_eq [symmetric])
qed

lemma in_region_Suc:
  assumes "Suc n \<le> 4294967296"
  shows "in_region d (Suc n) a \<longleftrightarrow> a = d \<or> in_region (d + 1) n a"
proof -
  have "in_region d 1 a \<longleftrightarrow> a = d" by (simp add: in_region_def unat_eq_zero)
  with in_region_split [of 1 n d a] assms show ?thesis by simp
qed

lemma in_region_4: "in_region d 4 a \<longleftrightarrow> a = d \<or> a = d + 1 \<or> a = d + 2 \<or> a = d + 3"
proof -
  have "in_region d (Suc (Suc (Suc (Suc 0)))) a \<longleftrightarrow> a = d \<or> a = d + 1 \<or> a = d + 2 \<or> a = d + 3"
    by (simp add: in_region_Suc add.assoc)
  then show ?thesis by (simp add: numeral_eq_Suc)
qed

lemma fill_region_0 [simp]: "fill_region m d c 0 = m"
  by (simp add: fill_region_def)

lemma fill_region_1: "fill_region m d c 1 = m(d := c)"
  by (auto simp: fill_region_def in_region_def fun_eq_iff unat_eq_zero)

lemma fill_region_append:
  assumes "j + k \<le> 4294967296"
  shows "fill_region (fill_region m d c j) (d + of_nat j) c k = fill_region m d c (j + k)"
  using in_region_split [OF assms] by (auto simp: fill_region_def fun_eq_iff)

lemma fill_region_Suc:
  "n < 4294967296 \<Longrightarrow> fill_region (m(d := c)) (d + 1) c n = fill_region m d c (Suc n)"
  using fill_region_append [of 1 n m d c] unfolding fill_region_1 by simp

lemma fill_region_4:
  "4 + n \<le> 4294967296 \<Longrightarrow> fill_region (fill_region m d c 4) (d + 4) c n = fill_region m d c (4 + n)"
  using fill_region_append [of 4 n m d c] by simp

lemma copy_region_0 [simp]: "copy_region m d s 0 = m"
  by (simp add: copy_region_def)

lemma copy_region_1: "copy_region m d s 1 = m(d := m s)"
  by (auto simp: copy_region_def in_region_def fun_eq_iff unat_eq_zero)

lemma copy_region_self [simp]: "copy_region m d d n = m"
  by (auto simp: copy_region_def fun_eq_iff)

text \<open>
  Copying upwards is safe when the destination does not start inside the source, and
  copying downwards when the source does not start inside the destination.
\<close>

definition safe_dir :: "u32 \<Rightarrow> u32 \<Rightarrow> nat \<Rightarrow> bool" where
  "safe_dir d s n \<longleftrightarrow> d = s \<or> n \<le> unat (d - s)"

lemma copy_region_append_up:
  assumes n: "j + k \<le> 4294967296" and safe: "safe_dir d s (j + k)"
  shows "copy_region (copy_region m d s j) (d + of_nat j) (s + of_nat j) k = copy_region m d s (j + k)"
proof (cases "d = s")
  case False
  have "copy_region m d s j (a + (s - d)) = m (a + (s - d))"
    if "in_region (d + of_nat j) k a" for a
  proof -
    from that obtain i where i: "i < k" "a = d + of_nat j + of_nat i"
      by (auto simp: in_region_iff)
    have "\<not> in_region d j (s + of_nat (j + i))"
    proof
      assume "in_region d j (s + of_nat (j + i))"
      then obtain h where h: "h < j" "s + of_nat (j + i) = d + (of_nat h :: u32)"
        by (auto simp: in_region_iff)
      have "d = s + of_nat (j + i) - (of_nat h :: u32)" using h(2) by simp
      then have "d - s = of_nat (j + i - h)" using h(1) by (simp add: of_nat_diff)
      moreover have "j + i - h < j + k" using i h n by simp
      ultimately have "unat (d - s) < j + k"
        using n by (simp add: unat_of_nat_u32)
      with safe False show False by (simp add: safe_dir_def)
    qed
    moreover have "a + (s - d) = s + of_nat (j + i)" using i by simp
    ultimately show ?thesis unfolding copy_region_def by presburger
  qed
  then show ?thesis
    using in_region_split [OF n, of d]
    by (simp add: fun_eq_iff copy_region_def [of "copy_region m d s j"]) (auto simp: copy_region_def)
qed simp

lemma copy_region_append_down:
  assumes n: "j + k \<le> 4294967296" and safe: "safe_dir s d (j + k)"
  shows "copy_region (copy_region m (d + of_nat j) (s + of_nat j) k) d s j = copy_region m d s (j + k)"
proof (cases "d = s")
  case False
  have "copy_region m (d + of_nat j) (s + of_nat j) k (a + (s - d)) = m (a + (s - d))"
    if "in_region d j a" for a
  proof -
    from that obtain i where i: "i < j" "a = d + of_nat i" by (auto simp: in_region_iff)
    have "\<not> in_region (d + of_nat j) k (s + of_nat i)"
    proof
      assume "in_region (d + of_nat j) k (s + of_nat i)"
      then obtain h where h: "h < k" "s + of_nat i = d + of_nat j + (of_nat h :: u32)"
        by (auto simp: in_region_iff)
      have "s = d + of_nat j + (of_nat h :: u32) - of_nat i" using h(2) by (metis add_diff_cancel)
      then have "s - d = of_nat (j + h - i)" using i(1) by (simp add: of_nat_diff)
      moreover have "j + h - i < j + k" using i h n by simp
      ultimately have "unat (s - d) < j + k"
        using n by (simp add: unat_of_nat_u32)
      with safe False show False by (simp add: safe_dir_def)
    qed
    moreover have "a + (s - d) = s + of_nat i" using i by simp
    ultimately show ?thesis unfolding copy_region_def by presburger
  qed
  then show ?thesis
    using in_region_split [OF n, of d]
    by (simp add: fun_eq_iff copy_region_def [of "copy_region m (d + of_nat j) (s + of_nat j) k"])
      (auto simp: copy_region_def)
qed simp

lemma copy_region_Suc_up:
  "n < 4294967296 \<Longrightarrow> safe_dir d s (Suc n) \<Longrightarrow>
   copy_region (m(d := m s)) (d + 1) (s + 1) n = copy_region m d s (Suc n)"
  using copy_region_append_up [of 1 n d s m] unfolding copy_region_1 by simp

lemma copy_region_Suc_down:
  "n < 4294967296 \<Longrightarrow> safe_dir s d (Suc n) \<Longrightarrow>
   copy_region (m(d + of_nat n := m (s + of_nat n))) d s n = copy_region m d s (Suc n)"
  using copy_region_append_down [of n 1 s d m] unfolding copy_region_1 by simp

lemma copy_region_4_up:
  "4 + n \<le> 4294967296 \<Longrightarrow> safe_dir d s (4 + n) \<Longrightarrow>
   copy_region (copy_region m d s 4) (d + 4) (s + 4) n = copy_region m d s (4 + n)"
  using copy_region_append_up [of 4 n d s m] by simp

lemma copy_region_4_down:
  "4 + n \<le> 4294967296 \<Longrightarrow> safe_dir s d (4 + n) \<Longrightarrow>
   copy_region (copy_region m (d + of_nat n) (s + of_nat n) 4) d s n = copy_region m d s (4 + n)"
  using copy_region_append_down [of n 4 s d m] by (simp add: add.commute)

lemma safe_dir_shift: "safe_dir d s n \<Longrightarrow> k \<le> n \<Longrightarrow> safe_dir (d + x) (s + x) k"
  by (auto simp: safe_dir_def)

lemma safe_dir_less: "safe_dir d s n \<Longrightarrow> k \<le> n \<Longrightarrow> safe_dir d s k"
  by (auto simp: safe_dir_def)

section \<open>Facts about strings in memory\<close>

lemma touches_Mem [simp]: "touches (Mem b) n a = in_region b n a"
  and touches_Lit [simp]: "touches (Lit l i) n a = False"
  by (simp_all add: touches_def)

lemma touches_first [intro]: "touches p (Suc n) a \<Longrightarrow> n = 0 \<Longrightarrow> touches p 1 a"
  by (cases p) auto

lemma touches_step:
  assumes "touches (padd p 1) n a" "Suc n \<le> 4294967296"
  shows "touches p (Suc n) a"
  using assms by (cases p) (auto simp: in_region_Suc)

lemma touches_mono: "touches p n a \<Longrightarrow> n \<le> k \<Longrightarrow> touches p k a"
  by (cases p) (auto intro: in_region_mono)

lemma rdb_cong: "(\<And>a. touches p 1 a \<Longrightarrow> m' a = m a) \<Longrightarrow> rdb m' p = rdb m p"
  by (cases p) auto

lemma rdb_upd [ptr_facts]: "\<not> touches p 1 d \<Longrightarrow> rdb (m(d := c)) p = rdb m p"
  by (rule rdb_cong) auto

lemma cstr_cong:
  assumes "\<And>a. touches p (Suc (length s)) a \<Longrightarrow> m' a = m a" "length s < 4294967296"
  shows "cstr m' p s = cstr m p s"
  using assms
proof (induction s arbitrary: p)
  case Nil
  then have "rdb m' p = rdb m p" by (intro rdb_cong) simp
  then show ?case by simp
next
  case (Cons c s)
  have "rdb m' p = rdb m p"
    using Cons.prems(1) by (intro rdb_cong) (auto intro: touches_mono)
  moreover have "cstr m' (padd p 1) s = cstr m (padd p 1) s"
  proof (rule Cons.IH)
    show "m' a = m a" if "touches (padd p 1) (Suc (length s)) a" for a
      using touches_step [OF that] Cons.prems by simp
  qed (use Cons.prems in simp)
  ultimately show ?case by simp
qed

lemma cstr_nonzero: "cstr m p s \<Longrightarrow> 0 \<notin> set s"
  by (induction s arbitrary: p) auto

lemma cstr_append: "cstr m p (s @ t) \<longleftrightarrow> (\<forall>i < length s. rdb m (padd p (int i)) = Some (s ! i) \<and> s ! i \<noteq> 0)
    \<and> cstr m (padd p (int (length s))) t"
proof (induction s arbitrary: p)
  case (Cons c s)
  have "(\<forall>i < length (c # s). rdb m (padd p (int i)) = Some ((c # s) ! i) \<and> (c # s) ! i \<noteq> 0) \<longleftrightarrow>
     rdb m p = Some c \<and> c \<noteq> 0 \<and>
     (\<forall>i < length s. rdb m (padd (padd p 1) (int i)) = Some (s ! i) \<and> s ! i \<noteq> 0)"
    by (auto simp: less_Suc_eq_0_disj)
  then show ?case using Cons.IH [of "padd p 1"] by (simp add: add.commute)
qed simp

lemma cstr_drop: "cstr m p (s @ t) \<Longrightarrow> cstr m (padd p (int (length s))) t"
  by (simp add: cstr_append)

lemma cstr_nth: "cstr m p s \<Longrightarrow> i < length s \<Longrightarrow> rdb m (padd p (int i)) = Some (s ! i)"
  using cstr_append [of m p s "[]"] by simp

lemma cstr_end: "cstr m p s \<Longrightarrow> rdb m (padd p (int (length s))) = Some 0"
  using cstr_append [of m p s "[]"] by simp

lemma length_bytes [simp]: "length (bytes l) = length l"
  by (simp add: bytes_def)

lemma unat_of_nat_eq_u8: "n < 256 \<Longrightarrow> unat (of_nat n :: u8) = n"
  by (simp add: unat_of_nat take_bit_nat_eq_self)

lemma of_char_eq_iff_u8: "of_char c = (of_char d :: u8) \<longleftrightarrow> c = d"
proof -
  have u: "unat (of_char x :: u8) = of_char x" for x
  proof -
    have "of_char x = (of_nat (of_char x) :: u8)" by (rule of_nat_of_char [symmetric])
    then show ?thesis by (simp only: unat_of_nat_eq_u8 [OF nat_of_char_less_256])
  qed
  have "of_char c = (of_char d :: u8) \<longleftrightarrow> unat (of_char c :: u8) = unat (of_char d :: u8)"
    by (simp add: word_unat_eq_iff)
  then show ?thesis by (simp only: u of_char_eq_iff)
qed

lemma of_char_eq_0_iff_u8: "of_char c = (0 :: u8) \<longleftrightarrow> c = CHR 0x00"
  using of_char_eq_iff_u8 [of c "CHR 0x00"] by simp

text \<open>A literal without embedded NUL is found at its own pointer, in every memory.\<close>

lemma cstr_Lit_drop:
  "CHR 0x00 \<notin> set l \<Longrightarrow> i \<le> length l \<Longrightarrow> cstr m (Lit l (int i)) (drop i (bytes l))"
proof (induction "length l - i" arbitrary: i)
  case (Suc n)
  then have i: "i < length l" by simp
  then have nz: "of_char (l ! i) \<noteq> (0 :: u8)"
    using Suc.prems(1) nth_mem [OF i] by (metis of_char_eq_0_iff_u8)
  have "cstr m (Lit l (int (Suc i))) (drop (Suc i) (bytes l))"
    using Suc.hyps Suc.prems(1) i by (intro Suc.hyps(1)) simp_all
  moreover have "drop i (bytes l) = of_char (l ! i) # drop (Suc i) (bytes l)"
    using i by (simp add: Cons_nth_drop_Suc [symmetric] bytes_def)
  ultimately show ?case using nz i by (simp add: add.commute)
qed (simp add: bytes_def)

lemma cstr_Lit: "CHR 0x00 \<notin> set l \<Longrightarrow> cstr m (Lit l 0) (bytes l)"
  using cstr_Lit_drop [of l 0 m] by simp

lemma put_bytes_apply:
  "length bs \<le> 4294967296 \<Longrightarrow>
   put_bytes m d bs a = (if in_region d (length bs) a then bs ! unat (a - d) else m a)"
proof (induction bs arbitrary: m d)
  case (Cons b bs)
  show ?case
  proof (cases "a = d")
    case True
    have "\<not> in_region (d + 1) (length bs) d"
      using in_region_split_disj [of 1 "length bs" d d] Cons.prems by simp
    with True Cons show ?thesis by simp
  next
    case False
    then have "a - d \<noteq> 0" by simp
    then have "unat (a - (d + 1)) = unat (a - d) - 1" "unat (a - d) \<noteq> 0"
      by (metis diff_diff_eq unat_minus_one, simp only: unat_eq_zero not_False_eq_True)
    then show ?thesis using False Cons by (simp add: in_region_Suc)
  qed
qed simp

lemma put_bytes_outside:
  "length bs \<le> 4294967296 \<Longrightarrow> \<not> in_region d (length bs) a \<Longrightarrow> put_bytes m d bs a = m a"
  by (simp add: put_bytes_apply)

lemma put_bytes_nth:
  "i < length bs \<Longrightarrow> length bs \<le> 4294967296 \<Longrightarrow> put_bytes m d bs (d + of_nat i) = bs ! i"
  by (simp add: put_bytes_apply in_region_offset unat_of_nat_u32)

lemma put_bytes_append: "put_bytes m d (bs @ cs) = put_bytes (put_bytes m d bs) (d + of_nat (length bs)) cs"
  by (induction bs arbitrary: m d) (simp_all add: ac_simps del: fun_upd_apply)

lemma cstr_put_bytes:
  assumes "0 \<notin> set s" "length s < 4294967296"
  shows "cstr (put_bytes m d (s @ [0])) (Mem d) s"
proof -
  let ?m = "put_bytes m d (s @ [0])"
  have "?m (d + of_nat i) = (s @ [0]) ! i" if "i \<le> length s" for i
    using that assms by (intro put_bytes_nth) auto
  then have "rdb ?m (padd (Mem d) (int i)) = Some ((s @ [0]) ! i)" if "i \<le> length s" for i
    using that by simp
  with assms(1) show ?thesis
    using cstr_append [of ?m "Mem d" s "[]"] by (auto simp: nth_append in_set_conv_nth)
qed

lemma sint_of_small: "unat (n :: u32) < 2147483648 \<Longrightarrow> sint n = int (unat n)"
proof -
  assume "unat n < 2147483648"
  moreover have u: "uint n = int (unat n)" by simp
  moreover have "(2147483648 :: int) = 2 ^ 31" by simp
  ultimately have "uint n < 2 ^ 31" "- (2 ^ 31) \<le> uint n" by linarith+
  then have "signed_take_bit 31 (uint n) = uint n"
    by (intro signed_take_bit_int_eq_self)
  then show ?thesis by (simp add: sint_uint)
qed

lemma sint_of_nat_small: "n < 2147483648 \<Longrightarrow> sint (of_nat n :: u32) = int n"
  by (subst sint_of_small) (simp_all add: unat_of_nat_u32)

end
