(* ===== verification/JosString.thy ===== *)
theory JosString
  imports JosPrelude
begin

text \<open>
  The string and memory routines of \<^verbatim>\<open>lib/string.c\<close>. A routine that only reads takes the
  memory and returns its result; one that writes returns the new memory. A loop that stops
  only at a NUL is a \<^theory_text>\<open>partial_function\<close>, whose result \<open>None\<close> means that it does not
  return or runs off a literal; the loops that count a length down are total recursions.
  \<^verbatim>\<open>memset\<close> and \<^verbatim>\<open>memmove\<close> are modelled twice, as the source has them: with the i386 string
  instructions (\<^verbatim>\<open>#if ASM\<close>, the version that is built) and as the portable C loops of the
  \<^verbatim>\<open>#else\<close> branch.
\<close>

section \<open>String length and search\<close>

partial_function (option) strlen_loop :: "mem \<Rightarrow> cptr \<Rightarrow> u32 \<Rightarrow> u32 option" where
  "strlen_loop m s n =
     do { c \<leftarrow> rdb m s;
          if c \<noteq> 0 then strlen_loop m (padd s 1) (n + 1) else Some n }"

definition strlen :: "mem \<Rightarrow> cptr \<Rightarrow> u32 option" where
  "strlen m s = strlen_loop m s 0"

function strnlen_loop :: "mem \<Rightarrow> cptr \<Rightarrow> u32 \<Rightarrow> u32 \<Rightarrow> u32 option" where
  "strnlen_loop m s sz n =
     (if sz > 0 then
        (case rdb m s of
           None \<Rightarrow> None
         | Some c \<Rightarrow> if c \<noteq> 0 then strnlen_loop m (padd s 1) (sz - 1) (n + 1) else Some n)
      else Some n)"
  by pat_completeness auto
termination
  by (relation "measure (\<lambda>(m, s, sz, n). unat sz)") (auto simp: unat_minus_one unat_gt_0)

declare strnlen_loop.simps [simp del]

definition strnlen :: "mem \<Rightarrow> cptr \<Rightarrow> u32 \<Rightarrow> u32 option" where
  "strnlen m s sz = strnlen_loop m s sz 0"

partial_function (option) strchr :: "mem \<Rightarrow> cptr \<Rightarrow> u8 \<Rightarrow> cptr option" where
  "strchr m s c =
     do { d \<leftarrow> rdb m s;
          if d \<noteq> 0 then if d = c then Some s else strchr m (padd s 1) c
          else Some NULL }"

partial_function (option) strfind :: "mem \<Rightarrow> cptr \<Rightarrow> u8 \<Rightarrow> cptr option" where
  "strfind m s c =
     do { d \<leftarrow> rdb m s;
          if d \<noteq> 0 then if d = c then Some s else strfind m (padd s 1) c
          else Some s }"

section \<open>String copies\<close>

partial_function (option) strcpy_loop :: "mem \<Rightarrow> cptr \<Rightarrow> cptr \<Rightarrow> mem option" where
  "strcpy_loop m dst src =
     do { c \<leftarrow> rdb m src;
          m' \<leftarrow> wrb m dst c;
          if c \<noteq> 0 then strcpy_loop m' (padd dst 1) (padd src 1) else Some m' }"

text \<open>The routines that return a pointer into their argument return it with the memory.\<close>

definition strcpy :: "mem \<Rightarrow> cptr \<Rightarrow> cptr \<Rightarrow> (cptr \<times> mem) option" where
  "strcpy m dst src = do { m' \<leftarrow> strcpy_loop m dst src; Some (dst, m') }"

definition strcat :: "mem \<Rightarrow> cptr \<Rightarrow> cptr \<Rightarrow> (cptr \<times> mem) option" where
  "strcat m dst src =
     do { len \<leftarrow> strlen m dst;
          (r, m') \<leftarrow> strcpy m (padd dst (sint len)) src;
          Some (dst, m') }"

text \<open>\<^verbatim>\<open>strncpy\<close> counts \<open>i\<close> up to \<open>sz\<close>; here \<open>k = sz - i\<close> iterations are left.\<close>

fun strncpy_loop :: "mem \<Rightarrow> cptr \<Rightarrow> cptr \<Rightarrow> nat \<Rightarrow> mem option" where
  "strncpy_loop m dst src 0 = Some m"
| "strncpy_loop m dst src (Suc k) =
     do { c \<leftarrow> rdb m src;
          m' \<leftarrow> wrb m dst c;
          c' \<leftarrow> rdb m' src;
          strncpy_loop m' (padd dst 1) (if c' \<noteq> 0 then padd src 1 else src) k }"

definition strncpy :: "mem \<Rightarrow> cptr \<Rightarrow> cptr \<Rightarrow> u32 \<Rightarrow> (cptr \<times> mem) option" where
  "strncpy m dst src sz = do { m' \<leftarrow> strncpy_loop m dst src (unat sz); Some (dst, m') }"

text \<open>The loop of \<^verbatim>\<open>strlcpy\<close>; \<open>sz\<close> is the value before the decrement of the condition.\<close>

function strlcpy_loop :: "mem \<Rightarrow> cptr \<Rightarrow> cptr \<Rightarrow> u32 \<Rightarrow> (cptr \<times> mem) option" where
  "strlcpy_loop m dst src sz =
     (if sz - 1 > 0 \<and> sz > 0 then
        (case rdb m src of
           None \<Rightarrow> None
         | Some c \<Rightarrow>
             if c \<noteq> 0 then
               (case wrb m dst c of
                  None \<Rightarrow> None
                | Some m' \<Rightarrow> strlcpy_loop m' (padd dst 1) (padd src 1) (sz - 1))
             else Some (dst, m))
      else Some (dst, m))"
  by pat_completeness auto
termination
  by (relation "measure (\<lambda>(m, dst, src, sz). unat sz)") (auto simp: unat_minus_one unat_gt_0)

declare strlcpy_loop.simps [simp del]

definition strlcpy :: "mem \<Rightarrow> cptr \<Rightarrow> cptr \<Rightarrow> u32 \<Rightarrow> (int \<times> mem) option" where
  "strlcpy m dst src sz =
     (if sz > 0 then
        do { (d, m') \<leftarrow> strlcpy_loop m dst src sz;
             m'' \<leftarrow> wrb m' d 0;
             n \<leftarrow> pdiff d dst;
             Some (n, m'') }
      else do { n \<leftarrow> pdiff dst dst; Some (n, m) })"

section \<open>String comparison\<close>

partial_function (option) strcmp :: "mem \<Rightarrow> cptr \<Rightarrow> cptr \<Rightarrow> int option" where
  "strcmp m p q =
     do { a \<leftarrow> rdb m p;
          b \<leftarrow> rdb m q;
          if a \<noteq> 0 \<and> a = b then strcmp m (padd p 1) (padd q 1)
          else Some (uint a - uint b) }"

function strncmp :: "mem \<Rightarrow> cptr \<Rightarrow> cptr \<Rightarrow> u32 \<Rightarrow> int option" where
  "strncmp m p q n =
     (if n > 0 then
        (case rdb m p of
           None \<Rightarrow> None
         | Some a \<Rightarrow>
             (case rdb m q of
                None \<Rightarrow> None
              | Some b \<Rightarrow>
                  if a \<noteq> 0 \<and> a = b then strncmp m (padd p 1) (padd q 1) (n - 1)
                  else Some (uint a - uint b)))
      else Some 0)"
  by pat_completeness auto
termination
  by (relation "measure (\<lambda>(m, p, q, n). unat n)") (auto simp: unat_minus_one unat_gt_0)

declare strncmp.simps [simp del]

section \<open>Memory routines: the i386 string instructions\<close>

text \<open>
  \<^verbatim>\<open>rep stosb\<close> and \<^verbatim>\<open>rep stosl\<close> store \<open>al\<close>/\<open>eax\<close> at \<open>edi\<close> and step \<open>edi\<close>,
  \<open>ecx\<close> times; \<^verbatim>\<open>rep movsb\<close> and \<^verbatim>\<open>rep movsl\<close> copy from \<open>esi\<close> to \<open>edi\<close>. The
  direction flag \<open>df\<close> selects whether the registers step up (\<^verbatim>\<open>cld\<close>) or down (\<^verbatim>\<open>std\<close>).
\<close>

primrec rep_stosb :: "mem \<Rightarrow> u32 \<Rightarrow> u8 \<Rightarrow> nat \<Rightarrow> mem" where
  "rep_stosb m edi al 0 = m"
| "rep_stosb m edi al (Suc ecx) = rep_stosb (m(edi := al)) (edi + 1) al ecx"

primrec rep_stosl :: "mem \<Rightarrow> u32 \<Rightarrow> u32 \<Rightarrow> nat \<Rightarrow> mem" where
  "rep_stosl m edi eax 0 = m"
| "rep_stosl m edi eax (Suc ecx) = rep_stosl (st32 m edi eax) (edi + 4) eax ecx"

definition dstep :: "bool \<Rightarrow> u32 \<Rightarrow> u32 \<Rightarrow> u32" where
  "dstep df k a = (if df then a - k else a + k)"

primrec rep_movsb :: "bool \<Rightarrow> mem \<Rightarrow> u32 \<Rightarrow> u32 \<Rightarrow> nat \<Rightarrow> mem" where
  "rep_movsb df m edi esi 0 = m"
| "rep_movsb df m edi esi (Suc ecx) =
     rep_movsb df (m(edi := m esi)) (dstep df 1 edi) (dstep df 1 esi) ecx"

primrec rep_movsl :: "bool \<Rightarrow> mem \<Rightarrow> u32 \<Rightarrow> u32 \<Rightarrow> nat \<Rightarrow> mem" where
  "rep_movsl df m edi esi 0 = m"
| "rep_movsl df m edi esi (Suc ecx) =
     rep_movsl df (st32 m edi (ld32 m esi)) (dstep df 4 edi) (dstep df 4 esi) ecx"

text \<open>\<^verbatim>\<open>(int)v%4 == 0\<close> holds exactly when the unsigned remainder is 0.\<close>

definition memset :: "mem \<Rightarrow> u32 \<Rightarrow> u32 \<Rightarrow> u32 \<Rightarrow> mem" where
  "memset m v c n =
     (if n = 0 then m
      else if v mod 4 = 0 \<and> n mod 4 = 0 then
        let c' = c AND 0xFF;
            c'' = push_bit 24 c' OR push_bit 16 c' OR push_bit 8 c' OR c'
        in rep_stosl m v c'' (unat (n div 4))
      else rep_stosb m v (ucast c) (unat n))"

definition memmove :: "mem \<Rightarrow> u32 \<Rightarrow> u32 \<Rightarrow> u32 \<Rightarrow> mem" where
  "memmove m dst src n =
     (let s = src; d = dst in
      if s < d \<and> s + n > d then
        let s = s + n; d = d + n in
        if s mod 4 = 0 \<and> d mod 4 = 0 \<and> n mod 4 = 0
        then rep_movsl True m (d - 4) (s - 4) (unat (n div 4))
        else rep_movsb True m (d - 1) (s - 1) (unat n)
      else
        if s mod 4 = 0 \<and> d mod 4 = 0 \<and> n mod 4 = 0
        then rep_movsl False m d s (unat (n div 4))
        else rep_movsb False m d s (unat n))"

section \<open>Memory routines: the portable branch\<close>

text \<open>\<^verbatim>\<open>m = n\<close> converts the length to a signed \<^verbatim>\<open>int\<close> that is then counted down.\<close>

primrec memset_c_loop :: "mem \<Rightarrow> u32 \<Rightarrow> u8 \<Rightarrow> nat \<Rightarrow> mem" where
  "memset_c_loop mm p c 0 = mm"
| "memset_c_loop mm p c (Suc k) = memset_c_loop (mm(p := c)) (p + 1) c k"

definition memset_c :: "mem \<Rightarrow> u32 \<Rightarrow> u32 \<Rightarrow> u32 \<Rightarrow> mem" where
  "memset_c mm v c n = memset_c_loop mm v (ucast c) (nat (sint n))"

primrec copy_down :: "mem \<Rightarrow> u32 \<Rightarrow> u32 \<Rightarrow> nat \<Rightarrow> mem" where
  "copy_down m d s 0 = m"
| "copy_down m d s (Suc n) = copy_down (m(d - 1 := m (s - 1))) (d - 1) (s - 1) n"

primrec copy_up :: "mem \<Rightarrow> u32 \<Rightarrow> u32 \<Rightarrow> nat \<Rightarrow> mem" where
  "copy_up m d s 0 = m"
| "copy_up m d s (Suc n) = copy_up (m(d := m s)) (d + 1) (s + 1) n"

definition memmove_c :: "mem \<Rightarrow> u32 \<Rightarrow> u32 \<Rightarrow> u32 \<Rightarrow> mem" where
  "memmove_c m dst src n =
     (let s = src; d = dst in
      if s < d \<and> s + n > d then copy_down m (d + n) (s + n) (unat n)
      else copy_up m d s (unat n))"

definition memcpy :: "mem \<Rightarrow> u32 \<Rightarrow> u32 \<Rightarrow> u32 \<Rightarrow> mem" where
  "memcpy m dst src n = memmove m dst src n"

section \<open>Comparison and search of memory\<close>

fun memcmp_loop :: "mem \<Rightarrow> cptr \<Rightarrow> cptr \<Rightarrow> nat \<Rightarrow> int option" where
  "memcmp_loop m s1 s2 0 = Some 0"
| "memcmp_loop m s1 s2 (Suc n) =
     do { a \<leftarrow> rdb m s1;
          b \<leftarrow> rdb m s2;
          if a \<noteq> b then Some (uint a - uint b)
          else memcmp_loop m (padd s1 1) (padd s2 1) n }"

definition memcmp :: "mem \<Rightarrow> cptr \<Rightarrow> cptr \<Rightarrow> u32 \<Rightarrow> int option" where
  "memcmp m v1 v2 n = memcmp_loop m v1 v2 (unat n)"

function memfind_loop :: "mem \<Rightarrow> u32 \<Rightarrow> u32 \<Rightarrow> u8 \<Rightarrow> u32" where
  "memfind_loop m s ends c =
     (if s < ends then if m s = c then s else memfind_loop m (s + 1) ends c else s)"
  by pat_completeness auto
termination
  by (relation "measure (\<lambda>(m, s, ends, c). unat (ends - s))") (auto intro: unat_step_less)

declare memfind_loop.simps [simp del]

definition memfind :: "mem \<Rightarrow> u32 \<Rightarrow> u32 \<Rightarrow> u32 \<Rightarrow> u32" where
  "memfind m s c n = memfind_loop m s (s + n) (ucast c)"

section \<open>Numbers\<close>

text \<open>\<^verbatim>\<open>strtol\<close>, in the order of the source: blanks, sign, base prefix, digits.\<close>

partial_function (option) gobble_blanks :: "mem \<Rightarrow> cptr \<Rightarrow> cptr option" where
  "gobble_blanks m s =
     do { c \<leftarrow> rdb m s;
          if c = 32 \<or> c = 9 then gobble_blanks m (padd s 1) else Some s }"

definition digit_value :: "u8 \<Rightarrow> int option" where
  "digit_value c =
     (if 48 \<le> c \<and> c \<le> 57 then Some (uint c - 48)
      else if 97 \<le> c \<and> c \<le> 122 then Some (uint c - 97 + 10)
      else if 65 \<le> c \<and> c \<le> 90 then Some (uint c - 65 + 10)
      else None)"

partial_function (option) strtol_digits ::
  "mem \<Rightarrow> cptr \<Rightarrow> int \<Rightarrow> int \<Rightarrow> (cptr \<times> int) option" where
  "strtol_digits m s base val =
     do { c \<leftarrow> rdb m s;
          case digit_value c of
            None \<Rightarrow> Some (s, val)
          | Some dig \<Rightarrow>
              if dig \<ge> base then Some (s, val)
              else strtol_digits m (padd s 1) base (wrap32 (val * base + dig)) }"

definition strtol_prefix :: "mem \<Rightarrow> cptr \<Rightarrow> int \<Rightarrow> (cptr \<times> int) option" where
  "strtol_prefix m s base =
     do { s0 \<leftarrow> rdb m s;
          hex \<leftarrow> (if (base = 0 \<or> base = 16) \<and> s0 = 48
                  then do { s1 \<leftarrow> rdb m (padd s 1); Some (s1 = 120) } else Some False);
          Some (if hex then (padd s 2, 16)
                else if base = 0 \<and> s0 = 48 then (padd s 1, 8)
                else if base = 0 then (s, 10) else (s, base)) }"

text \<open>The result is the value and the pointer that is stored through \<^verbatim>\<open>endptr\<close>.\<close>

definition strtol :: "mem \<Rightarrow> cptr \<Rightarrow> int \<Rightarrow> (int \<times> cptr) option" where
  "strtol m s base =
     do { s \<leftarrow> gobble_blanks m s;
          c \<leftarrow> rdb m s;
          let (s, neg) = (if c = 43 then (padd s 1, False)
                          else if c = 45 then (padd s 1, True) else (s, False));
          (s, base) \<leftarrow> strtol_prefix m s base;
          (s, val) \<leftarrow> strtol_digits m s base 0;
          Some (if neg then wrap32 (- val) else val, s) }"

text \<open>The equations of the partial functions are executable.\<close>

declare strlen_loop.simps [code]
  strchr.simps [code]
  strfind.simps [code]
  strcpy_loop.simps [code]
  strcmp.simps [code]
  gobble_blanks.simps [code]
  strtol_digits.simps [code]

section \<open>Results: reading strings\<close>

lemma strlen_loop_cstr: "cstr m p s \<Longrightarrow> strlen_loop m p n = Some (n + of_nat (length s))"
proof (induction s arbitrary: p n)
  case Nil
  then show ?case by (subst strlen_loop.simps) simp
next
  case (Cons c s)
  then show ?case by (subst strlen_loop.simps) (simp add: add.assoc)
qed

lemma strlen_cstr: "cstr m p s \<Longrightarrow> strlen m p = Some (of_nat (length s))"
  by (simp add: strlen_def strlen_loop_cstr)

lemma strnlen_loop_cstr:
  "cstr m p s \<Longrightarrow> strnlen_loop m p sz n = Some (n + of_nat (min (length s) (unat sz)))"
proof (induction s arbitrary: p sz n)
  case Nil
  then show ?case by (subst strnlen_loop.simps) simp
next
  case (Cons c s)
  show ?case
  proof (cases "sz = 0")
    case False
    then have "unat sz = Suc (unat (sz - 1))"
      by (simp add: unat_minus_one unat_gt_0)
    with Cons False show ?thesis
      by (subst strnlen_loop.simps) (simp add: word_neq_0_conv add.assoc)
  qed (subst strnlen_loop.simps, simp)
qed

lemma strnlen_cstr: "cstr m p s \<Longrightarrow> strnlen m p sz = Some (of_nat (min (length s) (unat sz)))"
  by (simp add: strnlen_def strnlen_loop_cstr)

lemma strfind_cstr:
  "cstr m p s \<Longrightarrow> strfind m p c = Some (padd p (int (length (takeWhile (\<lambda>d. d \<noteq> c) s))))"
proof (induction s arbitrary: p)
  case Nil
  then show ?case by (subst strfind.simps) simp
next
  case (Cons d s)
  then show ?case by (subst strfind.simps) (auto simp: add.commute)
qed

lemma strchr_cstr:
  "cstr m p s \<Longrightarrow> strchr m p c =
     Some (if c \<in> set s then padd p (int (length (takeWhile (\<lambda>d. d \<noteq> c) s))) else NULL)"
proof (induction s arbitrary: p)
  case Nil
  then show ?case by (subst strchr.simps) simp
next
  case (Cons d s)
  then show ?case by (subst strchr.simps) (auto simp: add.commute)
qed

section \<open>Results: comparison\<close>

text \<open>The C comparison result of two strings, by the first position where they differ.\<close>

fun cmp_bytes :: "u8 list \<Rightarrow> u8 list \<Rightarrow> int" where
  "cmp_bytes [] [] = 0"
| "cmp_bytes [] (b # bs) = - uint b"
| "cmp_bytes (a # as) [] = uint a"
| "cmp_bytes (a # as) (b # bs) = (if a = b then cmp_bytes as bs else uint a - uint b)"

lemma strcmp_cmp_bytes: "cstr m p s \<Longrightarrow> cstr m q t \<Longrightarrow> strcmp m p q = Some (cmp_bytes s t)"
proof (induction s t arbitrary: p q rule: cmp_bytes.induct)
  case (4 a as b bs)
  then show ?case by (subst strcmp.simps) simp
qed (subst strcmp.simps, simp)+

lemma strncmp_cmp_bytes:
  "cstr m p s \<Longrightarrow> cstr m q t \<Longrightarrow>
   strncmp m p q n = Some (cmp_bytes (take (unat n) s) (take (unat n) t))"
proof (induction s t arbitrary: p q n rule: cmp_bytes.induct)
  case (4 a as b bs)
  show ?case
  proof (cases "n = 0")
    case False
    then have "unat n = Suc (unat (n - 1))"
      by (simp add: unat_minus_one unat_gt_0)
    with 4 False show ?thesis
      by (subst strncmp.simps) (simp add: word_neq_0_conv)
  qed (subst strncmp.simps, simp)
qed (subst strncmp.simps, force simp: word_neq_0_conv [symmetric] take_Cons' unat_eq_zero)+

lemma cmp_bytes_0: "0 \<notin> set s \<Longrightarrow> 0 \<notin> set t \<Longrightarrow> cmp_bytes s t = 0 \<longleftrightarrow> s = t"
  by (induction s t rule: cmp_bytes.induct) (auto simp: uint_0_iff dest: word_uint_eq_iff [THEN iffD2])

lemma cmp_bytes_neg: "0 \<notin> set s \<Longrightarrow> 0 \<notin> set t \<Longrightarrow> cmp_bytes s t < 0 \<longleftrightarrow> ord_class.lexordp s t"
  by (induction s t rule: cmp_bytes.induct)
    (auto simp: word_less_def uint_0_iff not_less less_le
      dest: word_uint_eq_iff [THEN iffD2])

section \<open>Results: copying strings\<close>

lemma touches_disjoint_step:
  assumes dis: "\<And>a. touches src (Suc n) a \<Longrightarrow> \<not> in_region d (Suc k) a"
    and n: "Suc n \<le> 4294967296" "Suc k \<le> 4294967296"
  shows "touches (padd src 1) n a \<Longrightarrow> \<not> in_region (d + 1) k a"
  using dis [of a] touches_step [OF _ n(1)] n(2) by (auto simp: in_region_Suc)

lemma cstr_step_upd:
  assumes "cstr m p (c # s)" "\<not> touches p (Suc (Suc (length s))) d" "Suc (length s) < 4294967296"
  shows "cstr (m(d := x)) (padd p 1) s"
proof -
  have "cstr (m(d := x)) (padd p 1) s = cstr m (padd p 1) s"
    using assms(2,3) by (intro cstr_cong) (auto dest: touches_step)
  with assms(1) show ?thesis by simp
qed

lemma strcpy_loop_cstr:
  assumes "cstr m src s" "Suc (length s) < 4294967296"
    and "\<And>a. touches src (Suc (length s)) a \<Longrightarrow> \<not> in_region d (Suc (length s)) a"
  shows "strcpy_loop m (Mem d) src = Some (put_bytes m d (s @ [0]))"
  using assms
proof (induction s arbitrary: m d src)
  case Nil
  then show ?case by (subst strcpy_loop.simps) simp
next
  case (Cons c s)
  have "\<not> touches src (Suc (Suc (length s))) d"
    using Cons.prems(3) [of d] by auto
  then have "cstr (m(d := c)) (padd src 1) s"
    using Cons.prems by (intro cstr_step_upd) auto
  moreover have "\<not> in_region (d + 1) (Suc (length s)) a"
    if "touches (padd src 1) (Suc (length s)) a" for a
    using touches_disjoint_step [OF Cons.prems(3) _ _ that] Cons.prems(2) by simp
  ultimately have "strcpy_loop (m(d := c)) (Mem (d + 1)) (padd src 1) =
      Some (put_bytes (m(d := c)) (d + 1) (s @ [0]))"
    using Cons.prems(2) Cons.IH [of "m(d := c)" "padd src 1" "d + 1"]
    by (simp del: fun_upd_apply)
  with Cons.prems(1) show ?case by (subst strcpy_loop.simps) simp
qed

lemma strcpy_cstr:
  assumes "cstr m src s" "Suc (length s) < 4294967296"
    and "\<And>a. touches src (Suc (length s)) a \<Longrightarrow> \<not> in_region d (Suc (length s)) a"
  shows "strcpy m (Mem d) src = Some (Mem d, put_bytes m d (s @ [0]))"
  using strcpy_loop_cstr [OF assms] by (simp add: strcpy_def)

text \<open>
  \<^verbatim>\<open>strncpy\<close> writes exactly \<open>size\<close> bytes: the string, cut or padded with NULs.
\<close>

lemma strncpy_loop_nul:
  assumes "rdb m src = Some 0" "k < 4294967296"
    and "\<And>a. touches src 1 a \<Longrightarrow> \<not> in_region d k a"
  shows "strncpy_loop m (Mem d) src k = Some (put_bytes m d (replicate k 0))"
  using assms
proof (induction k arbitrary: m d)
  case (Suc k)
  have "rdb (m(d := 0)) src = Some 0"
    using Suc.prems rdb_upd [of src d m 0] by fastforce
  moreover have "\<not> in_region (d + 1) k a" if "touches src 1 a" for a
    using Suc.prems(2) Suc.prems(3) [OF that] by (simp add: in_region_Suc)
  ultimately have "strncpy_loop (m(d := 0)) (Mem (d + 1)) src k =
      Some (put_bytes (m(d := 0)) (d + 1) (replicate k 0))"
    using Suc.prems(2) Suc.IH [of "m(d := 0)" "d + 1"] by (simp del: fun_upd_apply)
  with Suc.prems(1) \<open>rdb (m(d := 0)) src = Some 0\<close> show ?case by simp
qed simp

lemma strncpy_loop_cstr:
  assumes "cstr m src s" "k < 4294967296" "length s < 4294967296"
    and "\<And>a. touches src (Suc (length s)) a \<Longrightarrow> \<not> in_region d k a"
  shows "strncpy_loop m (Mem d) src k = Some (put_bytes m d (take k (s @ replicate k 0)))"
  using assms
proof (induction s arbitrary: m d src k)
  case Nil
  then show ?case using strncpy_loop_nul [of m src k d] by simp
next
  case (Cons c s)
  show ?case
  proof (cases k)
    case (Suc j)
    let ?m = "m(d := c)"
    have d: "\<not> touches src (Suc (Suc (length s))) d"
      using Cons.prems(4) [of d] Suc by auto
    have c: "rdb ?m src = Some c"
      using d Cons.prems(1) by (subst rdb_upd) (auto intro: touches_mono)
    have "cstr ?m (padd src 1) s"
      using Cons.prems d by (intro cstr_step_upd) auto
    moreover have "\<not> in_region (d + 1) j a" if "touches (padd src 1) (Suc (length s)) a" for a
      using touches_disjoint_step [of src "Suc (length s)" d j a] Cons.prems that Suc by simp
    ultimately have "strncpy_loop ?m (Mem (d + 1)) (padd src 1) j =
        Some (put_bytes ?m (d + 1) (take j (s @ replicate j 0)))"
      using Cons.prems(2,3) Suc Cons.IH [of ?m "padd src 1" j "d + 1"]
      by (simp del: fun_upd_apply)
    with Suc c Cons.prems(1) show ?thesis
      by (simp add: take_Cons' replicate_append_same [symmetric])
  qed simp
qed

lemma strlcpy_loop_cstr:
  assumes "cstr m src s" "0 < sz" "length s < 4294967296"
    and "\<And>a. touches src (Suc (length s)) a \<Longrightarrow> \<not> in_region d (unat sz) a"
  shows "strlcpy_loop m (Mem d) src sz =
    (let t = take (unat sz - 1) s in Some (Mem (d + of_nat (length t)), put_bytes m d t))"
  using assms
proof (induction s arbitrary: m d src sz)
  case Nil
  then show ?case by (subst strlcpy_loop.simps) simp
next
  case (Cons c s)
  have usz: "unat sz = Suc (unat (sz - 1))" using Cons.prems(2)
    by (simp add: unat_minus_one unat_gt_0 word_neq_0_conv)
  show ?case
  proof (cases "sz - 1 = 0")
    case True
    with usz show ?thesis by (subst strlcpy_loop.simps) simp
  next
    case False
    let ?m = "m(d := c)"
    have d: "\<not> touches src (Suc (Suc (length s))) d"
      using Cons.prems(4) [of d] usz by auto
    have "cstr ?m (padd src 1) s"
      using Cons.prems d by (intro cstr_step_upd) auto
    moreover have "\<not> in_region (d + 1) (unat (sz - 1)) a"
      if "touches (padd src 1) (Suc (length s)) a" for a
      using touches_disjoint_step [of src "Suc (length s)" d "unat (sz - 1)" a] Cons.prems that usz
        unat_u32_lt [of sz] by simp
    ultimately have "strlcpy_loop ?m (Mem (d + 1)) (padd src 1) (sz - 1) =
       (let t = take (unat (sz - 1) - 1) s in Some (Mem (d + 1 + of_nat (length t)), put_bytes ?m (d + 1) t))"
      using Cons.prems(3) False [unfolded word_neq_0_conv]
        Cons.IH [of ?m "padd src 1" "sz - 1" "d + 1"] by (simp del: fun_upd_apply)
    moreover obtain j where "unat (sz - 1) = Suc j"
      using False by (metis not0_implies_Suc unat_eq_zero)
    ultimately show ?thesis using usz Cons.prems(1,2) False [unfolded word_neq_0_conv]
      by (subst strlcpy_loop.simps) (simp add: Let_def add.assoc)
  qed
qed

section \<open>Results: the memory routines\<close>

lemma rep_stosb_fill: "n \<le> 4294967296 \<Longrightarrow> rep_stosb m d c n = fill_region m d c n"
  by (induction n arbitrary: m d) (simp_all add: fill_region_Suc del: fun_upd_apply)

lemma st32_fill:
  assumes "ucast w = c" "ucast (drop_bit 8 w) = c" "ucast (drop_bit 16 w) = c"
    "ucast (drop_bit 24 w) = c"
  shows "st32 m d w = fill_region m d c 4"
  unfolding st32_def fill_region_def assms by (auto simp: fun_eq_iff in_region_4)

lemma rep_stosl_fill:
  assumes "\<And>m d. st32 m d w = fill_region m d c 4"
  shows "4 * k \<le> 4294967296 \<Longrightarrow> rep_stosl m d w k = fill_region m d c (4 * k)"
  by (induction k arbitrary: m d) (simp_all add: assms fill_region_4)

text \<open>\<^verbatim>\<open>c &= 0xFF; c = (c<<24)|(c<<16)|(c<<8)|c\<close> repeats the low byte four times.\<close>

lemma splat_bytes:
  fixes c :: u32
  defines "w \<equiv> push_bit 24 (c AND 0xFF) OR push_bit 16 (c AND 0xFF) OR push_bit 8 (c AND 0xFF) OR (c AND 0xFF)"
  shows "(ucast w :: u8) = ucast c" "(ucast (drop_bit 8 w) :: u8) = ucast c"
    "(ucast (drop_bit 16 w) :: u8) = ucast c" "(ucast (drop_bit 24 w) :: u8) = ucast c"
proof -
  have m: "c AND 0xFF = take_bit 8 c" by (simp add: take_bit_eq_mask mask_eq_exp_minus_1)
  show "(ucast w :: u8) = ucast c" "(ucast (drop_bit 8 w) :: u8) = ucast c"
    "(ucast (drop_bit 16 w) :: u8) = ucast c" "(ucast (drop_bit 24 w) :: u8) = ucast c"
    unfolding w_def m
    by (rule bit_word_eqI;
        auto simp: bit_ucast_iff bit_drop_bit_eq bit_or_iff bit_take_bit_iff bit_push_bit_iff)+
qed

lemma memset_fill: "memset m v c n = fill_region m v (ucast c) (unat n)"
proof (cases "n mod 4 = 0")
  case True
  then have n: "4 * (unat n div 4) = unat n" by (simp add: word_mod4_iff)
  have "4 * (unat n div 4) \<le> 4294967296" using n unat_u32_lt [of n] by linarith
  note l = rep_stosl_fill [OF st32_fill [OF splat_bytes] this, of m v c, unfolded n]
  have "rep_stosb m v (ucast c) (unat n) = fill_region m v (ucast c) (unat n)"
    by (intro rep_stosb_fill less_imp_le unat_u32_lt)
  then show ?thesis unfolding memset_def Let_def unat_div4 l by (cases "n = 0") auto
next
  case False
  then show ?thesis
    unfolding memset_def by (simp add: rep_stosb_fill [OF less_imp_le [OF unat_u32_lt]])
qed

lemma memset_c_fill: "unat n < 2147483648 \<Longrightarrow> memset_c m v c n = fill_region m v (ucast c) (unat n)"
proof -
  assume n: "unat n < 2147483648"
  have loop: "memset_c_loop m v x k = rep_stosb m v x k" for m v x k
    by (induction k arbitrary: m v) auto
  have "nat (sint n) = unat n" using sint_of_small [OF n] by simp
  with n show ?thesis by (simp add: memset_c_def loop rep_stosb_fill)
qed

lemma copy_up_region:
  "n \<le> 4294967296 \<Longrightarrow> safe_dir d s n \<Longrightarrow> copy_up m d s n = copy_region m d s n"
proof (induction n arbitrary: m d s)
  case (Suc n)
  have "safe_dir (d + 1) (s + 1) n" using Suc.prems(2) by (rule safe_dir_shift) simp
  with Suc show ?case by (simp add: copy_region_Suc_up del: fun_upd_apply)
qed simp

lemma copy_down_region:
  "n \<le> 4294967296 \<Longrightarrow> safe_dir s d n \<Longrightarrow>
   copy_down m (d + of_nat n) (s + of_nat n) n = copy_region m d s n"
proof (induction n arbitrary: m)
  case (Suc n)
  have "safe_dir s d n" using Suc.prems(2) by (rule safe_dir_less) simp
  with Suc show ?case by (simp add: copy_region_Suc_down del: fun_upd_apply)
qed simp

lemma rep_movsb_up: "rep_movsb False m d s n = copy_up m d s n"
  by (induction n arbitrary: m d s) (simp_all add: dstep_def)

lemma rep_movsb_down: "rep_movsb True m (d - 1) (s - 1) n = copy_down m d s n"
proof (induction n arbitrary: m d s)
  case (Suc n)
  from Suc [of "m(d - 1 := m (s - 1))" "d - 1" "s - 1"] show ?case
    by (simp add: dstep_def del: fun_upd_apply)
qed simp

lemma byte_of_ld32:
  "(ucast (ld32 m a) :: u8) = m a" "(ucast (drop_bit 8 (ld32 m a)) :: u8) = m (a + 1)"
  "(ucast (drop_bit 16 (ld32 m a)) :: u8) = m (a + 2)"
  "(ucast (drop_bit 24 (ld32 m a)) :: u8) = m (a + 3)"
  unfolding ld32_def
  by (rule bit_word_eqI;
      auto simp: bit_ucast_iff bit_drop_bit_eq bit_or_iff bit_and_iff bit_push_bit_iff
        dest: bit_imp_le_length)+

lemma movsl_region: "st32 m d (ld32 m s) = copy_region m d s 4"
  unfolding st32_def copy_region_def byte_of_ld32
  by (auto simp: fun_eq_iff in_region_4 add.commute [of s])

lemma rep_movsl_up:
  "4 * k \<le> 4294967296 \<Longrightarrow> safe_dir d s (4 * k) \<Longrightarrow>
   rep_movsl False m d s k = copy_region m d s (4 * k)"
proof (induction k arbitrary: m d s)
  case (Suc k)
  have "safe_dir (d + 4) (s + 4) (4 * k)" using Suc.prems(2) by (rule safe_dir_shift) simp
  with Suc show ?case by (simp add: movsl_region dstep_def copy_region_4_up)
qed simp

lemma rep_movsl_down:
  "4 * k \<le> 4294967296 \<Longrightarrow> safe_dir s d (4 * k) \<Longrightarrow>
   rep_movsl True m (d + of_nat (4 * k) - 4) (s + of_nat (4 * k) - 4) k = copy_region m d s (4 * k)"
proof (induction k arbitrary: m)
  case (Suc k)
  have e: "x + of_nat (4 * Suc k) - 4 = x + of_nat (4 * k)" for x :: u32 by simp
  have "safe_dir s d (4 * k)" using Suc.prems(2) by (rule safe_dir_less) simp
  with Suc copy_region_4_down [of "4 * k" s d m] show ?case
    unfolding e by (simp add: movsl_region dstep_def)
qed simp

text \<open>The overlap test of \<^verbatim>\<open>memmove\<close> picks a direction that is safe.\<close>

lemma memmove_direction:
  assumes "unat s + unat n < 4294967296" "unat d + unat n < 4294967296"
  shows "s < d \<and> s + n > d \<Longrightarrow> safe_dir s d (unat n)"
    and "\<not> (s < d \<and> s + n > d) \<Longrightarrow> safe_dir d s (unat n)"
  using assms
  by (auto simp: safe_dir_def word_unat_eq_iff unat_sub_if' word_less_nat_alt unat_plus_if'
      split: if_splits)

lemma rep_movsl_down':
  fixes n :: u32
  assumes "n mod 4 = 0" "safe_dir s d (unat n)"
  shows "rep_movsl True m (d + n - 4) (s + n - 4) (unat n div 4) = copy_region m d s (unat n)"
proof -
  obtain k where k: "unat n = 4 * k" using assms(1) unfolding word_mod4_iff by (rule dvdE)
  then have "n = of_nat (4 * k)" by (metis word_eq_of_nat_unat)
  moreover have "4 * k \<le> 4294967296" unfolding k [symmetric] by simp
  ultimately show ?thesis
    using rep_movsl_down [of k s d m] assms(2) k by simp
qed

lemma rep_movsl_up':
  fixes n :: u32
  assumes "n mod 4 = 0" "safe_dir d s (unat n)"
  shows "rep_movsl False m d s (unat n div 4) = copy_region m d s (unat n)"
proof -
  obtain k where k: "unat n = 4 * k" using assms(1) unfolding word_mod4_iff by (rule dvdE)
  moreover have "4 * k \<le> 4294967296" unfolding k [symmetric] by simp
  ultimately show ?thesis using rep_movsl_up [of k d s m] assms(2) by simp
qed

lemma memmove_region:
  assumes "unat src + unat n < 4294967296" "unat dst + unat n < 4294967296"
  shows "memmove m dst src n = copy_region m dst src (unat n)"
proof (cases "src < dst \<and> src + n > dst")
  case True
  note s = memmove_direction(1) [OF assms True]
  show ?thesis
    unfolding memmove_def Let_def if_P [OF True] rep_movsb_down unat_div4
    using rep_movsl_down' [OF _ s, of m] copy_down_region [OF _ s, of m] by simp
next
  case False
  note s = memmove_direction(2) [OF assms False]
  show ?thesis
    unfolding memmove_def Let_def if_not_P [OF False] rep_movsb_up unat_div4
    using rep_movsl_up' [OF _ s, of m] copy_up_region [OF _ s, of m] by simp
qed

lemma memmove_c_region:
  assumes "unat src + unat n < 4294967296" "unat dst + unat n < 4294967296"
  shows "memmove_c m dst src n = copy_region m dst src (unat n)"
  using memmove_direction [OF assms]
    copy_down_region [of "unat n" src dst m] copy_up_region [of "unat n" dst src m]
  by (simp add: memmove_c_def Let_def)

section \<open>Results: comparison and search of memory\<close>

primrec mbytes :: "mem \<Rightarrow> cptr \<Rightarrow> u8 list \<Rightarrow> bool" where
  "mbytes m p [] \<longleftrightarrow> True"
| "mbytes m p (c # cs) \<longleftrightarrow> rdb m p = Some c \<and> mbytes m (padd p 1) cs"

lemma memcmp_loop_order:
  assumes "mbytes m p xs" "mbytes m q ys" "length xs = length ys"
  shows "\<exists>r. memcmp_loop m p q (length xs) = Some r \<and> (r = 0 \<longleftrightarrow> xs = ys) \<and> (r < 0 \<longleftrightarrow> ord_class.lexordp xs ys)"
  using assms(3,1,2)
proof (induction xs ys arbitrary: p q rule: list_induct2)
  case (Cons x xs y ys)
  show ?case
  proof (cases "x = y")
    case True
    with Cons show ?thesis by auto
  next
    case False
    then have "uint x \<noteq> uint y" by (simp add: word_uint_eq_iff)
    moreover have "x < y \<longleftrightarrow> uint x < uint y" "y < x \<longleftrightarrow> uint y < uint x" by (simp_all add: word_less_def)
    ultimately show ?thesis using False Cons.prems by auto
  qed
qed simp

lemma memfind_loop_first:
  assumes "s \<le> e"
  shows "s \<le> memfind_loop m s e c \<and> memfind_loop m s e c \<le> e
    \<and> (\<forall>a. s \<le> a \<and> a < memfind_loop m s e c \<longrightarrow> m a \<noteq> c)
    \<and> (memfind_loop m s e c < e \<longrightarrow> m (memfind_loop m s e c) = c)"
  using assms
proof (induction m s e c rule: memfind_loop.induct)
  case (1 m s e c)
  show ?case
  proof (cases "s < e \<and> m s \<noteq> c")
    case True
    then have "unat s < unat e" by (simp add: word_less_nat_alt)
    then have "unat s + 1 < 4294967296" using unat_u32_lt [of e] by linarith
    then have u: "unat (s + 1) = unat s + 1" by (subst unat_word_ariths) simp
    have s: "s + 1 \<le> e" and lt: "s < s + 1"
      using \<open>unat s < unat e\<close> u by (simp_all add: word_le_nat_alt word_less_nat_alt)
    have ih: "s + 1 \<le> memfind_loop m (s + 1) e c \<and> memfind_loop m (s + 1) e c \<le> e
        \<and> (\<forall>a. s + 1 \<le> a \<and> a < memfind_loop m (s + 1) e c \<longrightarrow> m a \<noteq> c)
        \<and> (memfind_loop m (s + 1) e c < e \<longrightarrow> m (memfind_loop m (s + 1) e c) = c)"
      using 1 True s by simp
    have "m a \<noteq> c" if "s \<le> a" "a < memfind_loop m (s + 1) e c" for a
    proof (cases "a = s")
      case False
      with that(1) u have "s + 1 \<le> a" by (simp add: word_le_nat_alt word_unat_eq_iff)
      with that ih show ?thesis by blast
    qed (use True in simp)
    moreover have "memfind_loop m s e c = memfind_loop m (s + 1) e c"
      using True by (subst memfind_loop.simps) simp
    moreover have "s \<le> memfind_loop m (s + 1) e c" using less_imp_le [OF lt] ih order.trans by blast
    ultimately show ?thesis using ih by simp
  next
    case False
    then have "memfind_loop m s e c = s" by (subst memfind_loop.simps) auto
    with False 1(2) show ?thesis by auto
  qed
qed

section \<open>Results: numbers\<close>

lemma gobble_blanks_run:
  assumes "cstr m p (bl @ s)" "set bl \<subseteq> {32, 9}" "s = [] \<or> hd s \<notin> {32, 9}"
  shows "gobble_blanks m p = Some (padd p (int (length bl)))"
  using assms(1,2)
proof (induction bl arbitrary: p)
  case Nil
  with assms(3) show ?case by (subst gobble_blanks.simps) (cases s; auto)
next
  case (Cons c bl)
  then show ?case by (subst gobble_blanks.simps) (auto simp: add.commute)
qed

definition digit_of :: "int \<Rightarrow> u8 \<Rightarrow> bool" where
  "digit_of base c \<longleftrightarrow> (case digit_value c of None \<Rightarrow> False | Some d \<Rightarrow> d < base)"

definition number :: "int \<Rightarrow> u8 list \<Rightarrow> int" where
  "number base cs = foldl (\<lambda>v c. v * base + the (digit_value c)) 0 cs"

lemma wrap32_step: "wrap32 (wrap32 v * b + d) = wrap32 (v * b + d)"
  unfolding wrap32_def
  using signed_take_bit_add [of 31 "signed_take_bit 31 v * b" d] signed_take_bit_add [of 31 "v * b" d]
    signed_take_bit_mult [of 31 "signed_take_bit 31 v" b] signed_take_bit_mult [of 31 v b]
  by simp

lemma strtol_digits_run:
  assumes "cstr m p (cs @ s)" "\<And>c. c \<in> set cs \<Longrightarrow> digit_of base c" "s = [] \<or> \<not> digit_of base (hd s)"
  shows "strtol_digits m p base (wrap32 v) =
    Some (padd p (int (length cs)), wrap32 (foldl (\<lambda>v c. v * base + the (digit_value c)) v cs))"
  using assms
proof (induction cs arbitrary: p v)
  case Nil
  show ?case
  proof (cases s)
    case Nil
    then show ?thesis using \<open>cstr m p ([] @ s)\<close>
      by (subst strtol_digits.simps) (simp add: digit_value_def)
  next
    case (Cons c t)
    then show ?thesis using Nil.prems
      by (subst strtol_digits.simps) (auto simp: digit_of_def split: option.splits)
  qed
next
  case (Cons c cs)
  have "digit_of base c" using Cons.prems(2) by simp
  then obtain d where d: "digit_value c = Some d" "d < base"
    by (auto simp: digit_of_def split: option.splits)
  have "strtol_digits m (padd p 1) base (wrap32 (v * base + d)) =
      Some (padd (padd p 1) (int (length cs)), wrap32 (foldl (\<lambda>v c. v * base + the (digit_value c)) (v * base + d) cs))"
    using Cons.prems by (intro Cons.IH) auto
  then show ?case using Cons.prems(1) d
    by (subst strtol_digits.simps) (simp add: wrap32_step add.commute [of "int 1"])
qed

lemma digit_of_10: "digit_of 10 c \<longleftrightarrow> 48 \<le> c \<and> c \<le> 57"
proof -
  have u: "c \<le> d \<longleftrightarrow> uint c \<le> uint d" for c d :: u8 by (simp add: word_le_def)
  show ?thesis by (auto simp: digit_of_def digit_value_def u split: if_splits)
qed

lemma digit_no_blank: "digit_of base c \<Longrightarrow> c \<notin> {32, 9, 43, 45}"
  by (auto simp: digit_of_def digit_value_def)

text \<open>
  The base that is used, and the characters of the number that only select it: \<^verbatim>\<open>0x\<close> where
  the base is 16 or open, a leading \<^verbatim>\<open>0\<close> where it is open. \<open>t\<close> is what follows.
\<close>

definition base_prefix :: "int \<Rightarrow> u8 list \<Rightarrow> int \<Rightarrow> u8 list \<Rightarrow> bool" where
  "base_prefix base px b t \<longleftrightarrow>
     px = [48, 120] \<and> b = 16 \<and> base \<in> {0, 16} \<or>
     px = [48] \<and> b = 8 \<and> base = 0 \<and> take 1 t \<noteq> [120] \<or>
     px = [] \<and> b = 10 \<and> base = 0 \<and> take 1 t \<noteq> [48] \<or>
     px = [] \<and> b = base \<and> base \<noteq> 0 \<and> \<not> (base = 16 \<and> take 2 t = [48, 120])"

lemma strtol_prefix_run:
  assumes "cstr m p (px @ t)" "base_prefix base px b t"
  shows "strtol_prefix m p base = Some (padd p (int (length px)), b)"
proof -
  consider "px = [48, 120]" "b = 16" "base \<in> {0, 16}" | "px = [48]" "b = 8" "base = 0" "take 1 t \<noteq> [120]"
    | "px = []" "b = 10" "base = 0" "take 1 t \<noteq> [48]" | "px = []" "b = base" "base \<noteq> 0" "\<not> (base = 16 \<and> take 2 t = [48, 120])"
    using assms(2) unfolding base_prefix_def by blast
  then show ?thesis
  proof cases
    case 1
    then show ?thesis using assms(1) by (auto simp: strtol_prefix_def)
  next
    case 2
    then show ?thesis using assms(1) by (cases t) (auto simp: strtol_prefix_def)
  next
    case 3
    then show ?thesis using assms(1) by (cases t) (auto simp: strtol_prefix_def)
  next
    case 4
    show ?thesis
    proof (cases "base = 16 \<and> take 1 t = [48]")
      case True
      then obtain t' where "t = 48 # t'" "take 1 t' \<noteq> [120]" using 4(4) by (cases t) auto
      then show ?thesis using assms(1) 4 True by (cases t') (auto simp: strtol_prefix_def)
    next
      case False
      then show ?thesis using assms(1) 4 by (cases t) (auto simp: strtol_prefix_def)
    qed
  qed
qed

lemma strtol_number:
  assumes "cstr m p (bl @ sg @ px @ cs @ s)" "set bl \<subseteq> {32, 9}" "sg \<in> {[], [43], [45]}"
    and "base_prefix base px b (cs @ s)" "px @ cs \<noteq> []"
    and "\<And>c. c \<in> set cs \<Longrightarrow> digit_of b c" "s = [] \<or> \<not> digit_of b (hd s)"
  shows "strtol m p base = Some (wrap32 (if sg = [45] then - number b cs else number b cs), padd p (int (length (bl @ sg @ px @ cs))))"
proof -
  let ?t = "sg @ px @ cs @ s"
  have lead: "hd (px @ cs) \<notin> {32, 9, 43, 45}"
    using assms(4-6) digit_no_blank [of b "hd cs"] by (cases px; cases cs) (auto simp: base_prefix_def)
  have "hd ?t \<notin> {32, 9}" using assms(3,5) lead by (cases px; cases cs) auto
  then have g: "gobble_blanks m p = Some (padd p (int (length bl)))" by (intro gobble_blanks_run [OF assms(1,2)]) simp
  have t: "cstr m (padd p (int (length bl))) ?t" using cstr_drop [OF assms(1)] by simp
  define q where "q = padd p (int (length bl) + int (length sg))"
  have q: "cstr m q (px @ cs @ s)" using cstr_drop [OF t] by (simp add: q_def)
  have c: "\<exists>c. rdb m (padd p (int (length bl))) = Some c \<and> (c = 43 \<longleftrightarrow> sg = [43]) \<and> (c = 45 \<longleftrightarrow> sg = [45])"
    using t assms(3,5) lead by (cases px; cases cs) auto
  have px: "strtol_prefix m q base = Some (padd q (int (length px)), b)" by (rule strtol_prefix_run [OF q assms(4)])
  have "strtol_digits m (padd q (int (length px))) b 0 = Some (padd (padd q (int (length px))) (int (length cs)), wrap32 (number b cs))"
    using strtol_digits_run [OF cstr_drop [OF q] assms(6,7), of 0] by (simp add: number_def wrap32_id)
  moreover have "wrap32 (- wrap32 v) = wrap32 (- v)" for v by (simp add: wrap32_def signed_take_bit_minus)
  ultimately have d: "strtol_digits m (padd q (int (length px))) b 0 = Some (padd (padd q (int (length px))) (int (length cs)), wrap32 (number b cs))"
    and neg: "wrap32 (- wrap32 v) = wrap32 (- v)" for v by blast+
  obtain k where k: "rdb m (padd p (int (length bl))) = Some k" "k = 43 \<longleftrightarrow> sg = [43]" "k = 45 \<longleftrightarrow> sg = [45]" using c by blast
  have e: "padd (padd q (int (length px))) (int (length cs)) = padd p (int (length (bl @ sg @ px @ cs)))"
    by (simp add: q_def add.assoc)
  have sign: "(if k = 43 then (padd (padd p (int (length bl))) 1, False) else if k = 45 then (padd (padd p (int (length bl))) 1, True)
      else (padd p (int (length bl)), False)) = (q, sg = [45])"
    using assms(3) k(2,3) by (elim insertE) (simp_all add: q_def)
  show ?thesis
    by (simp only: strtol_def g k(1) Option.bind.simps bind.bind_lunit Let_def sign prod.case px d e if_distrib [of wrap32] neg)
qed

lemma strtol_decimal:
  assumes "cstr m p ((if neg then [45] else []) @ cs @ s)" "cs \<noteq> []"
    and "\<And>c. c \<in> set cs \<Longrightarrow> digit_of 10 c" "s = [] \<or> \<not> digit_of 10 (hd s)"
  shows "strtol m p 10 = Some (wrap32 (if neg then - number 10 cs else number 10 cs),
    padd p (int ((if neg then 1 else 0) + length cs)))"
proof -
  have "base_prefix 10 [] 10 (cs @ s)" by (simp add: base_prefix_def)
  then show ?thesis
    using strtol_number [of m p "[]" "if neg then [45] else []" "[]" cs s 10 10] assms by auto
qed

section \<open>Properties\<close>

text \<open>
  (C10) \<^verbatim>\<open>memmove\<close>, in the assembly version with its word copies and its direction flag,
  leaves in the destination what the source held before, byte for byte, also when the two
  regions overlap, and changes nothing else; the portable version does the same.
\<close>

theorem memmove_correct:
  assumes "unat src + unat n < 4294967296" "unat dst + unat n < 4294967296"
  shows "memmove m dst src n = copy_region m dst src (unat n) \<and> memmove_c m dst src n = memmove m dst src n"
  using memmove_region [OF assms] memmove_c_region [OF assms] by simp

theorem memmove_correct_witness:
  "memmove (\<lambda>a. ucast a) 0x1001 0x1000 6 = copy_region (\<lambda>a. ucast a) 0x1001 0x1000 6
   \<and> memmove_c (\<lambda>a. ucast a) 0x1001 0x1000 6 = memmove (\<lambda>a. ucast a) 0x1001 0x1000 6
   \<and> memmove (\<lambda>a. ucast a) 0x1001 0x1000 6 0x1006 = 5"
  using memmove_correct [of "0x1000" 6 "0x1001" "\<lambda>a. ucast a"] by (simp add: copy_region_def in_region_def)

text \<open>
  (C21) \<^verbatim>\<open>memset\<close> fills exactly its region with the low byte of its argument, whether or not
  the size allows word stores, and the portable version agrees for every size below 2 GB.
\<close>

theorem memset_correct:
  assumes "unat n < 2147483648"
  shows "memset m v c n = fill_region m v (ucast c) (unat n) \<and> memset_c m v c n = memset m v c n"
  using memset_fill memset_c_fill [OF assms] by simp

theorem memset_correct_witness:
  "memset (\<lambda>_. 0) 0x1000 0xAB 8 = fill_region (\<lambda>_. 0) 0x1000 0xAB 8
   \<and> memset_c (\<lambda>_. 0) 0x1000 0xAB 8 = memset (\<lambda>_. 0) 0x1000 0xAB 8
   \<and> memset (\<lambda>_. 0) 0x1000 0xAB 8 0x1007 = 0xAB"
  using memset_correct [of 8 "\<lambda>_. 0" "0x1000" "0xAB"] by (simp add: fill_region_def in_region_def)

text \<open>
  (C20) On two C strings \<^verbatim>\<open>strcmp\<close> returns; the result is 0 exactly for equal strings and
  negative exactly when the first comes first in the dictionary order of unsigned bytes.
\<close>

theorem strcmp_order:
  assumes "cstr m p s" "cstr m q t"
  shows "\<exists>r. strcmp m p q = Some r \<and> (r = 0 \<longleftrightarrow> s = t) \<and> (r < 0 \<longleftrightarrow> ord_class.lexordp s t)"
  using strcmp_cmp_bytes [OF assms] cmp_bytes_0 cmp_bytes_neg cstr_nonzero [OF assms(1)] cstr_nonzero [OF assms(2)]
  by simp

theorem strcmp_order_witness:
  "\<exists>r. strcmp (\<lambda>_. 0) (Lit ''help'' 0) (Lit ''kerninfo'' 0) = Some r \<and> r < 0"
proof -
  have "cstr (\<lambda>_. 0) (Lit ''help'' 0) (bytes ''help'')" "cstr (\<lambda>_. 0) (Lit ''kerninfo'' 0) (bytes ''kerninfo'')"
    by (rule cstr_Lit, simp)+
  from strcmp_order [OF this] show ?thesis by (auto simp: bytes_def)
qed

text \<open>
  \<^verbatim>\<open>strcpy\<close> to a region that the source string does not touch returns the destination,
  where the same string then stands, and changes no byte outside the string and its NUL.
\<close>

theorem strcpy_copies:
  assumes "cstr m src s" "Suc (length s) < 4294967296"
    and "\<And>a. touches src (Suc (length s)) a \<Longrightarrow> \<not> in_region d (Suc (length s)) a"
  shows "\<exists>m'. strcpy m (Mem d) src = Some (Mem d, m') \<and> cstr m' (Mem d) s
    \<and> (\<forall>a. \<not> in_region d (Suc (length s)) a \<longrightarrow> m' a = m a)"
  using strcpy_cstr [OF assms] cstr_put_bytes [OF cstr_nonzero [OF assms(1)]] assms(2)
    put_bytes_outside [of "s @ [0]" d _ m] by auto

theorem strcpy_copies_witness:
  "\<exists>m'. strcpy (\<lambda>_. 7) (Mem 0x1000) (Lit ''ok'' 0) = Some (Mem 0x1000, m') \<and> cstr m' (Mem 0x1000) [111, 107]
    \<and> (\<forall>a. \<not> in_region 0x1000 3 a \<longrightarrow> m' a = 7)"
proof -
  have "cstr (\<lambda>_. 7) (Lit ''ok'' 0) (bytes ''ok'')" by (rule cstr_Lit) simp
  from strcpy_copies [OF this, of "0x1000"] show ?thesis by (simp add: bytes_def numeral_3_eq_3)
qed

text \<open>
  (C22) \<^verbatim>\<open>strlcpy\<close> with a size greater than 0 copies as much of the source as fits, always
  terminates the destination, writes nothing beyond the size, and returns the number of
  characters it copied.
\<close>

theorem strlcpy_truncates:
  assumes "cstr m src s" "0 < sz" "unat sz < 2147483648" "length s < 4294967296"
    and "\<And>a. touches src (Suc (length s)) a \<Longrightarrow> \<not> in_region d (unat sz) a"
  shows "strlcpy m (Mem d) src sz =
    Some (int (min (length s) (unat sz - 1)), put_bytes m d (take (unat sz - 1) s @ [0]))"
proof -
  let ?t = "take (unat sz - 1) s"
  have "length ?t < 2147483648" using assms(3) by simp
  then have "sint (of_nat (length ?t) :: u32) = int (length ?t)"
    by (subst sint_of_small) (simp_all add: unat_of_nat)
  then show ?thesis
    using strlcpy_loop_cstr [OF assms(1,2,4,5)] assms(2)
    by (simp add: strlcpy_def Let_def put_bytes_append del: length_take) simp
qed

theorem strlcpy_truncates_witness:
  "strlcpy (\<lambda>_. 7) (Mem 0x1000) (Lit ''kernel'' 0) 4 = Some (3, put_bytes (\<lambda>_. 7) 0x1000 [107, 101, 114, 0])"
proof -
  have "cstr (\<lambda>_. 7) (Lit ''kernel'' 0) (bytes ''kernel'')" by (rule cstr_Lit) simp
  from strlcpy_truncates [OF this, of 4 "0x1000"] show ?thesis by (simp add: bytes_def)
qed

text \<open>
  \<^verbatim>\<open>memcmp\<close> on two arrays is 0 exactly when they are equal and negative exactly when
  the first is smaller in the dictionary order.
\<close>

theorem memcmp_order:
  assumes "mbytes m p xs" "mbytes m q ys" "length xs = unat n" "length ys = unat n"
  shows "\<exists>r. memcmp m p q n = Some r \<and> (r = 0 \<longleftrightarrow> xs = ys) \<and> (r < 0 \<longleftrightarrow> ord_class.lexordp xs ys)"
  using memcmp_loop_order [OF assms(1,2)] assms(3,4) by (simp add: memcmp_def)

theorem memcmp_order_witness:
  "\<exists>r. memcmp (\<lambda>a. ucast a) (Mem 5) (Mem 6) 3 = Some r \<and> r < 0"
  using memcmp_order [of "\<lambda>a. ucast a" "Mem 5" "[5, 6, 7]" "Mem 6" "[6, 7, 8]" 3] by auto

text \<open>
  \<^verbatim>\<open>memfind\<close> returns the first address of the region that holds the byte, and the
  end of the region when none does.
\<close>

theorem memfind_first:
  assumes "unat s + unat n < 4294967296"
  shows "let r = memfind m s c n in s \<le> r \<and> r \<le> s + n \<and> (\<forall>a. s \<le> a \<and> a < r \<longrightarrow> m a \<noteq> ucast c)
    \<and> (r < s + n \<longrightarrow> m r = ucast c)"
proof -
  have "s \<le> s + n" using assms by (simp add: word_le_nat_alt unat_word_ariths)
  then show ?thesis unfolding memfind_def Let_def by (rule memfind_loop_first)
qed

theorem memfind_first_witness:
  "memfind (\<lambda>a. ucast a) 0x10 0x12 8 \<le> 0x18 \<and> memfind (\<lambda>a. ucast a) 0x10 0x12 8 = 0x12"
proof -
  have "memfind (\<lambda>a. ucast a) 0x10 0x12 8 \<le> 0x18"
    using memfind_first [of "0x10" 8 "\<lambda>a. ucast a" "0x12"] by (simp add: Let_def)
  moreover have "memfind (\<lambda>a. ucast a) 0x10 0x12 8 = 0x12" by (simp add: memfind_def memfind_loop.simps)
  ultimately show ?thesis by simp
qed



end
