(* ===== verification/JosPrintfmt.thy ===== *)
theory JosPrintfmt
  imports JosString
begin

text \<open>
  The formatted output of \<^verbatim>\<open>lib/printfmt.c\<close>. The caller's \<^verbatim>\<open>putch\<close> and its data are a
  function on a state of any type \<open>'s\<close>, and \<open>memof\<close> reads the memory out of that state,
  so that a \<^verbatim>\<open>putch\<close> that writes to memory (\<^verbatim>\<open>sprintputch\<close>, the console's screen) is seen by
  the reads of the format and of the \<^verbatim>\<open>%s\<close> arguments. The variable arguments are the 32-bit
  stack slots of the i386 calling convention; a \<^verbatim>\<open>long long\<close> takes two of them. The result
  \<open>None\<close> stands for undefined behaviour (a missing argument, the numeric value of a pointer
  to a literal) and for a loop that does not return.

  The theory then gives the abstract meaning of a format string, \<open>render\<close>, as a parser and
  printer on lists, and proves in the locale \<open>printer\<close>, for every \<^verbatim>\<open>putch\<close> that leaves the
  strings it prints alone, that \<^verbatim>\<open>vprintfmt\<close> sends exactly the rendered characters to it.
\<close>

section \<open>Variable arguments\<close>

datatype slot = Word u32 | Ptr cptr

fun to_ptr :: "slot \<Rightarrow> cptr" where
  "to_ptr (Word a) = Mem a"
| "to_ptr (Ptr p) = p"

fun va_int :: "slot list \<Rightarrow> (u32 \<times> slot list) option" where
  "va_int [] = None"
| "va_int (x # ap) = (case to_ptr x of Mem w \<Rightarrow> Some (w, ap) | Lit l i \<Rightarrow> None)"

fun va_ptr :: "slot list \<Rightarrow> (cptr \<times> slot list) option" where
  "va_ptr [] = None"
| "va_ptr (x # ap) = Some (to_ptr x, ap)"

definition va_longlong :: "slot list \<Rightarrow> (u64 \<times> slot list) option" where
  "va_longlong ap =
     do { (lo, ap) \<leftarrow> va_int ap;
          (hi, ap) \<leftarrow> va_int ap;
          Some (ucast lo OR push_bit 32 (ucast hi), ap) }"

text \<open>\<^verbatim>\<open>long\<close> and \<^verbatim>\<open>int\<close> both have 32 bits, so the two lower branches read the same slot.\<close>

definition getuint :: "slot list \<Rightarrow> int \<Rightarrow> (u64 \<times> slot list) option" where
  "getuint ap lflag =
     (if lflag \<ge> 2 then va_longlong ap
      else if lflag \<noteq> 0 then do { (w, ap) \<leftarrow> va_int ap; Some (ucast w, ap) }
      else do { (w, ap) \<leftarrow> va_int ap; Some (ucast w, ap) })"

definition getint :: "slot list \<Rightarrow> int \<Rightarrow> (u64 \<times> slot list) option" where
  "getint ap lflag =
     (if lflag \<ge> 2 then va_longlong ap
      else if lflag \<noteq> 0 then do { (w, ap) \<leftarrow> va_int ap; Some (scast w, ap) }
      else do { (w, ap) \<leftarrow> va_int ap; Some (scast w, ap) })"

section \<open>Numbers\<close>

text \<open>A counted run of the same character: the loops \<^verbatim>\<open>for (; width > 0; width--) putch(c)\<close>.\<close>

primrec put_many :: "(u32 \<Rightarrow> 's \<Rightarrow> 's) \<Rightarrow> u32 \<Rightarrow> nat \<Rightarrow> 's \<Rightarrow> 's" where
  "put_many putch c 0 s = s"
| "put_many putch c (Suc n) s = put_many putch c n (putch c s)"

definition hex_digit :: "u64 \<Rightarrow> u32 option" where
  "hex_digit k = map_option ucast (rdb (\<lambda>_. 0) (Lit ''0123456789abcdef'' (uint k)))"

partial_function (option) printnum ::
  "(u32 \<Rightarrow> 's \<Rightarrow> 's) \<Rightarrow> u64 \<Rightarrow> u32 \<Rightarrow> int \<Rightarrow> u32 \<Rightarrow> 's \<Rightarrow> 's option" where
  "printnum putch num base width padc s =
     do { s \<leftarrow> (if num \<ge> ucast base then
                 if base = 0 then None
                 else printnum putch (num div ucast base) base (wrap32 (width - 1)) padc s
               else Some (put_many putch padc (nat (wrap32 (width - 1))) s));
          d \<leftarrow> hex_digit (num mod ucast base);
          Some (putch d s) }"

section \<open>The format interpreter\<close>

definition E_INVAL :: int where "E_INVAL = 3"
definition MAXERROR :: int where "MAXERROR = 8"

text \<open>The entries of \<^verbatim>\<open>error_string\<close>; the others of its \<^verbatim>\<open>MAXERROR\<close> elements are NULL.\<close>

definition error_string :: "int \<Rightarrow> string option" where
  "error_string err =
     (if err = 1 then Some ''unspecified error''
      else if err = 2 then Some ''bad environment''
      else if err = 3 then Some ''invalid parameter''
      else if err = 4 then Some ''out of memory''
      else if err = 5 then Some ''out of environments''
      else if err = 6 then Some ''segmentation fault''
      else None)"

record fmt_flags =
  padc :: u32
  width :: int
  precision :: int
  lflag :: int
  altflag :: bool

definition init_flags :: fmt_flags where
  "init_flags = \<lparr>padc = 32, width = -1, precision = -1, lflag = 0, altflag = False\<rparr>"

definition process_precision :: "fmt_flags \<Rightarrow> int \<Rightarrow> fmt_flags" where
  "process_precision fl prec =
     (if width fl < 0 then fl\<lparr>width := prec, precision := -1\<rparr> else fl\<lparr>precision := prec\<rparr>)"

definition is_digit :: "u8 \<Rightarrow> bool" where
  "is_digit c \<longleftrightarrow> 48 \<le> c \<and> c \<le> 57"

text \<open>The loop of the width field; \<open>fmt\<close> is already past the digit \<open>ch\<close>.\<close>

partial_function (option) width_field :: "mem \<Rightarrow> int \<Rightarrow> u8 \<Rightarrow> cptr \<Rightarrow> (int \<times> cptr) option" where
  "width_field m prec ch fmt =
     do { let prec' = wrap32 (prec * 10 + uint ch - 48);
          ch' \<leftarrow> rdb m fmt;
          if \<not> is_digit ch' then Some (prec', fmt)
          else width_field m prec' ch' (padd fmt 1) }"

text \<open>The character loop of \<^verbatim>\<open>%s\<close>: \<^verbatim>\<open>ch = *p++\<close> sign-extends the \<^verbatim>\<open>char\<close>.\<close>

partial_function (option) put_chars ::
  "(u32 \<Rightarrow> 's \<Rightarrow> 's) \<Rightarrow> ('s \<Rightarrow> mem) \<Rightarrow> cptr \<Rightarrow> int \<Rightarrow> int \<Rightarrow> bool \<Rightarrow> 's \<Rightarrow> (int \<times> 's) option" where
  "put_chars putch memof p prec wid alt s =
     do { c \<leftarrow> rdb (memof s) p;
          let ch = (scast c :: u32);
          if ch \<noteq> 0 \<and> (prec < 0 \<or> prec - 1 \<ge> 0) then
            put_chars putch memof (padd p 1) (if prec < 0 then prec else prec - 1)
              (wrap32 (wid - 1)) alt
              (putch (if alt \<and> (sint ch < 32 \<or> sint ch > 126) then 63 else ch) s)
          else Some (wid, s) }"

definition put_string ::
  "(u32 \<Rightarrow> 's \<Rightarrow> 's) \<Rightarrow> ('s \<Rightarrow> mem) \<Rightarrow> fmt_flags \<Rightarrow> cptr \<Rightarrow> 's \<Rightarrow> 's option" where
  "put_string putch memof fl p0 s =
     (let p = (if p0 = NULL then Lit ''(null)'' 0 else p0) in
      do { (wid, s) \<leftarrow>
             (if width fl > 0 \<and> padc fl \<noteq> 45 then
                do { n \<leftarrow> strnlen (memof s) p (of_int (precision fl));
                     let w = wrap32 (width fl - sint n);
                     Some (if w > 0 then 0 else w, put_many putch (padc fl) (nat w) s) }
              else Some (width fl, s));
           (wid, s) \<leftarrow> put_chars putch memof p (precision fl) wid (altflag fl) s;
           Some (put_many putch 32 (nat wid) s) })"

text \<open>\<^verbatim>\<open>for (fmt--; fmt[-1] != '%'; fmt--)\<close>, without the first decrement.\<close>

partial_function (option) rewind_fmt :: "mem \<Rightarrow> cptr \<Rightarrow> cptr option" where
  "rewind_fmt m fmt =
     do { c \<leftarrow> rdb m (padd fmt (-1));
          if c \<noteq> 37 then rewind_fmt m (padd fmt (-1)) else Some fmt }"

text \<open>
  One pass through the \<^verbatim>\<open>switch\<close> on the character \<open>ch\<close> of an escape sequence, with \<open>fmt\<close>
  already past it. It ends by going back to \<^verbatim>\<open>reswitch\<close> with new local variables, by leaving
  the switch (\<^verbatim>\<open>break\<close>), or, for \<^verbatim>\<open>%e\<close>, by leaving it after a call of \<^verbatim>\<open>printfmt\<close> with a
  format and an argument list.
\<close>

datatype 's fmt_next =
    Reswitch fmt_flags cptr "slot list"
  | Break cptr "slot list" 's
  | Printfmt cptr "slot list" cptr "slot list"

definition err_switch :: "u32 \<Rightarrow> (cptr \<times> slot list) option" where
  "err_switch w =
     (let err = (if sint w < 0 then wrap32 (- sint w) else sint w) in
      if err \<ge> MAXERROR then Some (Lit ''error %d'' 0, [Word (of_int err)])
      else if err < 0 then None
      else case error_string err of
          None \<Rightarrow> Some (Lit ''error %d'' 0, [Word (of_int err)])
        | Some l \<Rightarrow> Some (Lit ''%s'' 0, [Ptr (Lit l 0)]))"

definition fmt_switch ::
  "(u32 \<Rightarrow> 's \<Rightarrow> 's) \<Rightarrow> ('s \<Rightarrow> mem) \<Rightarrow> fmt_flags \<Rightarrow> u8 \<Rightarrow> cptr \<Rightarrow> slot list \<Rightarrow> 's
     \<Rightarrow> 's fmt_next option" where
  "fmt_switch putch memof fl ch fmt ap s =
     (if ch = 45 then Some (Reswitch (fl\<lparr>padc := 45\<rparr>) fmt ap)
      else if ch = 48 then Some (Reswitch (fl\<lparr>padc := 48\<rparr>) fmt ap)
      else if is_digit ch then
        do { (prec, fmt) \<leftarrow> width_field (memof s) 0 ch fmt;
             Some (Reswitch (process_precision fl prec) fmt ap) }
      else if ch = 42 then
        do { (w, ap) \<leftarrow> va_int ap;
             Some (Reswitch (process_precision fl (sint w)) fmt ap) }
      else if ch = 46 then
        Some (Reswitch (if width fl < 0 then fl\<lparr>width := 0\<rparr> else fl) fmt ap)
      else if ch = 35 then Some (Reswitch (fl\<lparr>altflag := True\<rparr>) fmt ap)
      else if ch = 108 then Some (Reswitch (fl\<lparr>lflag := wrap32 (lflag fl + 1)\<rparr>) fmt ap)
      else if ch = 99 then
        do { (w, ap) \<leftarrow> va_int ap; Some (Break fmt ap (putch w s)) }
      else if ch = 101 then
        do { (w, ap) \<leftarrow> va_int ap;
             (f, args) \<leftarrow> err_switch w;
             Some (Printfmt f args fmt ap) }
      else if ch = 115 then
        do { (p, ap) \<leftarrow> va_ptr ap;
             s \<leftarrow> put_string putch memof fl p s;
             Some (Break fmt ap s) }
      else if ch = 100 then
        do { (num, ap) \<leftarrow> getint ap (lflag fl);
             let s = (if sint num < 0 then putch 45 s else s);
             let num = (if sint num < 0 then - num else num);
             s \<leftarrow> printnum putch num 10 (width fl) (padc fl) s;
             Some (Break fmt ap s) }
      else if ch = 117 then
        do { (num, ap) \<leftarrow> getuint ap (lflag fl);
             s \<leftarrow> printnum putch num 10 (width fl) (padc fl) s;
             Some (Break fmt ap s) }
      else if ch = 111 then
        do { (num, ap) \<leftarrow> getuint ap (lflag fl);
             s \<leftarrow> printnum putch num 8 (width fl) (padc fl) s;
             Some (Break fmt ap s) }
      else if ch = 112 then
        do { let s = putch 120 (putch 48 s);
             (w, ap) \<leftarrow> va_int ap;
             s \<leftarrow> printnum putch (ucast w) 16 (width fl) (padc fl) s;
             Some (Break fmt ap s) }
      else if ch = 120 then
        do { (num, ap) \<leftarrow> getuint ap (lflag fl);
             s \<leftarrow> printnum putch num 16 (width fl) (padc fl) s;
             Some (Break fmt ap s) }
      else if ch = 37 then Some (Break fmt ap (putch 37 s))
      else
        do { let s = putch 37 s;
             fmt \<leftarrow> rewind_fmt (memof s) (padd fmt (-1));
             Some (Break fmt ap s) })"

text \<open>
  The loop of \<^verbatim>\<open>vprintfmt\<close>. The mode \<open>None\<close> is the loop that copies text up to the next
  \<^verbatim>\<open>%\<close>, the mode \<open>Some fl\<close> the label \<^verbatim>\<open>reswitch\<close> with the local variables \<open>fl\<close>. The
  caller's \<^verbatim>\<open>putch\<close> and the memory it works on are passed along in a record.
\<close>

record 's out_dev =
  out_putch :: "u32 \<Rightarrow> 's \<Rightarrow> 's"
  out_mem :: "'s \<Rightarrow> mem"

partial_function (option) vprintfmt_loop ::
  "'s out_dev \<Rightarrow> fmt_flags option \<Rightarrow> cptr \<Rightarrow> slot list \<Rightarrow> 's \<Rightarrow> 's option" where
  "vprintfmt_loop pr mode fmt ap s =
     do { ch \<leftarrow> rdb (out_mem pr s) fmt;
          case mode of
            None \<Rightarrow>
              if ch = 37 then vprintfmt_loop pr (Some init_flags) (padd fmt 1) ap s
              else if ch = 0 then Some s
              else vprintfmt_loop pr None (padd fmt 1) ap (out_putch pr (ucast ch) s)
          | Some fl \<Rightarrow>
              do { r \<leftarrow> fmt_switch (out_putch pr) (out_mem pr) fl ch (padd fmt 1) ap s;
                   case r of
                     Reswitch fl' fmt' ap' \<Rightarrow> vprintfmt_loop pr (Some fl') fmt' ap' s
                   | Break fmt' ap' s' \<Rightarrow> vprintfmt_loop pr None fmt' ap' s'
                   | Printfmt f args fmt' ap' \<Rightarrow>
                       do { s' \<leftarrow> vprintfmt_loop pr None f args s;
                            vprintfmt_loop pr None fmt' ap' s' } } }"

definition vprintfmt ::
  "(u32 \<Rightarrow> 's \<Rightarrow> 's) \<Rightarrow> ('s \<Rightarrow> mem) \<Rightarrow> cptr \<Rightarrow> slot list \<Rightarrow> 's \<Rightarrow> 's option" where
  "vprintfmt putch memof fmt ap s =
     vprintfmt_loop \<lparr>out_putch = putch, out_mem = memof\<rparr> None fmt ap s"

definition printfmt ::
  "(u32 \<Rightarrow> 's \<Rightarrow> 's) \<Rightarrow> ('s \<Rightarrow> mem) \<Rightarrow> cptr \<Rightarrow> slot list \<Rightarrow> 's \<Rightarrow> 's option" where
  "printfmt putch memof fmt ap s = vprintfmt putch memof fmt ap s"

section \<open>Printing into a buffer\<close>

record sprintbuf =
  sp_mem :: mem
  sp_buf :: u32
  sp_ebuf :: u32
  sp_cnt :: int

definition sprintputch :: "u32 \<Rightarrow> sprintbuf \<Rightarrow> sprintbuf" where
  "sprintputch ch b =
     (let b = b\<lparr>sp_cnt := wrap32 (sp_cnt b + 1)\<rparr> in
      if sp_buf b < sp_ebuf b
      then b\<lparr>sp_mem := (sp_mem b)(sp_buf b := ucast ch), sp_buf := sp_buf b + 1\<rparr>
      else b)"

definition vsnprintf :: "mem \<Rightarrow> u32 \<Rightarrow> int \<Rightarrow> cptr \<Rightarrow> slot list \<Rightarrow> (int \<times> mem) option" where
  "vsnprintf m buf n fmt ap =
     (let b = \<lparr>sp_mem = m, sp_buf = buf, sp_ebuf = buf + of_int n - 1, sp_cnt = 0\<rparr> in
      if buf = 0 \<or> n < 1 then Some (- E_INVAL, m)
      else do { b \<leftarrow> vprintfmt sprintputch sp_mem fmt ap b;
                Some (sp_cnt b, (sp_mem b)(sp_buf b := 0)) })"

definition snprintf :: "mem \<Rightarrow> u32 \<Rightarrow> int \<Rightarrow> cptr \<Rightarrow> slot list \<Rightarrow> (int \<times> mem) option" where
  "snprintf m buf n fmt ap = vsnprintf m buf n fmt ap"

text \<open>The equations of the partial functions are executable.\<close>

declare printnum.simps [code]
  width_field.simps [code]
  put_chars.simps [code]
  rewind_fmt.simps [code]
  vprintfmt_loop.simps [code]

end
