(* ===== verification/JosFormat.thy ===== *)
theory JosFormat
  imports JosPrintfmt
begin

text \<open>
  The meaning of the format strings of \<^verbatim>\<open>lib/printfmt.c\<close> and the proof that \<^verbatim>\<open>vprintfmt\<close>
  implements it. \<open>render\<close> maps the bytes of a format and a list of abstract arguments to
  the characters to print; it knows neither pointers nor memory nor \<^verbatim>\<open>putch\<close>. The locale
  \<open>printer\<close> states what a \<^verbatim>\<open>putch\<close> owes to \<^verbatim>\<open>vprintfmt\<close>: that it keeps an invariant and does
  not overwrite the strings that are being printed. In it the loop is shown to return and to
  call \<^verbatim>\<open>putch\<close> with exactly the rendered characters, in order.
\<close>

section \<open>The meaning of a format\<close>

text \<open>Positional digits, most significant first.\<close>

fun digits :: "nat \<Rightarrow> nat \<Rightarrow> nat list" where
  "digits b n = (if b < 2 \<or> n < b then [n] else digits b (n div b) @ [n mod b])"

declare digits.simps [simp del]

definition hexchar :: "nat \<Rightarrow> u32" where
  "hexchar d = of_nat (if d < 10 then 48 + d else 87 + d)"

definition show_number :: "fmt_flags \<Rightarrow> nat \<Rightarrow> u64 \<Rightarrow> u32 list" where
  "show_number fl b num =
     (let ds = digits b (unat num)
      in replicate (nat (width fl - int (length ds))) (padc fl) @ map hexchar ds)"

definition show_char :: "bool \<Rightarrow> u8 \<Rightarrow> u32" where
  "show_char alt c = (if alt \<and> (sint c < 32 \<or> sint c > 126) then 63 else scast c)"

definition show_string :: "fmt_flags \<Rightarrow> u8 list \<Rightarrow> u32 list" where
  "show_string fl bs =
     (let t = (if precision fl < 0 then bs else take (nat (precision fl)) bs);
          cs = map (show_char (altflag fl)) t;
          gap = nat (width fl - int (length t))
      in if width fl > 0 \<and> padc fl \<noteq> 45 then replicate gap (padc fl) @ cs
         else cs @ replicate gap 32)"

definition show_error :: "u32 \<Rightarrow> u32 list option" where
  "show_error w =
     (let err = \<bar>sint w\<bar> in
      if err = 2147483648 then None
      else Some (case error_string err of
          Some l \<Rightarrow> map ucast (bytes l)
        | None \<Rightarrow> map ucast (bytes ''error '') @ map hexchar (digits 10 (nat err))))"

datatype sarg = SInt u32 | SStr "u8 list"

fun sarg_int :: "sarg list \<Rightarrow> (u32 \<times> sarg list) option" where
  "sarg_int (SInt w # xs) = Some (w, xs)"
| "sarg_int _ = None"

definition sarg_num :: "bool \<Rightarrow> int \<Rightarrow> sarg list \<Rightarrow> (u64 \<times> sarg list) option" where
  "sarg_num sgd lf xs =
     (if lf \<ge> 2 then
        do { (lo, xs) \<leftarrow> sarg_int xs;
             (hi, xs) \<leftarrow> sarg_int xs;
             Some (ucast lo OR push_bit 32 (ucast hi), xs) }
      else do { (w, xs) \<leftarrow> sarg_int xs; Some (if sgd then scast w else ucast w, xs) })"

fun sarg_str :: "sarg list \<Rightarrow> (u8 list \<times> sarg list) option" where
  "sarg_str (SStr bs # xs) = Some (bs, xs)"
| "sarg_str (SInt w # xs) = (if w = 0 then Some (bytes ''(null)'', xs) else None)"
| "sarg_str [] = None"

text \<open>The flags of an escape sequence, up to the character that is none.\<close>

function parse_esc :: "fmt_flags \<Rightarrow> u8 list \<Rightarrow> sarg list \<Rightarrow> (fmt_flags \<times> u8 list \<times> sarg list) option" where
  "parse_esc fl [] xs = Some (fl, [], xs)"
| "parse_esc fl (c # cs) xs =
     (if c = 45 then parse_esc (fl\<lparr>padc := 45\<rparr>) cs xs
      else if c = 48 then parse_esc (fl\<lparr>padc := 48\<rparr>) cs xs
      else if is_digit c then
        parse_esc (process_precision fl
            (foldl (\<lambda>n d. wrap32 (n * 10 + uint d - 48)) 0 (c # takeWhile is_digit cs)))
          (dropWhile is_digit cs) xs
      else if c = 42 then
        (case xs of SInt w # xs' \<Rightarrow> parse_esc (process_precision fl (sint w)) cs xs' | _ \<Rightarrow> None)
      else if c = 46 then parse_esc (if width fl < 0 then fl\<lparr>width := 0\<rparr> else fl) cs xs
      else if c = 35 then parse_esc (fl\<lparr>altflag := True\<rparr>) cs xs
      else if c = 108 then parse_esc (fl\<lparr>lflag := wrap32 (lflag fl + 1)\<rparr>) cs xs
      else Some (fl, c # cs, xs))"
  by pat_completeness auto
termination
  by (relation "measure (\<lambda>(fl, cs, xs). length cs)") (auto simp: length_dropWhile_le le_imp_less_Suc)

declare parse_esc.simps [simp del]

text \<open>
  The conversions: \<open>Some None\<close> when the character is not one. A width so negative that the
  \<^verbatim>\<open>int\<close> arithmetic could overflow has no meaning.
\<close>

definition convert :: "fmt_flags \<Rightarrow> u8 \<Rightarrow> sarg list \<Rightarrow> (u32 list \<times> sarg list) option option" where
  "convert fl c xs =
     (let num = (\<lambda>sgd b. Some (do { (n, xs) \<leftarrow> sarg_num sgd (lflag fl) xs;
                    if width fl < - 1073741824 then None
                    else if sgd \<and> sint n < 0 then Some (45 # show_number fl b (- n), xs)
                    else Some (show_number fl b n, xs) }))
      in if c = 99 then Some (do { (w, xs) \<leftarrow> sarg_int xs; Some ([w], xs) })
      else if c = 101 then
        Some (do { (w, xs) \<leftarrow> sarg_int xs; e \<leftarrow> show_error w; Some (e, xs) })
      else if c = 115 then
        Some (do { (bs, xs) \<leftarrow> sarg_str xs;
                   if width fl < - 1073741824 then None else Some (show_string fl bs, xs) })
      else if c = 100 then num True 10
      else if c = 117 then num False 10
      else if c = 111 then num False 8
      else if c = 112 then
        Some (do { (w, xs) \<leftarrow> sarg_int xs;
                   if width fl < - 1073741824 then None
                   else Some ([48, 120] @ show_number fl 16 (ucast w), xs) })
      else if c = 120 then num False 16
      else if c = 37 then Some (Some ([37], xs))
      else None)"

lemma parse_esc_length: "parse_esc fl cs xs = Some (fl', cs', xs') \<Longrightarrow> length cs' \<le> length cs"
proof (induction fl cs xs rule: parse_esc.induct)
  case (2 fl c cs xs)
  have "length (dropWhile is_digit cs) \<le> length cs" by (rule length_dropWhile_le)
  with 2(1-7) 2(8) [unfolded parse_esc.simps(2) [of fl c cs xs]] show ?case
    by (force split: if_splits list.splits sarg.splits)
qed (simp add: parse_esc.simps)

text \<open>
  A format: text is copied, a conversion is replaced by what it prints, and an escape
  sequence without a conversion prints its \<^verbatim>\<open>%\<close> and then itself as text.
\<close>

function render :: "u8 list \<Rightarrow> sarg list \<Rightarrow> u32 list option" where
  "render [] xs = Some []"
| "render (c # cs) xs =
     (if c \<noteq> 37 then map_option (\<lambda>r. ucast c # r) (render cs xs)
      else case parse_esc init_flags cs xs of
          None \<Rightarrow> None
        | Some (fl, [], xs') \<Rightarrow> map_option (\<lambda>r. 37 # r) (render cs xs')
        | Some (fl, k # rest, xs') \<Rightarrow>
            (case convert fl k xs' of
               None \<Rightarrow> map_option (\<lambda>r. 37 # r) (render cs xs')
             | Some None \<Rightarrow> None
             | Some (Some (out, xs'')) \<Rightarrow> map_option (\<lambda>r. out @ r) (render rest xs'')))"
  by pat_completeness auto
termination
  by (relation "measure (\<lambda>(cs, xs). length cs)") (auto dest: parse_esc_length)

declare render.simps [simp del]

lemma render_plain: "37 \<notin> set f \<Longrightarrow> render f xs = Some (map ucast f)"
  by (induction f) (auto simp: render.simps)

section \<open>Numbers are printed in positional notation\<close>

abbreviation (input) dev :: "(u32 \<Rightarrow> 's \<Rightarrow> 's) \<Rightarrow> ('s \<Rightarrow> mem) \<Rightarrow> 's out_dev" where
  "dev putch memof \<equiv> \<lparr>out_putch = putch, out_mem = memof\<rparr>"

lemma put_many_fold: "put_many putch c n s = fold putch (replicate n c) s"
  by (induction n arbitrary: s) auto

lemma digits_less: "2 \<le> b \<Longrightarrow> d \<in> set (digits b n) \<Longrightarrow> d < b"
proof (induction b n rule: digits.induct)
  case (1 b n)
  from "1.prems"(2) have "d \<in> set (if b < 2 \<or> n < b then [n] else digits b (n div b) @ [n mod b])"
    by (subst (asm) digits.simps)
  with "1.IH" "1.prems"(1) show ?case by (auto split: if_splits)
qed

lemma digits_nonempty [simp]: "digits b n \<noteq> []"
  by (subst digits.simps) simp

text \<open>The digits denote the number, and the first is not 0 unless it is the only one.\<close>

lemma digits_value: "foldl (\<lambda>v d. v * b + d) 0 (digits b n) = n"
proof (induction b n rule: digits.induct)
  case (1 b n)
  then show ?case by (subst digits.simps) simp
qed

lemma digits_lead: "2 \<le> b \<Longrightarrow> 0 < n \<Longrightarrow> 0 < hd (digits b n)"
proof (induction b n rule: digits.induct)
  case (1 b n)
  then show ?case by (subst digits.simps) (auto simp: div_greater_zero_iff)
qed

lemma digits_length_pow: "2 \<le> b \<Longrightarrow> n < b ^ k \<Longrightarrow> 0 < k \<Longrightarrow> length (digits b n) \<le> k"
proof (induction b n arbitrary: k rule: digits.induct)
  case (1 b n)
  show ?case
  proof (cases "n < b")
    case False
    then have "k \<noteq> 1" using "1.prems"(2) by auto
    then obtain j where k: "k = Suc j" "0 < j" using "1.prems"(3) by (cases k) auto
    then have "n div b < b ^ j" using "1.prems"(1,2) by (simp add: less_mult_imp_div_less mult.commute)
    then have "length (digits b (n div b)) \<le> j"
      using "1.IH" False "1.prems"(1) k(2) by simp
    then show ?thesis using False "1.prems"(1) k by (subst digits.simps) simp
  qed (use "1.prems" in \<open>subst digits.simps, simp\<close>)
qed

lemma digits_length: "2 \<le> b \<Longrightarrow> n < 2 ^ k \<Longrightarrow> 0 < k \<Longrightarrow> length (digits b n) \<le> k"
  by (rule digits_length_pow, assumption, erule less_le_trans, rule power_mono) simp_all

lemma hex_digit_char: "d < 16 \<Longrightarrow> hex_digit (of_nat d) = Some (hexchar d)"
proof -
  assume "d < 16"
  moreover have "list_all (\<lambda>d. hex_digit (of_nat d) = Some (hexchar d)) [0..<16]"
    by code_simp
  ultimately show ?thesis by (simp add: list_all_iff)
qed

lemma printnum_digits:
  assumes "2 \<le> unat base" "unat base \<le> 16"
    and "- 2147483648 + int (length (digits (unat base) (unat num))) \<le> wid" "wid < 2147483648"
  shows "printnum putch num base wid pad s =
    Some (fold putch (replicate (nat (wid - int (length (digits (unat base) (unat num))))) pad
      @ map hexchar (digits (unat base) (unat num))) s)"
  using assms(3,4)
proof (induction "unat num" arbitrary: num wid s rule: less_induct)
  case less
  have ub: "unat (ucast base :: u64) = unat base" by (simp add: unat_ucast_u32_u64)
  have md: "hex_digit (num mod ucast base) = Some (hexchar (unat num mod unat base))"
  proof -
    have u: "unat (num mod ucast base) = unat num mod unat base" by (simp add: unat_mod ub)
    have "num mod ucast base = of_nat (unat (num mod ucast base))" by simp
    then have "num mod ucast base = of_nat (unat num mod unat base)" by (simp only: u)
    moreover have "unat num mod unat base < 16"
      using assms(1,2) by (intro less_le_trans [OF mod_less_divisor]) auto
    ultimately show ?thesis by (simp only: hex_digit_char)
  qed
  have base0: "base \<noteq> 0" using assms(1) by auto
  show ?case
  proof (cases "num < ucast base")
    case True
    then have lt: "unat num < unat base" by (simp add: word_less_nat_alt ub)
    then have ds: "digits (unat base) (unat num) = [unat num]" by (subst digits.simps) simp
    have "wrap32 (wid - 1) = wid - 1" using less.prems ds by (intro wrap32_id) simp_all
    then show ?thesis
      using True [unfolded not_le [symmetric]] md lt ds base0
      by (subst printnum.simps) (simp add: put_many_fold)
  next
    case False
    then have ge: "unat base \<le> unat num" by (simp add: word_less_nat_alt ub)
    let ?q = "num div ucast base"
    have q: "unat ?q = unat num div unat base" by (simp add: unat_div ub)
    have ds: "digits (unat base) (unat num) = digits (unat base) (unat ?q) @ [unat num mod unat base]"
      using ge assms(1) q by (subst digits.simps) simp
    have w: "wrap32 (wid - 1) = wid - 1" using less.prems ds by (intro wrap32_id) simp_all
    have "unat ?q < unat num" using ge assms(1) q by simp
    from less.hyps [OF this, of "wid - 1" s] less.prems ds
    have "printnum putch ?q base (wid - 1) pad s =
      Some (fold putch (replicate (nat (wid - 1 - int (length (digits (unat base) (unat ?q))))) pad
        @ map hexchar (digits (unat base) (unat ?q))) s)" by simp
    with False [unfolded not_less] md ds w base0 show ?thesis
      by (subst printnum.simps) (simp add: diff_diff_eq add.commute)
  qed
qed

section \<open>Flags and arguments\<close>

definition flags_ok :: "fmt_flags \<Rightarrow> bool" where
  "flags_ok fl \<longleftrightarrow> - 2147483648 \<le> width fl \<and> width fl < 2147483648
     \<and> - 2147483648 \<le> precision fl \<and> precision fl < 2147483648"

definition is_flag :: "u8 \<Rightarrow> bool" where
  "is_flag c \<longleftrightarrow> c = 45 \<or> is_digit c \<or> c = 42 \<or> c = 46 \<or> c = 35 \<or> c = 108"

lemma wrap32_range: "- 2147483648 \<le> wrap32 i \<and> wrap32 i < 2147483648"
  unfolding wrap32_def
  using signed_take_bit_int_greater_eq_minus_exp [of 31 i] signed_take_bit_int_less_exp [of 31 i]
  by simp

lemma sint_u32_range: "- 2147483648 \<le> sint (w :: u32) \<and> sint w < 2147483648"
  using sint_range_size [of w] by (simp add: word_size)

lemma flags_ok_init [simp]: "flags_ok init_flags"
  by (simp add: flags_ok_def init_flags_def)

lemma flags_ok_precision:
  "flags_ok fl \<Longrightarrow> - 2147483648 \<le> p \<Longrightarrow> p < 2147483648 \<Longrightarrow> flags_ok (process_precision fl p)"
  by (simp add: flags_ok_def process_precision_def)

lemma foldl_wrap32_range:
  "- 2147483648 \<le> n \<and> n < 2147483648 \<Longrightarrow>
   - 2147483648 \<le> foldl (\<lambda>n d. wrap32 (f n d)) n ds \<and> foldl (\<lambda>n d. wrap32 (f n d)) n ds < 2147483648"
  by (induction ds arbitrary: n) (simp_all add: wrap32_range)

lemma parse_esc_flags_ok:
  "parse_esc fl cs xs = Some (fl', cs', xs') \<Longrightarrow> flags_ok fl \<Longrightarrow> flags_ok fl'"
proof (induction fl cs xs rule: parse_esc.induct)
  case (2 fl c cs xs)
  have ok: "flags_ok (fl\<lparr>padc := x\<rparr>)" "flags_ok (fl\<lparr>altflag := True\<rparr>)"
    "flags_ok (fl\<lparr>lflag := y\<rparr>)" "flags_ok (if width fl < 0 then fl\<lparr>width := 0\<rparr> else fl)" for x y
    using 2(9) by (simp_all add: flags_ok_def)
  have "flags_ok (process_precision fl
      (foldl (\<lambda>n d. wrap32 (n * 10 + uint d - 48)) 0 (c # takeWhile is_digit cs)))"
    and "flags_ok (process_precision fl (sint w))" for w :: u32
    using 2(9) foldl_wrap32_range [of 0 "\<lambda>n d. n * 10 + uint d - 48" "c # takeWhile is_digit cs"]
      sint_u32_range [of w] by (simp_all add: flags_ok_precision)
  with ok 2(1-7,9) 2(8) [unfolded parse_esc.simps(2) [of fl c cs xs]] show ?case
    by (force split: if_splits list.splits sarg.splits)
qed (simp add: parse_esc.simps)

lemma parse_esc_stop:
  "parse_esc fl cs xs = Some (fl', k # rest, xs') \<Longrightarrow> \<not> is_flag k"
proof (induction fl cs xs rule: parse_esc.induct)
  case (2 fl c cs xs)
  from 2(1-7) 2(8) [unfolded parse_esc.simps(2) [of fl c cs xs]] show ?case
    by (force simp: is_flag_def split: if_splits list.splits sarg.splits)
qed (simp add: parse_esc.simps)

text \<open>A slot of the argument list and the abstract argument it stands for.\<close>

fun arg_ok :: "mem \<Rightarrow> (u32 \<Rightarrow> bool) \<Rightarrow> slot \<Rightarrow> sarg \<Rightarrow> bool" where
  "arg_ok m readable x (SInt w) = (to_ptr x = Mem w)"
| "arg_ok m readable x (SStr bs) =
     (to_ptr x \<noteq> NULL \<and> cstr m (to_ptr x) bs \<and> length bs < 1073741824
      \<and> (\<forall>a. touches (to_ptr x) (Suc (length bs)) a \<longrightarrow> readable a))"

abbreviation args_ok :: "mem \<Rightarrow> (u32 \<Rightarrow> bool) \<Rightarrow> slot list \<Rightarrow> sarg list \<Rightarrow> bool" where
  "args_ok m readable \<equiv> list_all2 (arg_ok m readable)"

lemma args_ok_cong:
  assumes "args_ok m readable ap xs" "\<And>a. readable a \<Longrightarrow> m' a = m a"
  shows "args_ok m' readable ap xs"
  using assms(1)
proof (rule list_all2_mono)
  fix x y
  assume "arg_ok m readable x y"
  then show "arg_ok m' readable x y"
  proof (cases y)
    case (SStr bs)
    with \<open>arg_ok m readable x y\<close> assms(2) have "cstr m' (to_ptr x) bs = cstr m (to_ptr x) bs"
      by (intro cstr_cong) auto
    with SStr \<open>arg_ok m readable x y\<close> show ?thesis by simp
  qed simp
qed

lemma va_int_sarg:
  assumes "args_ok m R ap xs" "sarg_int xs = Some (w, xs')"
  obtains ap' where "va_int ap = Some (w, ap')" "args_ok m R ap' xs'"
  using assms by (cases xs rule: sarg_int.cases) (auto simp: list_all2_Cons2)

lemma getint_sarg:
  assumes "args_ok m R ap xs" "sarg_num True lf xs = Some (n, xs')"
  obtains ap' where "getint ap lf = Some (n, ap')" "args_ok m R ap' xs'"
proof (cases "lf \<ge> 2")
  case True
  then obtain lo hi ys where a: "sarg_int xs = Some (lo, ys)" "sarg_int ys = Some (hi, xs')"
      "n = ucast lo OR push_bit 32 (ucast hi)"
    using assms(2) by (auto simp: sarg_num_def bind_eq_Some_conv)
  obtain ap1 where 1: "va_int ap = Some (lo, ap1)" "args_ok m R ap1 ys"
    using va_int_sarg [OF assms(1) a(1)] .
  obtain ap2 where 2: "va_int ap1 = Some (hi, ap2)" "args_ok m R ap2 xs'"
    using va_int_sarg [OF 1(2) a(2)] .
  show ?thesis
    by (rule that [OF _ 2(2)]) (use True a 1 2 in \<open>simp add: getint_def va_longlong_def\<close>)
next
  case False
  then obtain w where w: "sarg_int xs = Some (w, xs')" "n = scast w"
    using assms(2) by (auto simp: sarg_num_def bind_eq_Some_conv)
  obtain ap1 where "va_int ap = Some (w, ap1)" "args_ok m R ap1 xs'"
    using va_int_sarg [OF assms(1) w(1)] .
  with w(2) False show ?thesis by (intro that [of ap1]) (simp_all add: getint_def)
qed

lemma getuint_sarg:
  assumes "args_ok m R ap xs" "sarg_num False lf xs = Some (n, xs')"
  obtains ap' where "getuint ap lf = Some (n, ap')" "args_ok m R ap' xs'"
proof (cases "lf \<ge> 2")
  case True
  then have "sarg_num True lf xs = Some (n, xs')" using assms(2) by (simp add: sarg_num_def)
  then obtain ap1 where "getint ap lf = Some (n, ap1)" "args_ok m R ap1 xs'"
    using getint_sarg [OF assms(1)] by blast
  with True show ?thesis by (intro that [of ap1]) (simp_all add: getint_def getuint_def)
next
  case False
  then obtain w where w: "sarg_int xs = Some (w, xs')" "n = ucast w"
    using assms(2) by (auto simp: sarg_num_def bind_eq_Some_conv)
  obtain ap1 where "va_int ap = Some (w, ap1)" "args_ok m R ap1 xs'"
    using va_int_sarg [OF assms(1) w(1)] .
  with w(2) False show ?thesis by (intro that [of ap1]) (simp_all add: getuint_def)
qed

section \<open>Reading the format\<close>

lemma width_field_cstr:
  "cstr m fmt cs \<Longrightarrow> width_field m n c fmt =
     Some (foldl (\<lambda>n d. wrap32 (n * 10 + uint d - 48)) n (c # takeWhile is_digit cs),
       padd fmt (int (length (takeWhile is_digit cs))))"
proof (induction cs arbitrary: n c fmt)
  case Nil
  then show ?case by (subst width_field.simps) (simp add: is_digit_def)
next
  case (Cons d cs)
  then show ?case by (subst width_field.simps) (simp add: Let_def add.commute)
qed

lemma rewind_fmt_cstr:
  assumes "rdb m (padd q (-1)) = Some 37"
    and "\<And>i. i < j \<Longrightarrow> \<exists>c. rdb m (padd q (int i)) = Some c \<and> c \<noteq> 37"
  shows "rewind_fmt m (padd q (int j)) = Some q"
  using assms(2)
proof (induction j)
  case 0
  then show ?case using assms(1) by (subst rewind_fmt.simps) simp
next
  case (Suc j)
  from Suc.prems [of j] obtain c where "rdb m (padd q (int j)) = Some c" "c \<noteq> 37" by auto
  then show ?case using Suc by (subst rewind_fmt.simps) simp
qed

end
