(* ===== verification/JosPrinter.thy ===== *)
theory JosPrinter
  imports JosFormat
begin

text \<open>
  The interface between \<^verbatim>\<open>vprintfmt\<close> and its callers. The locale \<open>printer\<close> fixes a
  \<^verbatim>\<open>putch\<close>, the memory of the state it works on, an invariant of that state and the set of
  addresses whose contents it leaves alone; its conclusion \<open>vprintfmt_render\<close> is the
  correctness of \<^verbatim>\<open>vprintfmt\<close> for such a \<^verbatim>\<open>putch\<close>. The buffer printer \<^verbatim>\<open>sprintputch\<close> is
  an instance, which gives the correctness of \<^verbatim>\<open>vsnprintf\<close>; the console is another one,
  in its own theory.
\<close>

section \<open>What is printed does not depend on the printer\<close>

lemma sint_scast_u8: "sint (scast (c :: u8) :: u32) = sint c"
  by (rule sint_up_scast) (simp add: is_up)

lemma show_char_code:
  "(if alt \<and> (sint (scast c :: u32) < 32 \<or> 126 < sint (scast c :: u32)) then 63 else scast c) = show_char alt c"
  by (simp add: show_char_def sint_scast_u8)

lemma strnlen_precision:
  assumes "cstr m q bs" "length bs < 1073741824"
    and "- 2147483648 \<le> p \<and> p < 2147483648"
  shows "strnlen m q (of_int p) = Some (of_nat (length (if p < 0 then bs else take (nat p) bs)))"
proof (cases "p < 0")
  case True
  have "unat (of_int p :: u32) = nat (p + 4294967296)"
  proof -
    have "uint (of_int p :: u32) = p mod 4294967296" by (simp add: uint_word_of_int)
    also have "\<dots> = (p + 4294967296) mod 4294967296" by simp
    also have "\<dots> = p + 4294967296"
      using True assms(3) by (intro mod_pos_pos_trivial) simp_all
    finally show ?thesis by (metis unat_eq_nat_uint)
  qed
  then show ?thesis using True assms strnlen_cstr [OF assms(1), of "of_int p"] by simp
next
  case False
  then have "(of_int p :: u32) = of_nat (nat p)" by simp
  moreover have "nat p < 4294967296" using assms(3) by linarith
  ultimately have "unat (of_int p :: u32) = nat p" by (simp only: unat_of_nat_u32)
  then show ?thesis using False strnlen_cstr [OF assms(1), of "of_int p"] by simp
qed

lemma scast_u8_0 [simp]: "(scast (c :: u8) :: u32) = 0 \<longleftrightarrow> c = 0"
  by (metis sint_0 sint_scast_u8 word_eq_iff_signed)

lemma parse_esc_nonflag: "\<not> is_flag c \<Longrightarrow> parse_esc fl (c # cs) xs = Some (fl, c # cs, xs)"
  by (subst parse_esc.simps) (auto simp: is_flag_def is_digit_def)

lemma parse_esc_prefix:
  "parse_esc fl cs xs = Some (fl', cs', xs') \<Longrightarrow> \<exists>pre. cs = pre @ cs' \<and> 37 \<notin> set pre"
proof (induction "length cs" arbitrary: fl cs xs rule: less_induct)
  case less
  show ?case
  proof (cases "cs = [] \<or> \<not> is_flag (hd cs)")
    case True
    with less.prems show ?thesis
      by (cases cs) (simp_all add: parse_esc_nonflag parse_esc.simps(1))
  next
    case False
    then obtain c ds where cs: "cs = c # ds" and flag: "is_flag c" by (cases cs) auto
    have t: "37 \<notin> set (takeWhile is_digit ds)" by (auto dest!: set_takeWhileD simp: is_digit_def)
    have IH: "\<exists>pre. es = pre @ cs' \<and> 37 \<notin> set pre"
      if "parse_esc f es ys = Some (fl', cs', xs')" "length es \<le> length ds" for f es ys
      using less.hyps [of es f ys] that cs by simp
    note eq = less.prems [unfolded cs parse_esc.simps(2)]
    have "\<exists>k f ys. parse_esc f (drop k ds) ys = Some (fl', cs', xs') \<and> 37 \<notin> set (take k ds)"
    proof (cases "is_digit c \<and> c \<noteq> 48")
      case True
      then have "c \<noteq> 45" by (auto simp: is_digit_def)
      with eq True t show ?thesis
        by (intro exI [of _ "length (takeWhile is_digit ds)"])
          (auto simp: dropWhile_eq_drop [symmetric] takeWhile_eq_take [symmetric])
    next
      case False
      with eq flag have "\<exists>f ys. parse_esc f ds ys = Some (fl', cs', xs')"
        by (auto simp: is_flag_def split: if_splits list.splits sarg.splits)
      then show ?thesis by (metis drop0 empty_iff list.set(1) take0)
    qed
    then obtain k f ys where k: "parse_esc f (drop k ds) ys = Some (fl', cs', xs')"
        "37 \<notin> set (take k ds)" by blast
    with IH [OF k(1)] obtain pre where "drop k ds = pre @ cs'" "37 \<notin> set pre" by auto
    moreover have "ds = take k ds @ drop k ds" by simp
    ultimately show ?thesis using k(2) flag cs
      by (intro exI [of _ "c # take k ds @ pre"])
        (auto simp del: append_take_drop_id simp: is_flag_def is_digit_def)
  qed
qed

lemma printnum_show:
  assumes "flags_ok fl" "- 1073741824 \<le> width fl" "2 \<le> unat base" "unat base \<le> 16"
  shows "printnum putch num base (width fl) (padc fl) s =
    Some (fold putch (show_number fl (unat base) num) s)"
proof -
  have "unat num < 2 ^ 64" using unsigned_less [of num] by simp
  then have "length (digits (unat base) (unat num)) \<le> 64"
    using assms(3) by (intro digits_length) simp_all
  then show ?thesis
    using assms printnum_digits [of base num "width fl" putch "padc fl" s]
    by (simp add: show_number_def Let_def flags_ok_def)
qed

lemma of_char_eq_37_iff_u8: "of_char c = (37 :: u8) \<longleftrightarrow> c = CHR ''%''"
  using of_char_eq_iff_u8 [of c "CHR ''%''"] by simp

lemma convert_number:
  assumes "convert fl k xs = Some (Some (out, xs'))"
    and "(k, b, sgd) \<in> {(100, 10, True), (117, 10, False), (111, 8, False), (120, 16, False)}"
  obtains n where "sarg_num sgd (lflag fl) xs = Some (n, xs')" "- 1073741824 \<le> width fl"
    "out = (if sgd \<and> sint n < 0 then 45 # show_number fl b (- n) else show_number fl b n)"
proof -
  have "convert fl k xs = Some (do { (n, xs) \<leftarrow> sarg_num sgd (lflag fl) xs;
      if width fl < - 1073741824 then None
      else if sgd \<and> sint n < 0 then Some (45 # show_number fl b (- n), xs)
      else Some (show_number fl b n, xs) })"
    using assms(2) by (cases "sarg_num sgd (lflag fl) xs") (auto simp: convert_def)
  with assms(1) that show ?thesis
    by (cases "sarg_num sgd (lflag fl) xs") (auto split: if_splits)
qed

lemma convert_kind:
  assumes "convert fl k xs = Some (Some (out, xs'))"
  shows "k \<in> {99, 101, 115, 100, 117, 111, 112, 120, 37}"
  using assms by (auto simp: convert_def Let_def split: if_splits)

lemma of_int_small_u32:
  assumes "0 \<le> e" "e < 2147483648"
  shows "sint (of_int e :: u32) = e" "sint (scast (of_int e :: u32) :: u64) = e"
    "unat (scast (of_int e :: u32) :: u64) = nat e"
proof -
  show s: "sint (of_int e :: u32) = e"
    using assms wrap32_id [of e] by (simp add: sint_sbintrunc' wrap32_def)
  then show "sint (scast (of_int e :: u32) :: u64) = e"
    by (subst sint_up_scast) (simp_all add: is_up)
  have "uint (of_int e :: u64) = e"
    using assms by (simp add: uint_word_of_int)
  with s show "unat (scast (of_int e :: u32) :: u64) = nat e"
    by (simp add: scast_eq unat_eq_nat_uint)
qed

lemma err_switch_cases:
  assumes "show_error w = Some e"
  obtains (msg) l where "error_string \<bar>sint w\<bar> = Some l" "e = map ucast (bytes l)"
      "err_switch w = Some (Lit ''%s'' 0, [Ptr (Lit l 0)])"
  | (number) "0 \<le> \<bar>sint w\<bar>" "\<bar>sint w\<bar> < 2147483648"
      "e = map ucast (bytes ''error '') @ map hexchar (digits 10 (nat \<bar>sint w\<bar>))"
      "err_switch w = Some (Lit ''error %d'' 0, [Word (of_int \<bar>sint w\<bar>)])"
proof -
  have r: "\<bar>sint w\<bar> \<noteq> 2147483648" using assms by (auto simp: show_error_def Let_def)
  then have lt: "\<bar>sint w\<bar> < 2147483648" using sint_u32_range [of w] by linarith
  then have e: "(if sint w < 0 then wrap32 (- sint w) else sint w) = \<bar>sint w\<bar>"
    by (auto simp: wrap32_id)
  have big: "error_string x = None" if "8 \<le> x" for x using that by (simp add: error_string_def)
  show ?thesis
  proof (cases "error_string \<bar>sint w\<bar>")
    case None
    with assms r lt big show ?thesis
      by (intro number) (auto simp: show_error_def Let_def err_switch_def e MAXERROR_def)
  next
    case (Some l)
    then have "\<bar>sint w\<bar> < 8" using big by (metis not_less option.distinct(1))
    with Some assms r show ?thesis
      by (intro msg [of l]) (auto simp: show_error_def Let_def err_switch_def e MAXERROR_def)
  qed
qed

lemma error_string_small: "error_string x = Some l \<Longrightarrow> CHR 0x00 \<notin> set l \<and> length l < 1073741824
    \<and> map (show_char False) (bytes l) = map ucast (bytes l)"
  by (auto simp: error_string_def bytes_def show_char_def split: if_splits)

text \<open>A string in memory whose bytes, the final NUL included, the printer does not overwrite.\<close>

definition readable_str :: "mem \<Rightarrow> (u32 \<Rightarrow> bool) \<Rightarrow> cptr \<Rightarrow> u8 list \<Rightarrow> bool" where
  "readable_str m readable p f \<longleftrightarrow> cstr m p f \<and> length f < 4294967296
     \<and> (\<forall>a. touches p (Suc (length f)) a \<longrightarrow> readable a)"

lemma readable_str_Cons:
  "readable_str m R p (c # f) \<Longrightarrow> rdb m p = Some c \<and> c \<noteq> 0 \<and> readable_str m R (padd p 1) f"
  by (auto simp: readable_str_def dest: touches_step)

lemma readable_str_drop: "readable_str m R p (u @ f) \<Longrightarrow> readable_str m R (padd p (int (length u))) f"
proof (induction u arbitrary: p)
  case (Cons c u)
  then have "readable_str m R (padd (padd p 1) (int (length u))) f"
    by (intro Cons.IH) (auto dest: readable_str_Cons)
  then show ?case by (simp add: add.commute)
qed simp

lemma readable_str_cstr: "readable_str m R p f \<Longrightarrow> cstr m p f"
  by (simp add: readable_str_def)

lemma readable_str_cong:
  assumes "readable_str m R p f" "\<And>a. R a \<Longrightarrow> m' a = m a"
  shows "readable_str m' R p f"
  using assms cstr_cong [of p f m' m] by (auto simp: readable_str_def)

lemma readable_str_Lit:
  "CHR 0x00 \<notin> set l \<Longrightarrow> length l < 4294967296 \<Longrightarrow> readable_str m R (Lit l 0) (bytes l)"
  by (simp add: readable_str_def cstr_Lit)

lemma fmt_switch_default:
  assumes "\<not> is_flag k" "convert fl k xs = None"
  shows "fmt_switch putch memof fl k p ap s =
    do { q \<leftarrow> rewind_fmt (memof (putch 37 s)) (padd p (-1)); Some (Break q ap (putch 37 s)) }"
  using assms unfolding fmt_switch_def convert_def is_flag_def
  by (auto simp: Let_def is_digit_def split: if_splits)

locale printer =
  fixes putch :: "u32 \<Rightarrow> 's \<Rightarrow> 's"
    and memof :: "'s \<Rightarrow> mem"
    and inv :: "'s \<Rightarrow> bool"
    and readable :: "u32 \<Rightarrow> bool"
  assumes inv_putch: "inv s \<Longrightarrow> inv (putch c s)"
    and mem_putch: "inv s \<Longrightarrow> readable a \<Longrightarrow> memof (putch c s) a = memof s a"
begin

lemma inv_fold: "inv s \<Longrightarrow> inv (fold putch cs s)"
  by (induction cs arbitrary: s) (simp_all add: inv_putch)

lemma mem_fold: "inv s \<Longrightarrow> readable a \<Longrightarrow> memof (fold putch cs s) a = memof s a"
  by (induction cs arbitrary: s) (simp_all add: inv_putch mem_putch)

lemma cstr_fold:
  assumes "inv s" "\<And>a. touches p (Suc (length t)) a \<Longrightarrow> readable a" "length t < 4294967296"
  shows "cstr (memof (fold putch cs s)) p t = cstr (memof s) p t"
  using assms by (intro cstr_cong) (auto intro: mem_fold)

lemma args_fold: "inv s \<Longrightarrow> args_ok (memof s) readable ap xs \<Longrightarrow> args_ok (memof (fold putch cs s)) readable ap xs"
  by (erule args_ok_cong) (rule mem_fold)

text \<open>The characters of a string argument, up to the precision.\<close>

lemma put_chars_show:
  assumes "inv s" "cstr (memof s) p bs" "length bs < 1073741824"
    and "\<And>a. touches p (Suc (length bs)) a \<Longrightarrow> readable a"
    and "- 2147483648 \<le> wid - int (length bs)" "wid < 2147483648"
  shows "put_chars putch memof p prec wid alt s =
    (let t = (if prec < 0 then bs else take (nat prec) bs)
     in Some (wid - int (length t), fold putch (map (show_char alt) t) s))"
  using assms
proof (induction bs arbitrary: p prec wid s)
  case Nil
  then show ?case by (subst put_chars.simps) simp
next
  case (Cons c bs)
  let ?s = "putch (show_char alt c) s"
  have rd: "readable a" if "touches (padd p 1) (Suc (length bs)) a" for a
    using touches_step [OF that] Cons.prems(3,4) by simp
  have "cstr (memof ?s) (padd p 1) bs"
    using cstr_fold [of s "padd p 1" bs "[show_char alt c]"] Cons.prems(1-3) rd by simp
  note IH = Cons.IH [OF inv_putch [OF Cons.prems(1)] this, of "wid - 1"]
  have w: "wrap32 (wid - 1) = wid - 1" using Cons.prems(5,6) by (intro wrap32_id) simp_all
  show ?case
  proof (cases "prec = 0")
    case False
    then have "nat prec = Suc (nat (prec - 1)) \<or> prec < 0" by linarith
    then show ?thesis
      using Cons.prems(2,3,5,6) False w IH [of "if prec < 0 then prec else prec - 1"] rd
      by (subst put_chars.simps) (auto simp: Let_def show_char_code)
  next
    case True
    then show ?thesis using Cons.prems(2) by (subst put_chars.simps) simp
  qed
qed

lemma put_string_show:
  assumes "inv s" "flags_ok fl" "- 1073741824 \<le> width fl"
    and "cstr (memof s) q bs" "length bs < 1073741824"
    and "\<And>a. touches q (Suc (length bs)) a \<Longrightarrow> readable a"
    and "q = (if p = NULL then Lit ''(null)'' 0 else p)"
  shows "put_string putch memof fl p s = Some (fold putch (show_string fl bs) s)"
proof -
  define t where "t = (if precision fl < 0 then bs else take (nat (precision fl)) bs)"
  have n: "strnlen (memof s) q (of_int (precision fl)) = Some (of_nat (length t))"
    using strnlen_precision [OF assms(4,5)] assms(2) by (simp add: flags_ok_def t_def)
  have t: "int (length t) < 1073741824" "length t \<le> length bs"
    using assms(5) by (auto simp: t_def min_less_iff_disj)
  then have sn: "sint (of_nat (length t) :: u32) = int (length t)"
    by (intro sint_of_nat_small) simp
  have chars: "put_chars putch memof q (precision fl) wid (altflag fl) s' =
      Some (wid - int (length t), fold putch (map (show_char (altflag fl)) t) s')"
    if "s' = fold putch cs s" "- 1073741824 \<le> wid" "wid < 2147483648" for cs wid s'
  proof -
    have "length bs < 4294967296" using assms(5) by simp
    then have "cstr (memof s') q bs"
      unfolding that(1) using cstr_fold [where p = q and t = bs, OF assms(1,6)] assms(4) by blast
    moreover have "inv s'" unfolding that(1) by (rule inv_fold [OF assms(1)])
    ultimately show ?thesis
      using put_chars_show [of s' q bs wid "precision fl" "altflag fl"] assms(5,6) that(2,3)
      by (simp add: Let_def t_def)
  qed
  show ?thesis
  proof (cases "width fl > 0 \<and> padc fl \<noteq> 45")
    case True
    let ?w = "width fl - int (length t)"
    have w: "wrap32 ?w = ?w" using t True assms(2) by (intro wrap32_id) (simp_all add: flags_ok_def)
    note c = chars [OF put_many_fold, of "if ?w > 0 then 0 else ?w" "padc fl" "nat ?w"]
    show ?thesis
      unfolding put_string_def assms(7) [symmetric] show_string_def t_def [symmetric] Let_def
      using True n sn w c t
      by (cases "?w > 0") (simp_all add: put_many_fold del: fold_replicate)
  next
    case False
    note c = chars [of s "[]" "width fl"]
    show ?thesis
      unfolding put_string_def assms(7) [symmetric] show_string_def t_def [symmetric] Let_def
        if_not_P [OF False]
      using c assms(2,3) by (simp add: put_many_fold flags_ok_def del: fold_replicate)
  qed
qed

text \<open>The flags of an escape sequence only move the loop forward.\<close>


text \<open>A flag of an escape sequence leads back to \<^verbatim>\<open>reswitch\<close>, with the sequence that is left.\<close>

lemma switch_flag:
  assumes "is_flag c" "parse_esc fl (c # ds) xs = Some r" "cstr (memof s) p (c # ds)" "args_ok (memof s) readable ap xs"
  shows "\<exists>fl1 k ap1 xs1. fmt_switch putch memof fl c (padd p 1) ap s = Some (Reswitch fl1 (padd p (int k)) ap1)
    \<and> parse_esc fl1 (drop k (c # ds)) xs1 = Some r \<and> 0 < k \<and> k \<le> Suc (length ds) \<and> args_ok (memof s) readable ap1 xs1"
proof -
  note eq = assms(2) [unfolded parse_esc.simps(2)]
  have ds: "cstr (memof s) (padd p 1) ds" using assms(3) by simp
  consider (digit) "is_digit c" "c \<noteq> 48" | (star) "c = 42" | (other) "c \<in> {45, 48, 46, 35, 108}"
    using assms(1) by (auto simp: is_flag_def)
  then show ?thesis
  proof cases
    case digit
    let ?t = "takeWhile is_digit ds"
    let ?n = "foldl (\<lambda>n d. wrap32 (n * 10 + uint d - 48)) 0 (c # ?t)"
    have c: "c \<noteq> 45" using digit by (auto simp: is_digit_def)
    have "drop (Suc (length ?t)) (c # ds) = dropWhile is_digit ds" by (simp add: dropWhile_eq_drop)
    then have "parse_esc (process_precision fl ?n) (drop (Suc (length ?t)) (c # ds)) xs = Some r"
      using eq digit c by simp
    moreover have "fmt_switch putch memof fl c (padd p 1) ap s =
        Some (Reswitch (process_precision fl ?n) (padd p (int (Suc (length ?t)))) ap)"
      using digit c width_field_cstr [OF ds, of 0 c] by (simp add: fmt_switch_def)
    moreover have "Suc (length ?t) \<le> Suc (length ds)" by (simp add: length_takeWhile_le)
    ultimately show ?thesis using assms(4) by blast
  next
    case star
    with eq obtain w xs1 where xs: "xs = SInt w # xs1" "parse_esc (process_precision fl (sint w)) ds xs1 = Some r"
      by (auto simp: is_digit_def split: list.splits sarg.splits)
    with assms(4) obtain ap1 where "va_int ap = Some (w, ap1)" "args_ok (memof s) readable ap1 xs1"
      using va_int_sarg [of "memof s" readable ap xs w xs1] by auto
    with star xs(2) show ?thesis
      by (intro exI [of _ "process_precision fl (sint w)"] exI [of _ 1] exI [of _ ap1] exI [of _ xs1])
        (auto simp: fmt_switch_def is_digit_def)
  next
    case other
    then have "\<exists>f. parse_esc f (drop 1 (c # ds)) xs = Some r \<and>
        fmt_switch putch memof fl c (padd p 1) ap s = Some (Reswitch f (padd p (int 1)) ap)"
      using eq by (auto simp: fmt_switch_def is_digit_def)
    moreover have "0 < (1 :: nat)" "1 \<le> Suc (length ds)" by simp_all
    ultimately show ?thesis using assms(4) by blast
  qed
qed

lemma loop_parse_esc:
  assumes "parse_esc fl cs xs = Some (fl', cs', xs')"
    and "cstr (memof s) p cs" "args_ok (memof s) readable ap xs"
  shows "\<exists>ap'. args_ok (memof s) readable ap' xs' \<and>
    vprintfmt_loop (dev putch memof) (Some fl) p ap s =
    vprintfmt_loop (dev putch memof) (Some fl') (padd p (int (length cs) - int (length cs'))) ap' s"
  using assms
proof (induction "length cs" arbitrary: fl cs xs p ap rule: less_induct)
  case less
  show ?case
  proof (cases "cs = [] \<or> \<not> is_flag (hd cs)")
    case True
    with less.prems(1) have "fl' = fl" "cs' = cs" "xs' = xs"
      by (cases cs; simp add: parse_esc_nonflag parse_esc.simps(1))+
    with less.prems(3) show ?thesis by auto
  next
    case False
    then obtain c ds where cs: "cs = c # ds" and flag: "is_flag c" by (cases cs) auto
    obtain fl1 k ap1 xs1 where sw: "fmt_switch putch memof fl c (padd p 1) ap s = Some (Reswitch fl1 (padd p (int k)) ap1)"
      and k: "parse_esc fl1 (drop k cs) xs1 = Some (fl', cs', xs')" "0 < k" "k \<le> length cs" "args_ok (memof s) readable ap1 xs1"
      using switch_flag [OF flag less.prems(1,2) [unfolded cs] less.prems(3)] unfolding cs by auto
    have "cstr (memof s) (padd p (int k)) (drop k cs)"
      using cstr_drop [of _ p "take k cs" "drop k cs"] less.prems(2) k(3) by (simp add: min_absorb2)
    then have "\<exists>ap'. args_ok (memof s) readable ap' xs' \<and>
      vprintfmt_loop (dev putch memof) (Some fl1) (padd p (int k)) ap1 s =
      vprintfmt_loop (dev putch memof) (Some fl') (padd (padd p (int k)) (int (length (drop k cs)) - int (length cs'))) ap' s"
      using k cs by (intro less.hyps) simp_all
    moreover have "vprintfmt_loop (dev putch memof) (Some fl) p ap s =
        vprintfmt_loop (dev putch memof) (Some fl1) (padd p (int k)) ap1 s"
      using less.prems(2) cs sw by (subst vprintfmt_loop.simps) simp
    ultimately show ?thesis using k(3) by (simp add: add_diff_eq)
  qed
qed

lemma switch_number:
  assumes "inv s" "flags_ok fl" "- 1073741824 \<le> width fl" "args_ok (memof s) readable ap xs"
    and "sarg_num sgd (lflag fl) xs = Some (n, xs')"
    and "(k, b, sgd) \<in> {(100, 10, True), (117, 10, False), (111, 8, False), (120, 16, False)}"
  shows "\<exists>ap'. args_ok (memof s) readable ap' xs' \<and> fmt_switch putch memof fl k p ap s =
    Some (Break p ap' (fold putch (if sgd \<and> sint n < 0 then 45 # show_number fl b (- n) else show_number fl b n) s))"
proof (cases sgd)
  case True
  then have "sarg_num True (lflag fl) xs = Some (n, xs')" using assms(5) by simp
  then obtain ap' where "getint ap (lflag fl) = Some (n, ap')" "args_ok (memof s) readable ap' xs'"
    using getint_sarg [OF assms(4)] by blast
  then show ?thesis
    using True assms(6) printnum_show [OF assms(2,3), of 10 putch]
    by (auto simp: fmt_switch_def is_digit_def)
next
  case False
  then have "sarg_num False (lflag fl) xs = Some (n, xs')" using assms(5) by simp
  then obtain ap' where "getuint ap (lflag fl) = Some (n, ap')" "args_ok (memof s) readable ap' xs'"
    using getuint_sarg [OF assms(4)] by blast
  then show ?thesis
    using False assms(6) printnum_show [OF assms(2,3), of _ putch]
    by (auto simp: fmt_switch_def is_digit_def)
qed

lemma switch_string:
  assumes "inv s" "flags_ok fl" "- 1073741824 \<le> width fl" "args_ok (memof s) readable ap xs"
    and "sarg_str xs = Some (bs, xs')"
  shows "\<exists>ap'. args_ok (memof s) readable ap' xs' \<and> fmt_switch putch memof fl 115 p ap s =
    Some (Break p ap' (fold putch (show_string fl bs) s))"
proof -
  from assms(4,5) obtain x ap' y where ap: "ap = x # ap'" "xs = y # xs'" "arg_ok (memof s) readable x y"
      "args_ok (memof s) readable ap' xs'"
    by (cases xs rule: sarg_str.cases) (auto simp: list_all2_Cons2 split: if_splits)
  have "put_string putch memof fl (to_ptr x) s = Some (fold putch (show_string fl bs) s)"
  proof (cases y)
    case (SInt w)
    with ap assms(5) have w: "to_ptr x = NULL" "bs = bytes ''(null)''" by (auto split: if_splits)
    have "cstr (memof s) (Lit ''(null)'' 0) bs" unfolding w(2) by (rule cstr_Lit) simp
    then show ?thesis
      using w assms(1-3) by (intro put_string_show [where q = "Lit ''(null)'' 0"]) auto
  next
    case (SStr cs)
    with ap assms(5) have "bs = cs" by simp
    with SStr ap show ?thesis
      using assms(1-3) by (intro put_string_show [where q = "to_ptr x"]) auto
  qed
  with ap show ?thesis by (auto simp: fmt_switch_def is_digit_def)
qed

lemma switch_convert:
  assumes "inv s" "flags_ok fl" "args_ok (memof s) readable ap xs" "k \<noteq> 101"
    and "convert fl k xs = Some (Some (out, xs'))"
  shows "\<exists>ap'. args_ok (memof s) readable ap' xs' \<and>
    fmt_switch putch memof fl k p ap s = Some (Break p ap' (fold putch out s))"
proof -
  consider (num) b :: nat and sgd where "(k, b, sgd) \<in> {(100, 10, True), (117, 10, False), (111, 8, False), (120, 16, False)}"
    | (str) "k = 115" | (chr) "k = 99" | (ptr) "k = 112" | (pct) "k = 37"
    using convert_kind [OF assms(5)] assms(4) by blast
  then show ?thesis
  proof cases
    case num
    obtain n where n: "sarg_num sgd (lflag fl) xs = Some (n, xs')" "- 1073741824 \<le> width fl"
      "out = (if sgd \<and> sint n < 0 then 45 # show_number fl b (- n) else show_number fl b n)"
      using convert_number [OF assms(5) num] .
    show ?thesis using switch_number [OF assms(1,2) n(2) assms(3) n(1) num] by (simp add: n(3))
  next
    case str
    with assms(5) obtain bs where "sarg_str xs = Some (bs, xs')" "- 1073741824 \<le> width fl"
        "out = show_string fl bs"
      by (cases "sarg_str xs") (auto simp: convert_def split: if_splits)
    with str show ?thesis using switch_string [OF assms(1,2) _ assms(3)] by simp
  next
    case chr
    with assms(5) obtain w where w: "sarg_int xs = Some (w, xs')" "out = [w]"
      by (cases "sarg_int xs") (auto simp: convert_def)
    obtain ap' where "va_int ap = Some (w, ap')" "args_ok (memof s) readable ap' xs'"
      using va_int_sarg [OF assms(3) w(1)] .
    with chr w show ?thesis by (auto simp: fmt_switch_def is_digit_def)
  next
    case ptr
    with assms(5) obtain w where w: "sarg_int xs = Some (w, xs')" "- 1073741824 \<le> width fl"
        "out = [48, 120] @ show_number fl 16 (ucast w)"
      by (cases "sarg_int xs") (auto simp: convert_def split: if_splits)
    obtain ap' where "va_int ap = Some (w, ap')" "args_ok (memof s) readable ap' xs'"
      using va_int_sarg [OF assms(3) w(1)] .
    with ptr w printnum_show [OF assms(2) w(2), of 16 putch] show ?thesis
      by (auto simp: fmt_switch_def is_digit_def)
  next
    case pct
    with assms(3,5) show ?thesis by (auto simp: fmt_switch_def is_digit_def convert_def)
  qed
qed

text \<open>Running the loop over text, over one conversion, and to the end of the format.\<close>

lemma loop_end: "rdb (memof s) p = Some 0 \<Longrightarrow> vprintfmt_loop (dev putch memof) None p ap s = Some s"
  by (subst vprintfmt_loop.simps) simp

lemma loop_escape:
  "rdb (memof s) p = Some 37 \<Longrightarrow> vprintfmt_loop (dev putch memof) None p ap s =
     vprintfmt_loop (dev putch memof) (Some init_flags) (padd p 1) ap s"
  by (subst vprintfmt_loop.simps) simp

lemma loop_char:
  "rdb (memof s) p = Some c \<Longrightarrow> c \<noteq> 37 \<Longrightarrow> c \<noteq> 0 \<Longrightarrow> vprintfmt_loop (dev putch memof) None p ap s =
     vprintfmt_loop (dev putch memof) None (padd p 1) ap (putch (ucast c) s)"
  by (subst vprintfmt_loop.simps) simp

lemma loop_break:
  assumes "rdb (memof s) p = Some k" "fmt_switch putch memof fl k (padd p 1) ap s = Some (Break p' ap' s')"
  shows "vprintfmt_loop (dev putch memof) (Some fl) p ap s = vprintfmt_loop (dev putch memof) None p' ap' s'"
  using assms by (subst vprintfmt_loop.simps) simp

lemma loop_text_lit:
  "CHR 0x00 \<notin> set l \<Longrightarrow> CHR ''%'' \<notin> set t \<Longrightarrow> l = u @ t @ v \<Longrightarrow>
   vprintfmt_loop (dev putch memof) None (Lit l (int (length u))) ap s =
   vprintfmt_loop (dev putch memof) None (Lit l (int (length u + length t))) ap
     (fold putch (map ucast (bytes t)) s)"
proof (induction t arbitrary: u s)
  case (Cons c t)
  have "rdb (memof s) (Lit l (int (length u))) = Some (of_char c)"
    using Cons.prems(3) by (simp add: nth_append)
  moreover have "of_char c \<noteq> (0 :: u8)" using Cons.prems(1,3) by (auto simp: of_char_eq_0_iff_u8)
  moreover have "of_char c \<noteq> (37 :: u8)" using Cons.prems(2) by (auto simp: of_char_eq_37_iff_u8)
  ultimately have "vprintfmt_loop (dev putch memof) None (Lit l (int (length u))) ap s =
      vprintfmt_loop (dev putch memof) None (Lit l (int (length (u @ [c])))) ap (putch (ucast (of_char c :: u8)) s)"
    by (simp add: loop_char add.commute)
  with Cons.IH [of "u @ [c]"] Cons.prems show ?case by (simp add: bytes_def add.commute)
qed (simp add: bytes_def)

lemma loop_error_number:
  assumes "inv s" "0 \<le> e" "e < 2147483648"
  shows "vprintfmt_loop (dev putch memof) None (Lit ''error %d'' 0) [Word (of_int e)] s =
    Some (fold putch (map ucast (bytes ''error '') @ map hexchar (digits 10 (nat e))) s)"
proof -
  let ?s = "fold putch (map ucast (bytes ''error '')) s"
  have sh: "show_number init_flags 10 (scast (of_int e :: u32)) = map hexchar (digits 10 (nat e))"
    using of_int_small_u32 [OF assms(2,3)] by (simp add: show_number_def Let_def init_flags_def)
  have n: "sarg_num True (lflag init_flags) [SInt (of_int e)] = Some (scast (of_int e :: u32), [])"
    by (simp add: sarg_num_def init_flags_def)
  have i: "inv ?s" using assms(1) by (rule inv_fold)
  have a: "args_ok (memof ?s) readable [Word (of_int e)] [SInt (of_int e)]" by simp
  have w: "- 1073741824 \<le> width init_flags" by (simp add: init_flags_def)
  have "fmt_switch putch memof init_flags 100 (Lit ''error %d'' 8) [Word (of_int e)] ?s =
      Some (Break (Lit ''error %d'' 8) [] (fold putch (map hexchar (digits 10 (nat e))) ?s))"
    using switch_number [OF i flags_ok_init w a n, of 100 10 "Lit ''error %d'' 8"]
      assms(2) of_int_small_u32(2) [OF assms(2,3)] by (auto simp: sh)
  then have c: "vprintfmt_loop (dev putch memof) (Some init_flags) (Lit ''error %d'' 7) [Word (of_int e)] ?s =
      vprintfmt_loop (dev putch memof) None (Lit ''error %d'' 8) [] (fold putch (map hexchar (digits 10 (nat e))) ?s)"
    by (intro loop_break [where k = 100]) simp_all
  have z: "CHR 0x00 \<notin> set ''error %d''" and p6: "CHR ''%'' \<notin> set ''error ''"
    and split: "''error %d'' = [] @ ''error '' @ ''%d''"
    and e0: "int (length ([] :: string)) = 0" and e6: "int (length ([] :: string) + length ''error '') = 6"
    by simp_all
  have "vprintfmt_loop (dev putch memof) None (Lit ''error %d'' 0) [Word (of_int e)] s =
      vprintfmt_loop (dev putch memof) None (Lit ''error %d'' 6) [Word (of_int e)] ?s"
    using loop_text_lit [of "''error %d''" "''error ''" "[]" "''%d''" "[Word (of_int e)]" s, OF z p6 split]
    by (simp only: e0 e6)
  also have "\<dots> = vprintfmt_loop (dev putch memof) (Some init_flags) (padd (Lit ''error %d'' 6) 1) [Word (of_int e)] ?s"
    by (rule loop_escape) simp
  also have "padd (Lit ''error %d'' 6) 1 = Lit ''error %d'' 7" by simp
  also note c
  also have "vprintfmt_loop (dev putch memof) None (Lit ''error %d'' 8) [] (fold putch (map hexchar (digits 10 (nat e))) ?s) =
      Some (fold putch (map hexchar (digits 10 (nat e))) ?s)"
    by (rule loop_end) simp
  finally show ?thesis by (simp only: fold_append comp_apply)
qed

lemma loop_error_text:
  assumes "inv s" "error_string x = Some l"
  shows "vprintfmt_loop (dev putch memof) None (Lit ''%s'' 0) [Ptr (Lit l 0)] s =
    Some (fold putch (map ucast (bytes l)) s)"
proof -
  note l = error_string_small [OF assms(2)]
  have "cstr (memof s) (Lit l 0) (bytes l)" using l by (intro cstr_Lit) simp
  then have "args_ok (memof s) readable [Ptr (Lit l 0)] [SStr (bytes l)]" using l by simp
  from switch_string [OF assms(1) flags_ok_init _ this, of "bytes l" "[]" "Lit ''%s'' 2"]
  have "fmt_switch putch memof init_flags 115 (Lit ''%s'' 2) [Ptr (Lit l 0)] s =
      Some (Break (Lit ''%s'' 2) [] (fold putch (show_string init_flags (bytes l)) s))"
    by (auto simp: init_flags_def)
  moreover have "show_string init_flags (bytes l) = map ucast (bytes l)"
    using l by (simp add: show_string_def init_flags_def)
  ultimately have "vprintfmt_loop (dev putch memof) (Some init_flags) (Lit ''%s'' 1) [Ptr (Lit l 0)] s =
      vprintfmt_loop (dev putch memof) None (Lit ''%s'' 2) [] (fold putch (map ucast (bytes l)) s)"
    by (intro loop_break [where k = 115]) simp_all
  moreover have "vprintfmt_loop (dev putch memof) None (Lit ''%s'' 0) [Ptr (Lit l 0)] s =
      vprintfmt_loop (dev putch memof) (Some init_flags) (Lit ''%s'' 1) [Ptr (Lit l 0)] s"
    by (subst loop_escape) simp_all
  ultimately show ?thesis by (simp add: loop_end)
qed

lemma loop_error:
  assumes "inv s" "args_ok (memof s) readable ap xs" "convert fl 101 xs = Some (Some (out, xs'))"
    and "rdb (memof s) p = Some 101"
  shows "\<exists>ap'. args_ok (memof s) readable ap' xs' \<and> vprintfmt_loop (dev putch memof) (Some fl) p ap s =
    vprintfmt_loop (dev putch memof) None (padd p 1) ap' (fold putch out s)"
proof -
  from assms(3) obtain w where w: "sarg_int xs = Some (w, xs')" "show_error w = Some out"
    by (cases "sarg_int xs") (auto simp: convert_def split: bind_splits)
  obtain ap' where ap: "va_int ap = Some (w, ap')" "args_ok (memof s) readable ap' xs'"
    using va_int_sarg [OF assms(2) w(1)] .
  have "\<exists>f args. err_switch w = Some (f, args) \<and>
      vprintfmt_loop (dev putch memof) None f args s = Some (fold putch out s)"
    using w(2)
  proof (cases rule: err_switch_cases)
    case (msg l)
    then show ?thesis using loop_error_text [OF assms(1) msg(1)] by simp
  next
    case number
    then show ?thesis using loop_error_number [OF assms(1) number(1,2)] by simp
  qed
  then obtain f args where f: "err_switch w = Some (f, args)"
      "vprintfmt_loop (dev putch memof) None f args s = Some (fold putch out s)" by blast
  then have "fmt_switch putch memof fl 101 (padd p 1) ap s = Some (Printfmt f args (padd p 1) ap')"
    using ap by (simp add: fmt_switch_def is_digit_def)
  then have "vprintfmt_loop (dev putch memof) (Some fl) p ap s =
      vprintfmt_loop (dev putch memof) None (padd p 1) ap' (fold putch out s)"
    using assms(4) f(2) by (subst vprintfmt_loop.simps) simp
  with ap show ?thesis by blast
qed

lemma readable_str_fold:
  "inv s \<Longrightarrow> readable_str (memof s) readable p f \<Longrightarrow> readable_str (memof (fold putch cs s)) readable p f"
  by (erule readable_str_cong) (rule mem_fold)

lemma loop_convert:
  assumes "inv s" "args_ok (memof s) readable ap xs" "convert fl k xs = Some (Some (out, xs'))"
    and "flags_ok fl" "rdb (memof s) p = Some k"
  shows "\<exists>ap'. args_ok (memof (fold putch out s)) readable ap' xs' \<and>
    vprintfmt_loop (dev putch memof) (Some fl) p ap s =
    vprintfmt_loop (dev putch memof) None (padd p 1) ap' (fold putch out s)"
proof (cases "k = 101")
  case True
  with assms show ?thesis using loop_error by (blast intro: args_fold)
next
  case False
  with assms show ?thesis using switch_convert [of s fl ap xs k out xs' "padd p 1"] loop_break
    by (blast intro: args_fold)
qed

lemma loop_default:
  assumes "inv s" "readable_str (memof s) readable p (37 # pre @ cs)" "37 \<notin> set pre"
    and "cs = [] \<or> \<not> is_flag (hd cs) \<and> convert fl (hd cs) xs = None"
  shows "vprintfmt_loop (dev putch memof) (Some fl) (padd (padd p 1) (int (length pre))) ap s =
    vprintfmt_loop (dev putch memof) None (padd p 1) ap (putch 37 s)"
proof -
  let ?q = "padd p 1" and ?s = "putch 37 s"
  have r: "readable_str (memof s) readable ?q (pre @ cs)" using assms(2) by (auto dest: readable_str_Cons)
  define k where "k = (if cs = [] then 0 else hd cs)"
  have k: "rdb (memof s) (padd ?q (int (length pre))) = Some k"
    using cstr_drop [OF readable_str_cstr [OF r]] by (cases cs) (simp_all add: k_def)
  have "\<not> is_flag k" "convert fl k xs = None"
    using assms(4) by (auto simp: k_def is_flag_def is_digit_def convert_def Let_def split: if_splits)
  note switch = fmt_switch_default [OF this, of putch memof "padd (padd ?q (int (length pre))) 1" ap s]
  have m: "memof ?s a = memof s a" if "readable a" for a using mem_putch [OF assms(1) that] .
  have rs: "readable_str (memof ?s) readable p (37 # pre @ cs)" using assms(2) m by (rule readable_str_cong)
  then have qs: "cstr (memof ?s) ?q (pre @ cs)" by (auto dest!: readable_str_Cons intro: readable_str_cstr)
  have "rewind_fmt (memof ?s) (padd ?q (int (length pre))) = Some ?q"
  proof (rule rewind_fmt_cstr)
    show "rdb (memof ?s) (padd ?q (- 1)) = Some 37" using rs by (auto dest: readable_str_Cons)
    show "\<exists>c. rdb (memof ?s) (padd ?q (int i)) = Some c \<and> c \<noteq> 37" if "i < length pre" for i
      using that qs assms(3) nth_mem [OF that] by (metis cstr_append)
  qed
  then have "fmt_switch putch memof fl k (padd (padd ?q (int (length pre))) 1) ap s = Some (Break ?q ap ?s)"
    using switch by simp
  with k show ?thesis by (rule loop_break)
qed

lemma loop_flags:
  assumes "parse_esc init_flags cs xs = Some (fl, cs', xs')" "readable_str (memof s) readable p (37 # cs)"
    and "args_ok (memof s) readable ap xs"
  shows "\<exists>pre ap'. cs = pre @ cs' \<and> 37 \<notin> set pre \<and> args_ok (memof s) readable ap' xs' \<and>
    vprintfmt_loop (dev putch memof) None p ap s =
    vprintfmt_loop (dev putch memof) (Some fl) (padd (padd p 1) (int (length pre))) ap' s"
proof -
  note rd = readable_str_Cons [OF assms(2)]
  obtain pre where pre: "cs = pre @ cs'" "37 \<notin> set pre" using parse_esc_prefix [OF assms(1)] by blast
  have "cstr (memof s) (padd p 1) cs" using rd readable_str_cstr by blast
  from loop_parse_esc [OF assms(1) this assms(3)] obtain ap' where "args_ok (memof s) readable ap' xs'"
    "vprintfmt_loop (dev putch memof) (Some init_flags) (padd p 1) ap s =
     vprintfmt_loop (dev putch memof) (Some fl) (padd (padd p 1) (int (length pre))) ap' s"
    using pre by auto
  then show ?thesis using pre rd by (auto simp: loop_escape)
qed

lemma render_escape_cases:
  assumes "render (37 # cs) xs = Some out" "parse_esc init_flags cs xs = Some (fl, cs', xs')"
  obtains (conv) k rest o1 xs2 r where "cs' = k # rest" "convert fl k xs' = Some (Some (o1, xs2))"
      "render rest xs2 = Some r" "out = o1 @ r"
    | (default) r where "cs' = [] \<or> \<not> is_flag (hd cs') \<and> convert fl (hd cs') xs' = None"
      "render cs xs' = Some r" "out = 37 # r"
  using assms parse_esc_stop [of init_flags cs xs fl _ _ xs']
  by (auto simp: render.simps split: option.splits list.splits)

theorem vprintfmt_loop_render:
  assumes "render f xs = Some out" "inv s" "readable_str (memof s) readable p f"
    and "args_ok (memof s) readable ap xs"
  shows "vprintfmt_loop (dev putch memof) None p ap s = Some (fold putch out s)"
  using assms
proof (induction "length f" arbitrary: f xs out p ap s rule: less_induct)
  case less
  consider "f = []" | (plain) c cs where "f = c # cs" "c \<noteq> 37" | (escape) cs where "f = 37 # cs" by (cases f) auto
  then show ?case
  proof cases
    case 1
    with less.prems show ?thesis by (simp add: render.simps loop_end readable_str_def)
  next
    case plain
    note rd = readable_str_Cons [OF less.prems(3) [unfolded plain]]
    obtain r where r: "render cs xs = Some r" "out = ucast c # r" using less.prems(1) plain by (auto simp: render.simps)
    have "vprintfmt_loop (dev putch memof) None (padd p 1) ap (fold putch [ucast c] s) =
        Some (fold putch r (fold putch [ucast c] s))"
      using plain less.prems(2,4) rd by (intro less.hyps [OF _ r(1)] inv_fold readable_str_fold args_fold) simp_all
    with plain(2) rd r show ?thesis by (simp add: loop_char)
  next
    case escape
    note rd = readable_str_Cons [OF less.prems(3) [unfolded escape]]
    obtain fl cs' xs' where pe: "parse_esc init_flags cs xs = Some (fl, cs', xs')"
      using less.prems(1) escape by (auto simp: render.simps split: option.splits)
    from loop_flags [OF pe less.prems(3) [unfolded escape] less.prems(4)] obtain pre ap'
      where pre: "cs = pre @ cs'" "37 \<notin> set pre" and ap': "args_ok (memof s) readable ap' xs'"
      and run: "vprintfmt_loop (dev putch memof) None p ap s =
        vprintfmt_loop (dev putch memof) (Some fl) (padd (padd p 1) (int (length pre))) ap' s"
      by blast
    from less.prems(1) [unfolded escape] pe show ?thesis
    proof (cases rule: render_escape_cases)
      case (default r)
      have "vprintfmt_loop (dev putch memof) None (padd p 1) ap' (fold putch [37] s) = Some (fold putch r (fold putch [37] s))"
        using escape less.prems(2) ap' rd
        by (intro less.hyps [OF _ default(2)] inv_fold readable_str_fold args_fold) simp_all
      moreover have "readable_str (memof s) readable p (37 # pre @ cs')" using less.prems(3) escape pre(1) by simp
      ultimately show ?thesis using run loop_default [OF less.prems(2) _ pre(2) default(1)] default(3) by simp
    next
      case (conv k rest o1 xs2 r)
      let ?q = "padd (padd p 1) (int (length pre))"
      have "readable_str (memof s) readable ?q (k # rest)"
        using rd conv(1) pre(1) readable_str_drop [of _ _ "padd p 1" pre "k # rest"] by simp
      note q = readable_str_Cons [OF this]
      have fl: "flags_ok fl" using parse_esc_flags_ok [OF pe] by simp
      obtain ap2 where ap2: "args_ok (memof (fold putch o1 s)) readable ap2 xs2"
        "vprintfmt_loop (dev putch memof) (Some fl) ?q ap' s = vprintfmt_loop (dev putch memof) None (padd ?q 1) ap2 (fold putch o1 s)"
        using loop_convert [OF less.prems(2) ap' conv(2) fl] q by blast
      have "vprintfmt_loop (dev putch memof) None (padd ?q 1) ap2 (fold putch o1 s) = Some (fold putch r (fold putch o1 s))"
        using escape pre(1) conv(1) less.prems(2) ap2(1) q
        by (intro less.hyps [OF _ conv(3)] inv_fold readable_str_fold) auto
      with run ap2(2) conv(4) show ?thesis by simp
    qed
  qed
qed

end

end
