(* ===== verification/JosCallback.thy ===== *)
theory JosCallback
  imports JosPrintfmt
begin

text \<open>
  What the formatter of \<^verbatim>\<open>src/lib/printfmt.c\<close> does for a format of which nothing is known: its
  only effect is a sequence of calls of the callback. The lemmas hold for malformed formats
  and wrong arguments as well, where \<open>render\<close> of \<open>JosFormat\<close> has no value.
\<close>

section \<open>Sequences of calls\<close>

definition calls :: "(u32 \<Rightarrow> 's \<Rightarrow> 's) \<Rightarrow> 's \<Rightarrow> 's \<Rightarrow> bool" where
  "calls putch s t \<longleftrightarrow> (\<exists>cs. t = fold putch cs s)"

named_theorems call_intros \<open>how sequences of calls are put together\<close>

lemma calls_refl [call_intros]: "calls putch s s"
  unfolding calls_def by (rule exI [of _ "[]"]) simp

lemma calls_step: "calls putch (putch c s) t \<Longrightarrow> calls putch s t"
  unfolding calls_def by (metis fold_simps(2))

lemma calls_trans: "calls putch s t \<Longrightarrow> calls putch t u \<Longrightarrow> calls putch s u"
  unfolding calls_def by (metis comp_apply fold_append)

lemma calls_snoc [call_intros]: "calls putch s t \<Longrightarrow> calls putch s (putch c t)"
  by (erule calls_trans) (rule calls_step, rule calls_refl)

lemma calls_put_many [call_intros]: "calls putch s t \<Longrightarrow> calls putch s (put_many putch c n t)"
  by (induction n arbitrary: t) (simp_all add: calls_snoc)

section \<open>The parts of the formatter\<close>

lemma printnum_calls: "printnum putch num base wid pad s = Some t \<Longrightarrow> calls putch s t"
proof (erule printnum.raw_induct [where P = "\<lambda>putch num base wid pad s t. calls putch s t", rotated])
  fix rec :: "(u32 \<Rightarrow> 's \<Rightarrow> 's) \<Rightarrow> u64 \<Rightarrow> u32 \<Rightarrow> int \<Rightarrow> u32 \<Rightarrow> 's \<Rightarrow> 's option" and putch num base wid pad s t
  assume IH: "\<And>putch num base wid pad s t. rec putch num base wid pad s = Some t \<Longrightarrow> calls putch s t"
    and "do { s \<leftarrow> (if num \<ge> ucast base then if base = 0 then None
                 else rec putch (num div ucast base) base (wrap32 (wid - 1)) pad s
               else Some (put_many putch pad (nat (wrap32 (wid - 1))) s));
          d \<leftarrow> hex_digit (num mod ucast base);
          Some (putch d s) } = Some t"
  then show "calls putch s t"
    by (auto simp: bind_eq_Some_conv intro!: call_intros dest: IH split: if_splits)
qed

lemma put_chars_calls: "put_chars putch memof p prec wid alt s = Some r \<Longrightarrow> calls putch s (snd r)"
proof (erule put_chars.raw_induct [where P = "\<lambda>putch memof p prec wid alt s r. calls putch s (snd r)", rotated])
  fix rec :: "(u32 \<Rightarrow> 's \<Rightarrow> 's) \<Rightarrow> ('s \<Rightarrow> mem) \<Rightarrow> cptr \<Rightarrow> int \<Rightarrow> int \<Rightarrow> bool \<Rightarrow> 's \<Rightarrow> (int \<times> 's) option"
    and putch memof p prec wid alt s r
  assume IH: "\<And>putch memof p prec wid alt s r. rec putch memof p prec wid alt s = Some r \<Longrightarrow> calls putch s (snd r)"
    and "do { c \<leftarrow> rdb (memof s) p;
          let ch = (scast c :: u32);
          if ch \<noteq> 0 \<and> (prec < 0 \<or> prec - 1 \<ge> 0) then
            rec putch memof (padd p 1) (if prec < 0 then prec else prec - 1)
              (wrap32 (wid - 1)) alt
              (putch (if alt \<and> (sint ch < 32 \<or> sint ch > 126) then 63 else ch) s)
          else Some (wid, s) } = Some r"
  then show "calls putch s (snd r)"
    unfolding Let_def by (auto simp: bind_eq_Some_conv calls_refl split: if_splits intro: calls_step dest!: IH)
qed

lemma put_string_calls: "put_string putch memof fl p s = Some t \<Longrightarrow> calls putch s t"
  unfolding put_string_def Let_def
  by (auto simp: bind_eq_Some_conv split: if_splits
      intro!: calls_put_many dest!: put_chars_calls intro: calls_trans [OF calls_put_many [OF calls_refl]])

lemma fmt_switch_calls: "fmt_switch putch memof fl ch fmt ap s = Some (Break f args t) \<Longrightarrow> calls putch s t"
  unfolding fmt_switch_def Let_def
  by (auto simp: bind_eq_Some_conv split: if_splits
      intro!: call_intros dest!: put_string_calls printnum_calls intro: calls_step)

text \<open>The formatter as a whole.\<close>

lemma vprintfmt_loop_calls: "vprintfmt_loop pr mode fmt ap s = Some t \<Longrightarrow> calls (out_putch pr) s t"
proof (erule vprintfmt_loop.raw_induct [where P = "\<lambda>pr mode fmt ap s t. calls (out_putch pr) s t", rotated])
  fix rec :: "'s out_dev \<Rightarrow> fmt_flags option \<Rightarrow> cptr \<Rightarrow> slot list \<Rightarrow> 's \<Rightarrow> 's option" and pr mode fmt ap s t
  assume IH: "\<And>pr mode fmt ap s t. rec pr mode fmt ap s = Some t \<Longrightarrow> calls (out_putch pr) s t"
    and run: "do { ch \<leftarrow> rdb (out_mem pr s) fmt;
          case mode of
            None \<Rightarrow>
              if ch = 37 then rec pr (Some init_flags) (padd fmt 1) ap s
              else if ch = 0 then Some s
              else rec pr None (padd fmt 1) ap (out_putch pr (ucast ch) s)
          | Some fl \<Rightarrow>
              do { r \<leftarrow> fmt_switch (out_putch pr) (out_mem pr) fl ch (padd fmt 1) ap s;
                   case r of
                     Reswitch fl' fmt' ap' \<Rightarrow> rec pr (Some fl') fmt' ap' s
                   | Break fmt' ap' s' \<Rightarrow> rec pr None fmt' ap' s'
                   | Printfmt f args fmt' ap' \<Rightarrow>
                       do { s' \<leftarrow> rec pr None f args s;
                            rec pr None fmt' ap' s' } } } = Some t"
  show "calls (out_putch pr) s t"
  proof (cases mode)
    case None
    with run show ?thesis by (auto simp: bind_eq_Some_conv calls_refl split: if_splits intro: calls_step dest!: IH)
  next
    case (Some fl)
    with run obtain ch r where "fmt_switch (out_putch pr) (out_mem pr) fl ch (padd fmt 1) ap s = Some r"
      "(case r of
                     Reswitch fl' fmt' ap' \<Rightarrow> rec pr (Some fl') fmt' ap' s
                   | Break fmt' ap' s' \<Rightarrow> rec pr None fmt' ap' s'
                   | Printfmt f args fmt' ap' \<Rightarrow>
                       do { s' \<leftarrow> rec pr None f args s;
                            rec pr None fmt' ap' s' }) = Some t"
      by (auto simp: bind_eq_Some_conv)
    then show ?thesis
      by (cases r) (auto simp: bind_eq_Some_conv dest!: IH fmt_switch_calls intro: calls_trans)
  qed
qed

lemma vprintfmt_calls:
  assumes "vprintfmt putch memof fmt ap s = Some t"
  obtains cs where "t = fold putch cs s"
  using vprintfmt_loop_calls [OF assms [unfolded vprintfmt_def]] by (auto simp: calls_def)

end
