(* ===== verification/JosSnprintf.thy ===== *)
theory JosSnprintf
  imports JosPrinter JosCallback
begin

text \<open>
  Correctness of \<^verbatim>\<open>vsnprintf\<close> of \<^verbatim>\<open>src/lib/printfmt.c\<close>: \<^verbatim>\<open>sprintputch\<close> is an
  instance of the printer interface of \<open>JosPrinter\<close>, so a formatted string ends up in the
  buffer, truncated to the size given and terminated by NUL, and the number of characters
  the whole output has is returned.
\<close>

section \<open>The output buffer as a printer\<close>

definition sp_inv :: "u32 \<Rightarrow> nat \<Rightarrow> sprintbuf \<Rightarrow> bool" where
  "sp_inv lo k b \<longleftrightarrow> unat lo + k < 4294967296 \<and> sp_ebuf b = lo + of_nat k
     \<and> (\<exists>j \<le> k. sp_buf b = lo + of_nat j)"

lemma unat_add_nowrap: "unat (lo :: u32) + j < 4294967296 \<Longrightarrow> unat (lo + of_nat j) = unat lo + j"
  by (simp add: unat_word_ariths unat_of_nat)

lemma buffer_less_iff:
  "unat (lo :: u32) + k < 4294967296 \<Longrightarrow> j \<le> k \<Longrightarrow> (lo + of_nat j < lo + of_nat k) = (j < k)"
  by (simp add: word_less_nat_alt unat_add_nowrap)

lemma sprintputch_at:
  assumes "unat lo + k < 4294967296" "sp_ebuf b = lo + of_nat k" "sp_buf b = lo + of_nat j" "j \<le> k"
  shows "sprintputch c b =
    (if j < k then b\<lparr>sp_cnt := wrap32 (sp_cnt b + 1), sp_mem := (sp_mem b)(lo + of_nat j := ucast c),
         sp_buf := lo + of_nat (Suc j)\<rparr>
     else b\<lparr>sp_cnt := wrap32 (sp_cnt b + 1)\<rparr>)"
  using assms buffer_less_iff [OF assms(1,4)] by (simp add: sprintputch_def Let_def add.assoc add.commute)

interpretation sp: printer sprintputch sp_mem "sp_inv lo k" "\<lambda>a. \<not> in_region lo k a" for lo k
proof
  fix b c
  assume "sp_inv lo k b"
  then obtain j where b: "unat lo + k < 4294967296" "sp_ebuf b = lo + of_nat k"
      "sp_buf b = lo + of_nat j" "j \<le> k" by (auto simp: sp_inv_def)
  note step = sprintputch_at [OF b]
  show "sp_inv lo k (sprintputch c b)"
  proof (cases "j < k")
    case True
    then show ?thesis using b by (simp add: step sp_inv_def del: of_nat_Suc) (use Suc_leI in blast)
  qed (use b in \<open>auto simp: step sp_inv_def\<close>)
  show "sp_mem (sprintputch c b) a = sp_mem b a" if "\<not> in_region lo k a" for a
    using that b in_region_offset [of j lo k] by (auto simp: step)
qed

text \<open>What a sequence of characters leaves in the buffer.\<close>

lemma sprintputch_fold:
  assumes "unat lo + k < 4294967296" "sp_ebuf b = lo + of_nat k" "sp_buf b = lo + of_nat j" "j \<le> k"
    and "sp_cnt b = wrap32 c"
  shows "fold sprintputch out b =
    b\<lparr>sp_mem := put_bytes (sp_mem b) (lo + of_nat j) (map ucast (take (k - j) out)),
      sp_buf := lo + of_nat (min k (j + length out)), sp_cnt := wrap32 (c + int (length out))\<rparr>"
  using assms
proof (induction out arbitrary: b j c)
  case (Cons ch out)
  have cnt: "wrap32 (wrap32 c + 1) = wrap32 (c + 1)"
    using signed_take_bit_add [of 31 c 1] by (simp add: wrap32_def)
  note step = sprintputch_at [OF Cons.prems(1-4), of ch]
  show ?case
  proof (cases "j < k")
    case True
    let ?b = "b\<lparr>sp_cnt := wrap32 (c + 1), sp_mem := (sp_mem b)(lo + of_nat j := ucast ch),
        sp_buf := lo + of_nat (Suc j)\<rparr>"
    have kj: "k - j = Suc (k - Suc j)" using True by simp
    have "sprintputch ch b = ?b" using True Cons.prems(5) by (simp only: step cnt if_True)
    moreover have "fold sprintputch out ?b =
        ?b\<lparr>sp_mem := put_bytes (sp_mem ?b) (lo + of_nat (Suc j)) (map ucast (take (k - Suc j) out)),
          sp_buf := lo + of_nat (min k (Suc j + length out)), sp_cnt := wrap32 (c + 1 + int (length out))\<rparr>"
      using True Cons.prems by (intro Cons.IH) simp_all
    ultimately show ?thesis by (simp add: kj ac_simps del: fun_upd_apply)
  next
    case False
    let ?b = "b\<lparr>sp_cnt := wrap32 (c + 1)\<rparr>"
    have "sprintputch ch b = ?b" using False Cons.prems(5) by (simp only: step cnt if_False)
    moreover have "fold sprintputch out ?b =
        ?b\<lparr>sp_mem := put_bytes (sp_mem ?b) (lo + of_nat j) (map ucast (take (k - j) out)),
          sp_buf := lo + of_nat (min k (j + length out)), sp_cnt := wrap32 (c + 1 + int (length out))\<rparr>"
      using False Cons.prems by (intro Cons.IH) simp_all
    ultimately show ?thesis using False Cons.prems(4) by (simp add: ac_simps)
  qed
qed simp

section \<open>Formatting into a buffer\<close>

abbreviation buffer_at :: "mem \<Rightarrow> u32 \<Rightarrow> int \<Rightarrow> sprintbuf" where
  "buffer_at m buf n \<equiv> \<lparr>sp_mem = m, sp_buf = buf, sp_ebuf = buf + of_int n - 1, sp_cnt = 0\<rparr>"

lemma vsnprintf_fold:
  assumes "buf \<noteq> 0" "1 \<le> n" "n < 2147483648" "uint buf + n \<le> 4294967296"
    and "vprintfmt sprintputch sp_mem fmt ap (buffer_at m buf n) = Some (fold sprintputch out (buffer_at m buf n))"
  shows "vsnprintf m buf n fmt ap =
    Some (wrap32 (int (length out)), put_bytes m buf (map ucast (take (nat n - 1) out) @ [0]))"
proof -
  define k where "k = nat n - 1"
  have k: "n = int k + 1" using assms(2) by (simp add: k_def)
  have "int (unat buf) = uint buf" by simp
  then have lo: "unat buf + k < 4294967296" using assms(4) k by linarith
  have e: "buf + of_int n - 1 = buf + of_nat k" using k by simp
  have "fold sprintputch out (buffer_at m buf n) =
      (buffer_at m buf n)\<lparr>sp_mem := put_bytes m buf (map ucast (take k out)),
         sp_buf := buf + of_nat (length (map ucast (take k out))), sp_cnt := wrap32 (int (length out))\<rparr>"
    using sprintputch_fold [of buf k "buffer_at m buf n" 0 0 out] lo by (simp add: e wrap32_id min.commute [of k])
  with assms(1,2,5) show ?thesis
    unfolding vsnprintf_def Let_def put_bytes_append k_def [symmetric] by simp
qed

lemma vsnprintf_output:
  assumes "render f xs = Some out" "buf \<noteq> 0" "1 \<le> n" "n < 2147483648" "uint buf + n \<le> 4294967296"
    and "readable_str m (\<lambda>a. \<not> in_region buf (nat n) a) fmt f"
    and "args_ok m (\<lambda>a. \<not> in_region buf (nat n) a) ap xs"
  shows "vsnprintf m buf n fmt ap =
    Some (wrap32 (int (length out)), put_bytes m buf (map ucast (take (nat n - 1) out) @ [0]))"
proof (rule vsnprintf_fold [OF assms(2-5)])
  define k where "k = nat n - 1"
  have k: "n = int k + 1" "nat n = Suc k" using assms(3) by (simp_all add: k_def)
  have "int (unat buf) = uint buf" by simp
  then have "unat buf + k < 4294967296" using assms(5) k by linarith
  then have inv: "sp_inv buf k (buffer_at m buf n)" using k by (auto simp: sp_inv_def)
  have w: "\<not> in_region buf k a" if "\<not> in_region buf (nat n) a" for a
    using that k(2) by (auto intro: in_region_mono)
  have "readable_str (sp_mem (buffer_at m buf n)) (\<lambda>a. \<not> in_region buf k a) fmt f"
    using assms(6) w by (auto simp: readable_str_def)
  moreover have "args_ok (sp_mem (buffer_at m buf n)) (\<lambda>a. \<not> in_region buf k a) ap xs"
    using assms(7)
  proof (rule list_all2_mono)
    show "arg_ok (sp_mem (buffer_at m buf n)) (\<lambda>a. \<not> in_region buf k a) x y"
      if "arg_ok m (\<lambda>a. \<not> in_region buf (nat n) a) x y" for x y
      using that w by (cases y) auto
  qed
  ultimately show "vprintfmt sprintputch sp_mem fmt ap (buffer_at m buf n) = Some (fold sprintputch out (buffer_at m buf n))"
    unfolding vprintfmt_def by (rule sp.vprintfmt_loop_render [OF assms(1) inv])
qed

lemma vsnprintf_rejects: "buf = 0 \<or> n < 1 \<Longrightarrow> vsnprintf m buf n fmt ap = Some (- 3, m)"
  by (simp add: vsnprintf_def E_INVAL_def Let_def)

section \<open>Properties\<close>

text \<open>
  (C2) \<^verbatim>\<open>vsnprintf\<close> formats into its buffer what the format means, for every format and
  every list of arguments that has a meaning: the output truncated to \<open>n - 1\<close> characters and a
  NUL, nothing outside the buffer, and the length of the whole output as result.
\<close>

theorem vsnprintf_correct:
  assumes "render f xs = Some out" "buf \<noteq> 0" "1 \<le> n" "n < 2147483648" "uint buf + n \<le> 4294967296"
    and "readable_str m (\<lambda>a. \<not> in_region buf (nat n) a) fmt f"
    and "args_ok m (\<lambda>a. \<not> in_region buf (nat n) a) ap xs"
  shows "vsnprintf m buf n fmt ap =
    Some (wrap32 (int (length out)), put_bytes m buf (map ucast (take (nat n - 1) out) @ [0]))"
  using assms by (rule vsnprintf_output)

theorem vsnprintf_correct_witness:
  "vsnprintf (\<lambda>_. 0) 0x1000 5 (Lit ''n=%d %s%%'' 0) [Word 42, Ptr (Lit ''ok'' 0)] =
     Some (8, put_bytes (\<lambda>_. 0) 0x1000 (bytes ''n=42'' @ [0]))"
proof -
  have "render (bytes ''n=%d %s%%'') [SInt 42, SStr [111, 107]] = Some (map ucast (bytes ''n=42 ok%''))"
    by code_simp
  moreover have "readable_str (\<lambda>_. 0) (\<lambda>a. \<not> in_region 0x1000 (nat 5) a) (Lit ''n=%d %s%%'' 0) (bytes ''n=%d %s%%'')"
    by (rule readable_str_Lit) simp_all
  moreover have "cstr (\<lambda>_. 0) (Lit ''ok'' 0) [111, 107]"
    using cstr_Lit [of "''ok''" "\<lambda>_. 0"] by (simp add: bytes_def)
  ultimately show ?thesis
    using vsnprintf_correct [of "bytes ''n=%d %s%%''" "[SInt 42, SStr [111, 107]]" "map ucast (bytes ''n=42 ok%'')"
        "0x1000" 5 "\<lambda>_. 0" "Lit ''n=%d %s%%'' 0" "[Word 42, Ptr (Lit ''ok'' 0)]"]
    by (simp add: bytes_def wrap32_id del: put_bytes.simps)
qed

text \<open>
  (C7) Whatever the format and the arguments, malformed ones included, \<^verbatim>\<open>vsnprintf\<close> does not
  overrun its buffer: when it returns, it has written some characters, at most \<open>n - 1\<close>, and a NUL,
  nothing outside the \<open>n\<close> bytes of the buffer, and it returns how many characters there were; a
  null buffer or a size below 1 is refused with \<open>-E_INVAL\<close>.
\<close>

theorem vsnprintf_safe:
  assumes "vsnprintf m buf n fmt ap = Some (r, m')" "n < 2147483648" "uint buf + n \<le> 4294967296"
  shows "if buf = 0 \<or> n < 1 then r = - 3 \<and> m' = m
    else (\<exists>out :: u32 list. r = wrap32 (int (length out)) \<and> m' = put_bytes m buf (map ucast (take (nat n - 1) out) @ [0]))
       \<and> (\<forall>a. \<not> in_region buf (nat n) a \<longrightarrow> m' a = m a)"
proof (cases "buf = 0 \<or> n < 1")
  case True
  with assms(1) vsnprintf_rejects [OF True] show ?thesis by simp
next
  case False
  with assms(1) obtain b where b: "vprintfmt sprintputch sp_mem fmt ap (buffer_at m buf n) = Some b"
    by (auto simp: vsnprintf_def bind_eq_Some_conv)
  then obtain out where "b = fold sprintputch out (buffer_at m buf n)" by (rule vprintfmt_calls)
  then have "vsnprintf m buf n fmt ap =
      Some (wrap32 (int (length out)), put_bytes m buf (map ucast (take (nat n - 1) out) @ [0]))"
    using False assms(2,3) b by (intro vsnprintf_fold) auto
  then have r: "r = wrap32 (int (length out))" "m' = put_bytes m buf (map ucast (take (nat n - 1) out) @ [0])"
    using assms(1) by simp_all
  have "m' a = m a" if "\<not> in_region buf (nat n) a" for a
  proof -
    have "length (map ucast (take (nat n - 1) out) @ [0 :: u8]) \<le> nat n" using False by (simp, arith)
    then show ?thesis unfolding r(2)
      using that assms(2) by (intro put_bytes_outside) (auto dest: in_region_mono)
  qed
  with r show ?thesis unfolding if_not_P [OF False] by blast
qed

theorem vsnprintf_safe_witness:
  "\<exists>m'. vsnprintf (\<lambda>_. 0) 0x1000 3 (Lit ''%y%'' 0) [] = Some (3, m') \<and> (\<forall>a. \<not> in_region 0x1000 3 a \<longrightarrow> m' a = 0)"
proof -
  have "map_option fst (vsnprintf (\<lambda>_. 0) 0x1000 3 (Lit ''%y%'' 0) []) = Some 3" by code_simp
  then obtain m' where m': "vsnprintf (\<lambda>_. 0) 0x1000 3 (Lit ''%y%'' 0) [] = Some (3, m')" by auto
  then show ?thesis using vsnprintf_safe [OF m'] by auto
qed

text \<open>
  (C18) \<^verbatim>\<open>printnum\<close> prints a number as its digits in the base, most significant first and
  without a leading zero, padded on the left to the width.
\<close>

theorem printnum_positional:
  assumes "2 \<le> unat base" "unat base \<le> 16" "- 1073741824 \<le> wid" "wid < 2147483648"
  shows "\<exists>ds. printnum putch num base wid pad s =
      Some (fold putch (replicate (nat (wid - int (length ds))) pad @ map hexchar ds) s)
    \<and> foldl (\<lambda>v d. v * unat base + d) 0 ds = unat num
    \<and> (\<forall>d \<in> set ds. d < unat base) \<and> ds \<noteq> [] \<and> (0 < unat num \<longrightarrow> 0 < hd ds)"
proof -
  have "unat num < 2 ^ 64" using unsigned_less [of num, where ?'a = nat] by simp
  then have "length (digits (unat base) (unat num)) \<le> 64"
    using assms(1) by (intro digits_length) simp_all
  then have "printnum putch num base wid pad s =
      Some (fold putch (replicate (nat (wid - int (length (digits (unat base) (unat num))))) pad
        @ map hexchar (digits (unat base) (unat num))) s)"
    using assms by (intro printnum_digits) simp_all
  then show ?thesis using digits_value digits_less [OF assms(1)] digits_lead [OF assms(1)] by (metis digits_nonempty)
qed

theorem printnum_positional_witness:
  "\<exists>ds. printnum (\<lambda>c s. s @ [c]) 0xBEEF 16 6 48 [] = Some (replicate (6 - length ds) 48 @ map hexchar ds)
    \<and> foldl (\<lambda>v d. v * 16 + d) 0 ds = 0xBEEF \<and> (\<forall>d \<in> set ds. d < 16)"
proof -
  have f: "fold (\<lambda>c s. s @ [c]) cs s = s @ cs" for cs s :: "u32 list" by (induction cs arbitrary: s) simp_all
  have n: "nat (6 - int k) = 6 - k" for k by simp
  show ?thesis
    using printnum_positional [of 16 6 "\<lambda>c s. s @ [c]" "0xBEEF" 48 "[]"] by (auto simp: f n simp del: fold_replicate)
qed

end
