(* ===== verification/JosMachine.thy ===== *)
theory JosMachine
  imports JosPrelude "HOL-Library.Monad_Syntax"
begin

text \<open>
  The machine the kernel runs on, as \<^verbatim>\<open>src/inc/x86.h\<close> sees it: a flat memory, the control
  registers, and the history of port accesses, newest first. What a device answers on a port
  is a function of that history, a parameter of every operation that reads a port. The record
  is extended by the components with their static variables.

  Also here: the rounding macros of \<^verbatim>\<open>src/inc/types.h\<close> and the kernel's base address.
\<close>

unbundle bit_operations_syntax

section \<open>State\<close>

datatype io_event =
    InB u16 u8 | InW u16 u16 | InL u16 u32
  | OutB u16 u8 | OutW u16 u16 | OutL u16 u32
  | Invlpg u32 | Lidt u32 | Lgdt u32 | Lldt u16 | Ltr u16 | LoadCr3 u32

text \<open>
  The devices: what a read of a port returns after a history, whether a colour adapter
  answers at the CGA window (and if not, the word the bus returns there), and the two
  instructions whose result is the processor's own.
\<close>

record devices =
  dev_inb :: "io_event list \<Rightarrow> u16 \<Rightarrow> u8"
  dev_inw :: "io_event list \<Rightarrow> u16 \<Rightarrow> u16"
  dev_inl :: "io_event list \<Rightarrow> u16 \<Rightarrow> u32"
  dev_cga :: "u16 option"
  dev_cpuid :: "u32 \<Rightarrow> u32 \<times> u32 \<times> u32 \<times> u32"
  dev_tsc :: "io_event list \<Rightarrow> u64"

record machine =
  m_mem :: mem
  m_io :: "io_event list"
  m_cr0 :: u32
  m_cr2 :: u32
  m_cr3 :: u32
  m_cr4 :: u32
  m_eflags :: u32
  m_ebp :: u32
  m_esp :: u32

definition log_io :: "io_event \<Rightarrow> 'a machine_scheme \<Rightarrow> 'a machine_scheme" where
  "log_io e s = s\<lparr>m_io := e # m_io s\<rparr>"

section \<open>Port input and output\<close>

definition inb :: "devices \<Rightarrow> u32 \<Rightarrow> 'a machine_scheme \<Rightarrow> u8 \<times> 'a machine_scheme" where
  "inb d port s = (let p = ucast port; v = dev_inb d (m_io s) p in (v, log_io (InB p v) s))"

definition inw :: "devices \<Rightarrow> u32 \<Rightarrow> 'a machine_scheme \<Rightarrow> u16 \<times> 'a machine_scheme" where
  "inw d port s = (let p = ucast port; v = dev_inw d (m_io s) p in (v, log_io (InW p v) s))"

definition inl :: "devices \<Rightarrow> u32 \<Rightarrow> 'a machine_scheme \<Rightarrow> u32 \<times> 'a machine_scheme" where
  "inl d port s = (let p = ucast port; v = dev_inl d (m_io s) p in (v, log_io (InL p v) s))"

definition outb :: "u32 \<Rightarrow> u8 \<Rightarrow> 'a machine_scheme \<Rightarrow> 'a machine_scheme" where
  "outb port data s = log_io (OutB (ucast port) data) s"

definition outw :: "u32 \<Rightarrow> u16 \<Rightarrow> 'a machine_scheme \<Rightarrow> 'a machine_scheme" where
  "outw port data s = log_io (OutW (ucast port) data) s"

definition outl :: "u32 \<Rightarrow> u32 \<Rightarrow> 'a machine_scheme \<Rightarrow> 'a machine_scheme" where
  "outl port data s = log_io (OutL (ucast port) data) s"

text \<open>
  The string instructions, repeated \<^verbatim>\<open>ecx\<close> times with the direction flag cleared. The
  counter is the \<^verbatim>\<open>int\<close> argument in a 32-bit register.
\<close>

primrec rep_insb :: "devices \<Rightarrow> u32 \<Rightarrow> u32 \<Rightarrow> nat \<Rightarrow> 'a machine_scheme \<Rightarrow> 'a machine_scheme" where
  "rep_insb d port addr 0 s = s"
| "rep_insb d port addr (Suc n) s =
     (let (v, s) = inb d port s in
      rep_insb d port (addr + 1) n (s\<lparr>m_mem := (m_mem s)(addr := v)\<rparr>))"

definition insb :: "devices \<Rightarrow> u32 \<Rightarrow> u32 \<Rightarrow> u32 \<Rightarrow> 'a machine_scheme \<Rightarrow> 'a machine_scheme" where
  "insb d port addr cnt s = rep_insb d port addr (unat cnt) s"

primrec rep_insw :: "devices \<Rightarrow> u32 \<Rightarrow> u32 \<Rightarrow> nat \<Rightarrow> 'a machine_scheme \<Rightarrow> 'a machine_scheme" where
  "rep_insw d port addr 0 s = s"
| "rep_insw d port addr (Suc n) s =
     (let (v, s) = inw d port s in
      rep_insw d port (addr + 2) n (s\<lparr>m_mem := st16 (m_mem s) addr v\<rparr>))"

definition insw :: "devices \<Rightarrow> u32 \<Rightarrow> u32 \<Rightarrow> u32 \<Rightarrow> 'a machine_scheme \<Rightarrow> 'a machine_scheme" where
  "insw d port addr cnt s = rep_insw d port addr (unat cnt) s"

primrec rep_insl :: "devices \<Rightarrow> u32 \<Rightarrow> u32 \<Rightarrow> nat \<Rightarrow> 'a machine_scheme \<Rightarrow> 'a machine_scheme" where
  "rep_insl d port addr 0 s = s"
| "rep_insl d port addr (Suc n) s =
     (let (v, s) = inl d port s in
      rep_insl d port (addr + 4) n (s\<lparr>m_mem := st32 (m_mem s) addr v\<rparr>))"

definition insl :: "devices \<Rightarrow> u32 \<Rightarrow> u32 \<Rightarrow> u32 \<Rightarrow> 'a machine_scheme \<Rightarrow> 'a machine_scheme" where
  "insl d port addr cnt s = rep_insl d port addr (unat cnt) s"

primrec rep_outsb :: "u32 \<Rightarrow> u32 \<Rightarrow> nat \<Rightarrow> 'a machine_scheme \<Rightarrow> 'a machine_scheme" where
  "rep_outsb port addr 0 s = s"
| "rep_outsb port addr (Suc n) s = rep_outsb port (addr + 1) n (outb port (m_mem s addr) s)"

definition outsb :: "u32 \<Rightarrow> u32 \<Rightarrow> u32 \<Rightarrow> 'a machine_scheme \<Rightarrow> 'a machine_scheme" where
  "outsb port addr cnt s = rep_outsb port addr (unat cnt) s"

primrec rep_outsw :: "u32 \<Rightarrow> u32 \<Rightarrow> nat \<Rightarrow> 'a machine_scheme \<Rightarrow> 'a machine_scheme" where
  "rep_outsw port addr 0 s = s"
| "rep_outsw port addr (Suc n) s = rep_outsw port (addr + 2) n (outw port (ld16 (m_mem s) addr) s)"

definition outsw :: "u32 \<Rightarrow> u32 \<Rightarrow> u32 \<Rightarrow> 'a machine_scheme \<Rightarrow> 'a machine_scheme" where
  "outsw port addr cnt s = rep_outsw port addr (unat cnt) s"

primrec rep_outsl :: "u32 \<Rightarrow> u32 \<Rightarrow> nat \<Rightarrow> 'a machine_scheme \<Rightarrow> 'a machine_scheme" where
  "rep_outsl port addr 0 s = s"
| "rep_outsl port addr (Suc n) s = rep_outsl port (addr + 4) n (outl port (ld32 (m_mem s) addr) s)"

definition outsl :: "u32 \<Rightarrow> u32 \<Rightarrow> u32 \<Rightarrow> 'a machine_scheme \<Rightarrow> 'a machine_scheme" where
  "outsl port addr cnt s = rep_outsl port addr (unat cnt) s"

section \<open>Registers and single instructions\<close>

definition invlpg :: "u32 \<Rightarrow> 'a machine_scheme \<Rightarrow> 'a machine_scheme" where
  "invlpg addr s = log_io (Invlpg addr) s"

definition lidt :: "u32 \<Rightarrow> 'a machine_scheme \<Rightarrow> 'a machine_scheme" where
  "lidt p s = log_io (Lidt p) s"

definition lgdt :: "u32 \<Rightarrow> 'a machine_scheme \<Rightarrow> 'a machine_scheme" where
  "lgdt p s = log_io (Lgdt p) s"

definition lldt :: "u16 \<Rightarrow> 'a machine_scheme \<Rightarrow> 'a machine_scheme" where
  "lldt sel s = log_io (Lldt sel) s"

definition ltr :: "u16 \<Rightarrow> 'a machine_scheme \<Rightarrow> 'a machine_scheme" where
  "ltr sel s = log_io (Ltr sel) s"

definition lcr0 :: "u32 \<Rightarrow> 'a machine_scheme \<Rightarrow> 'a machine_scheme" where
  "lcr0 val s = s\<lparr>m_cr0 := val\<rparr>"

definition rcr0 :: "'a machine_scheme \<Rightarrow> u32" where
  "rcr0 s = m_cr0 s"

definition rcr2 :: "'a machine_scheme \<Rightarrow> u32" where
  "rcr2 s = m_cr2 s"

definition lcr3 :: "u32 \<Rightarrow> 'a machine_scheme \<Rightarrow> 'a machine_scheme" where
  "lcr3 val s = log_io (LoadCr3 val) (s\<lparr>m_cr3 := val\<rparr>)"

definition rcr3 :: "'a machine_scheme \<Rightarrow> u32" where
  "rcr3 s = m_cr3 s"

definition lcr4 :: "u32 \<Rightarrow> 'a machine_scheme \<Rightarrow> 'a machine_scheme" where
  "lcr4 val s = s\<lparr>m_cr4 := val\<rparr>"

definition rcr4 :: "'a machine_scheme \<Rightarrow> u32" where
  "rcr4 s = m_cr4 s"

definition tlbflush :: "'a machine_scheme \<Rightarrow> 'a machine_scheme" where
  "tlbflush s = (let cr3 = m_cr3 s in log_io (LoadCr3 cr3) (s\<lparr>m_cr3 := cr3\<rparr>))"

definition read_eflags :: "'a machine_scheme \<Rightarrow> u32" where
  "read_eflags s = m_eflags s"

definition write_eflags :: "u32 \<Rightarrow> 'a machine_scheme \<Rightarrow> 'a machine_scheme" where
  "write_eflags eflags s = s\<lparr>m_eflags := eflags\<rparr>"

definition read_ebp :: "'a machine_scheme \<Rightarrow> u32" where
  "read_ebp s = m_ebp s"

definition read_esp :: "'a machine_scheme \<Rightarrow> u32" where
  "read_esp s = m_esp s"

definition cpuid :: "devices \<Rightarrow> u32 \<Rightarrow> u32 \<Rightarrow> u32 \<Rightarrow> u32 \<Rightarrow> u32 \<Rightarrow> 'a machine_scheme \<Rightarrow> 'a machine_scheme" where
  "cpuid d info eaxp ebxp ecxp edxp s =
     (let (eax, ebx, ecx, edx) = dev_cpuid d info;
          m = m_mem s;
          m = (if eaxp \<noteq> 0 then st32 m eaxp eax else m);
          m = (if ebxp \<noteq> 0 then st32 m ebxp ebx else m);
          m = (if ecxp \<noteq> 0 then st32 m ecxp ecx else m);
          m = (if edxp \<noteq> 0 then st32 m edxp edx else m)
      in s\<lparr>m_mem := m\<rparr>)"

definition read_tsc :: "devices \<Rightarrow> 'a machine_scheme \<Rightarrow> u64" where
  "read_tsc d s = dev_tsc d (m_io s)"

definition xchg :: "u32 \<Rightarrow> u32 \<Rightarrow> 'a machine_scheme \<Rightarrow> u32 \<times> 'a machine_scheme" where
  "xchg addr newval s = (ld32 (m_mem s) addr, s\<lparr>m_mem := st32 (m_mem s) addr newval\<rparr>)"

section \<open>Rounding\<close>

definition MIN_of :: "'a::ord \<Rightarrow> 'a \<Rightarrow> 'a" where
  "MIN_of a b = (if a \<le> b then a else b)"

definition MAX_of :: "'a::ord \<Rightarrow> 'a \<Rightarrow> 'a" where
  "MAX_of a b = (if a \<ge> b then a else b)"

definition ROUNDDOWN :: "u32 \<Rightarrow> u32 \<Rightarrow> u32" where
  "ROUNDDOWN a n = a - a mod n"

definition ROUNDUP :: "u32 \<Rightarrow> u32 \<Rightarrow> u32" where
  "ROUNDUP a n = ROUNDDOWN (a + n - 1) n"

text \<open>The address at which the kernel sees physical memory (\<^verbatim>\<open>src/inc/memlayout.h\<close>).\<close>

definition KERNBASE :: u32 where "KERNBASE = 0xF0000000"

section \<open>Facts shared by the components\<close>

named_theorems machine_simps

lemma log_io_simps [simp, machine_simps]:
  "m_mem (log_io e s) = m_mem s"
  "m_io (log_io e s) = e # m_io s"
  "machine.more (log_io e s) = machine.more s"
  by (simp_all add: log_io_def)

lemma outb_simps [simp, machine_simps]:
  "m_mem (outb p v s) = m_mem s"
  "m_io (outb p v s) = OutB (ucast p) v # m_io s"
  "machine.more (outb p v s) = machine.more s"
  by (simp_all add: outb_def)

lemma inb_simps [simp, machine_simps]:
  "m_mem (snd (inb d p s)) = m_mem s"
  "m_io (snd (inb d p s)) = InB (ucast p) (fst (inb d p s)) # m_io s"
  "machine.more (snd (inb d p s)) = machine.more s"
  "fst (inb d p s) = dev_inb d (m_io s) (ucast p)"
  by (simp_all add: inb_def Let_def)

lemma unat_ROUNDDOWN: "unat (ROUNDDOWN a n) = unat a - unat a mod unat n"
proof -
  have "a mod n \<le> a" by (simp add: word_le_nat_alt unat_mod)
  then show ?thesis by (simp add: ROUNDDOWN_def unat_sub unat_mod)
qed

lemma rounddown_multiple: "unat n dvd unat (ROUNDDOWN a n)"
  by (simp add: unat_ROUNDDOWN dvd_minus_mod)

lemma rounddown_bounds: "0 < n \<Longrightarrow> ROUNDDOWN a n \<le> a \<and> unat a < unat (ROUNDDOWN a n) + unat n"
proof -
  assume "0 < n"
  then have "unat a mod unat n < unat n" by (simp add: word_less_nat_alt)
  moreover have "unat a mod unat n \<le> unat a" by simp
  ultimately show ?thesis unfolding word_le_nat_alt unat_ROUNDDOWN by linarith
qed

lemma roundup_bounds:
  assumes "0 < n" "unat a + unat n \<le> 4294967296"
  shows "a \<le> ROUNDUP a n \<and> unat (ROUNDUP a n) < unat a + unat n"
proof -
  have "0 < unat n" using assms(1) by (simp add: word_less_nat_alt)
  then have "unat (a + n - 1) = unat a + unat n - 1"
    using assms(2) by (cases "unat a + unat n = 4294967296") (simp_all add: unat_word_ariths unat_sub_if')
  then show ?thesis
    using \<open>0 < unat n\<close> rounddown_bounds [OF assms(1), of "a + n - 1"]
    by (auto simp: ROUNDUP_def word_le_nat_alt)
qed

end
