(* ===== verification/JosMmu.thy ===== *)
theory JosMmu
  imports JosMachine
begin

text \<open>
  \<^verbatim>\<open>src/inc/mmu.h\<close> and \<^verbatim>\<open>src/inc/memlayout.h\<close>: the parts of a linear address, page table
  entries, segment and gate descriptors, and the layout of the virtual address space. The
  macros are functions on 32-bit words; a bit field is a word of its width. What the hardware
  does with the tables is \<open>page_walk\<close>, the two-level walk of the 32-bit MMU with 4 KB pages.
\<close>

section \<open>Linear addresses\<close>

definition NPDENTRIES :: nat where "NPDENTRIES = 1024"
definition NPTENTRIES :: nat where "NPTENTRIES = 1024"
definition PGSIZE :: u32 where "PGSIZE = 4096"
definition PGSHIFT :: nat where "PGSHIFT = 12"
definition PTSIZE :: u32 where "PTSIZE = PGSIZE * of_nat NPTENTRIES"
definition PTSHIFT :: nat where "PTSHIFT = 22"
definition PTXSHIFT :: nat where "PTXSHIFT = 12"
definition PDXSHIFT :: nat where "PDXSHIFT = 22"

definition PGNUM :: "u32 \<Rightarrow> u32" where
  "PGNUM la = drop_bit PTXSHIFT la"

definition PDX :: "u32 \<Rightarrow> u32" where
  "PDX la = drop_bit PDXSHIFT la AND 0x3FF"

definition PTX :: "u32 \<Rightarrow> u32" where
  "PTX la = drop_bit PTXSHIFT la AND 0x3FF"

definition PGOFF :: "u32 \<Rightarrow> u32" where
  "PGOFF la = la AND 0xFFF"

definition PGADDR :: "u32 \<Rightarrow> u32 \<Rightarrow> u32 \<Rightarrow> u32" where
  "PGADDR d t off = push_bit PDXSHIFT d OR push_bit PTXSHIFT t OR off"

lemmas page_defs = NPDENTRIES_def NPTENTRIES_def PGSIZE_def PGSHIFT_def PTSIZE_def PTSHIFT_def PTXSHIFT_def PDXSHIFT_def

section \<open>Entries\<close>

definition PTE_P :: u32 where "PTE_P = 0x001"
definition PTE_W :: u32 where "PTE_W = 0x002"
definition PTE_U :: u32 where "PTE_U = 0x004"
definition PTE_PWT :: u32 where "PTE_PWT = 0x008"
definition PTE_PCD :: u32 where "PTE_PCD = 0x010"
definition PTE_A :: u32 where "PTE_A = 0x020"
definition PTE_D :: u32 where "PTE_D = 0x040"
definition PTE_PS :: u32 where "PTE_PS = 0x080"
definition PTE_G :: u32 where "PTE_G = 0x100"
definition PTE_AVAIL :: u32 where "PTE_AVAIL = 0xE00"
definition PTE_SYSCALL :: u32 where "PTE_SYSCALL = PTE_AVAIL OR PTE_P OR PTE_W OR PTE_U"

definition PTE_ADDR :: "u32 \<Rightarrow> u32" where
  "PTE_ADDR pte = pte AND NOT 0xFFF"

text \<open>
  The walk of the hardware, with the write-protect bit of \<^verbatim>\<open>cr0\<close> set: \<open>rd\<close> reads a word of
  physical memory. The result is the physical address, or None for a page fault.
\<close>

definition page_walk :: "(u32 \<Rightarrow> u32) \<Rightarrow> u32 \<Rightarrow> bool \<Rightarrow> u32 \<Rightarrow> u32 option" where
  "page_walk rd cr3 write la =
     (let pde = rd (PTE_ADDR cr3 + 4 * PDX la) in
      if pde AND PTE_P = 0 \<or> write \<and> pde AND PTE_W = 0 then None
      else
        let pte = rd (PTE_ADDR pde + 4 * PTX la) in
        if pte AND PTE_P = 0 \<or> write \<and> pte AND PTE_W = 0 then None
        else Some (PTE_ADDR pte OR PGOFF la))"

section \<open>Segments and gates\<close>

type_synonym u1 = "1 word"
type_synonym u2 = "2 word"
type_synonym u3 = "3 word"
type_synonym u4 = "4 word"
type_synonym u5 = "5 word"

record Segdesc =
  sd_lim_15_0 :: u16
  sd_base_15_0 :: u16
  sd_base_23_16 :: u8
  sd_type :: u4
  sd_s :: u1
  sd_dpl :: u2
  sd_p :: u1
  sd_lim_19_16 :: u4
  sd_avl :: u1
  sd_rsv1 :: u1
  sd_db :: u1
  sd_g :: u1
  sd_base_31_24 :: u8

definition SEG_NULL :: Segdesc where
  "SEG_NULL = \<lparr>sd_lim_15_0 = 0, sd_base_15_0 = 0, sd_base_23_16 = 0, sd_type = 0, sd_s = 0, sd_dpl = 0, sd_p = 0,
     sd_lim_19_16 = 0, sd_avl = 0, sd_rsv1 = 0, sd_db = 0, sd_g = 0, sd_base_31_24 = 0\<rparr>"

definition SEG_FAULT :: Segdesc where
  "SEG_FAULT = \<lparr>sd_lim_15_0 = 0, sd_base_15_0 = 0, sd_base_23_16 = 0, sd_type = 0, sd_s = 1, sd_dpl = 0, sd_p = 1,
     sd_lim_19_16 = 0, sd_avl = 0, sd_rsv1 = 0, sd_db = 1, sd_g = 0, sd_base_31_24 = 0\<rparr>"

definition SEG :: "u32 \<Rightarrow> u32 \<Rightarrow> u32 \<Rightarrow> u32 \<Rightarrow> Segdesc" where
  "SEG ty base lim dpl =
     \<lparr>sd_lim_15_0 = ucast (drop_bit 12 lim AND 0xffff), sd_base_15_0 = ucast (base AND 0xffff),
      sd_base_23_16 = ucast (drop_bit 16 base AND 0xff), sd_type = ucast ty, sd_s = 1, sd_dpl = ucast dpl, sd_p = 1,
      sd_lim_19_16 = ucast (drop_bit 28 lim), sd_avl = 0, sd_rsv1 = 0, sd_db = 1, sd_g = 1,
      sd_base_31_24 = ucast (drop_bit 24 base)\<rparr>"

definition SEG16 :: "u32 \<Rightarrow> u32 \<Rightarrow> u32 \<Rightarrow> u32 \<Rightarrow> Segdesc" where
  "SEG16 ty base lim dpl =
     \<lparr>sd_lim_15_0 = ucast (lim AND 0xffff), sd_base_15_0 = ucast (base AND 0xffff),
      sd_base_23_16 = ucast (drop_bit 16 base AND 0xff), sd_type = ucast ty, sd_s = 1, sd_dpl = ucast dpl, sd_p = 1,
      sd_lim_19_16 = ucast (drop_bit 16 lim), sd_avl = 0, sd_rsv1 = 0, sd_db = 1, sd_g = 0,
      sd_base_31_24 = ucast (drop_bit 24 base)\<rparr>"

definition STS_CG32 :: u4 where "STS_CG32 = 0xC"
definition STS_IG32 :: u4 where "STS_IG32 = 0xE"
definition STS_TG32 :: u4 where "STS_TG32 = 0xF"

record Gatedesc =
  gd_off_15_0 :: u16
  gd_sel :: u16
  gd_args :: u5
  gd_rsv1 :: u3
  gd_type :: u4
  gd_s :: u1
  gd_dpl :: u2
  gd_p :: u1
  gd_off_31_16 :: u16

definition SETGATE :: "Gatedesc \<Rightarrow> bool \<Rightarrow> u32 \<Rightarrow> u32 \<Rightarrow> u32 \<Rightarrow> Gatedesc" where
  "SETGATE gate istrap sel off dpl =
     gate\<lparr>gd_off_15_0 := ucast (off AND 0xffff), gd_sel := ucast sel, gd_args := 0, gd_rsv1 := 0,
       gd_type := (if istrap then STS_TG32 else STS_IG32), gd_s := 0, gd_dpl := ucast dpl, gd_p := 1,
       gd_off_31_16 := ucast (drop_bit 16 off)\<rparr>"

definition SETCALLGATE :: "Gatedesc \<Rightarrow> u32 \<Rightarrow> u32 \<Rightarrow> u32 \<Rightarrow> Gatedesc" where
  "SETCALLGATE gate sel off dpl =
     gate\<lparr>gd_off_15_0 := ucast (off AND 0xffff), gd_sel := ucast sel, gd_args := 0, gd_rsv1 := 0,
       gd_type := STS_CG32, gd_s := 0, gd_dpl := ucast dpl, gd_p := 1,
       gd_off_31_16 := ucast (drop_bit 16 off)\<rparr>"

text \<open>What the processor reads from a descriptor.\<close>

definition seg_base :: "Segdesc \<Rightarrow> u32" where
  "seg_base sd = push_bit 24 (ucast (sd_base_31_24 sd)) OR push_bit 16 (ucast (sd_base_23_16 sd)) OR ucast (sd_base_15_0 sd)"

definition seg_limit :: "Segdesc \<Rightarrow> u32" where
  "seg_limit sd =
     (let lim = push_bit 16 (ucast (sd_lim_19_16 sd)) OR ucast (sd_lim_15_0 sd)
      in if sd_g sd = 1 then push_bit 12 lim OR 0xFFF else lim)"

definition gate_off :: "Gatedesc \<Rightarrow> u32" where
  "gate_off g = push_bit 16 (ucast (gd_off_31_16 g)) OR ucast (gd_off_15_0 g)"

section \<open>The virtual address space\<close>

definition IOPHYSMEM :: u32 where "IOPHYSMEM = 0x0A0000"
definition EXTPHYSMEM :: u32 where "EXTPHYSMEM = 0x100000"
definition KSTACKTOP :: u32 where "KSTACKTOP = KERNBASE"
definition KSTKSIZE :: u32 where "KSTKSIZE = 8 * PGSIZE"
definition KSTKGAP :: u32 where "KSTKGAP = 8 * PGSIZE"
definition MMIOLIM :: u32 where "MMIOLIM = KSTACKTOP - PTSIZE"
definition MMIOBASE :: u32 where "MMIOBASE = MMIOLIM - PTSIZE"
definition ULIM :: u32 where "ULIM = MMIOBASE"
definition UVPT :: u32 where "UVPT = ULIM - PTSIZE"
definition UPAGES :: u32 where "UPAGES = UVPT - PTSIZE"
definition UENVS :: u32 where "UENVS = UPAGES - PTSIZE"
definition UTOP :: u32 where "UTOP = UENVS"
definition UXSTACKTOP :: u32 where "UXSTACKTOP = UTOP"
definition USTACKTOP :: u32 where "USTACKTOP = UTOP - 2 * PGSIZE"
definition UTEXT :: u32 where "UTEXT = 2 * PTSIZE"
definition UTEMP :: u32 where "UTEMP = PTSIZE"
definition PFTEMP :: u32 where "PFTEMP = UTEMP + PTSIZE - PGSIZE"
definition USTABDATA :: u32 where "USTABDATA = PTSIZE div 2"

lemmas layout_defs = KERNBASE_def IOPHYSMEM_def EXTPHYSMEM_def KSTACKTOP_def KSTKSIZE_def KSTKGAP_def MMIOLIM_def
  MMIOBASE_def ULIM_def UVPT_def UPAGES_def UENVS_def UTOP_def UXSTACKTOP_def USTACKTOP_def UTEXT_def UTEMP_def
  PFTEMP_def USTABDATA_def

section \<open>Facts\<close>

lemma mask_take_bit:
  "(x :: u32) AND 0x3FF = take_bit 10 x" "x AND 0xFFF = take_bit 12 x" "x AND 0xff = take_bit 8 x"
  "x AND 0xffff = take_bit 16 x"
  by (simp_all add: take_bit_eq_mask mask_eq_exp_minus_1)

lemma address_parts:
  "PDX la = take_bit 10 (drop_bit 22 la)" "PTX la = take_bit 10 (drop_bit 12 la)" "PGOFF la = take_bit 12 la"
  by (simp_all add: PDX_def PTX_def PGOFF_def page_defs mask_take_bit)

lemma unat_parts:
  "unat (PDX la) = unat la div 4194304" "unat (PTX la) = unat la div 4096 mod 1024" "unat (PGOFF la) = unat la mod 4096"
proof -
  have "unat la div 4194304 < 1024" using unsigned_less [of la, where ?'a = nat] by (simp add: less_mult_imp_div_less)
  then show "unat (PDX la) = unat la div 4194304"
    unfolding address_parts unfolding unsigned_take_bit_eq unat_drop_bit_eq
    unfolding take_bit_eq_mod drop_bit_eq_div by simp
  show "unat (PTX la) = unat la div 4096 mod 1024" "unat (PGOFF la) = unat la mod 4096"
    unfolding address_parts unfolding unsigned_take_bit_eq unat_drop_bit_eq
    unfolding take_bit_eq_mod drop_bit_eq_div by simp_all
qed

lemma pgaddr_split: "PGADDR (PDX la) (PTX la) (PGOFF la) = la"
  unfolding PGADDR_def address_parts page_defs
proof (rule bit_word_eqI)
  fix n
  show "bit (push_bit 22 (take_bit 10 (drop_bit 22 la)) OR push_bit 12 (take_bit 10 (drop_bit 12 la)) OR take_bit 12 la) n =
      bit la n" if "n < LENGTH(32)"
    using that by (cases "n < 12"; cases "n < 22") (auto simp: bit_simps)
qed

lemma pgaddr_parts:
  assumes "d < 1024" "t < 1024" "off < 4096"
  shows "PDX (PGADDR d t off) = d" "PTX (PGADDR d t off) = t" "PGOFF (PGADDR d t off) = off"
proof -
  have "take_bit 10 d = d" "take_bit 10 t = t" "take_bit 12 off = off"
    using assms by (simp_all add: word_unat_eq_iff unsigned_take_bit_eq take_bit_nat_eq_self word_less_nat_alt)
  then have b: "bit d n \<Longrightarrow> n < 10" "bit t n \<Longrightarrow> n < 10" "bit off n \<Longrightarrow> n < 12" for n
    by (metis bit_take_bit_iff)+
  show "PDX (PGADDR d t off) = d" "PTX (PGADDR d t off) = t" "PGOFF (PGADDR d t off) = off"
    unfolding address_parts PGADDR_def page_defs
    by (rule bit_word_eqI; auto simp: bit_simps dest: b)+
qed

lemma base_parts:
  "push_bit 24 (ucast (ucast (drop_bit 24 base) :: u8)) OR push_bit 16 (ucast (ucast (take_bit 8 (drop_bit 16 base)) :: u8))
    OR ucast (ucast (take_bit 16 base) :: u16) = (base :: u32)"
proof (rule bit_word_eqI)
  fix n
  show "bit ((push_bit 24 (ucast (ucast (drop_bit 24 base) :: u8)) :: u32) OR push_bit 16 (ucast (ucast (take_bit 8 (drop_bit 16 base)) :: u8))
    OR ucast (ucast (take_bit 16 base) :: u16)) n = bit base n" if "n < LENGTH(32)"
    using that by (cases "n < 16"; cases "n < 24") (auto simp: bit_simps)
qed

lemma seg_base_SEG: "seg_base (SEG ty base lim dpl) = base" "seg_base (SEG16 ty base lim dpl) = base"
  unfolding seg_base_def SEG_def SEG16_def Segdesc.select_convs mask_take_bit by (rule base_parts)+

lemma gate_off_SETGATE: "gate_off (SETGATE g istrap sel off dpl) = off" "gate_off (SETCALLGATE g sel off dpl) = off"
  unfolding gate_off_def SETGATE_def SETCALLGATE_def mask_take_bit
  by (simp, rule bit_word_eqI; auto simp: bit_simps)+

lemma seg_limit_SEG: "seg_limit (SEG ty base lim dpl) = lim OR 0xFFF"
proof -
  have "push_bit 12 (push_bit 16 (ucast (ucast (drop_bit 28 lim) :: u4)) OR ucast (ucast (take_bit 16 (drop_bit 12 lim)) :: u16))
      OR mask 12 = lim OR (mask 12 :: u32)"
  proof (rule bit_word_eqI)
    fix n
    show "bit (push_bit 12 (push_bit 16 (ucast (ucast (drop_bit 28 lim) :: u4)) OR
        ucast (ucast (take_bit 16 (drop_bit 12 lim)) :: u16)) OR (mask 12 :: u32)) n = bit (lim OR (mask 12 :: u32)) n"
      if "n < LENGTH(32)"
      using that by (cases "n < 12"; cases "n < 28") (auto simp: bit_simps)
  qed
  then show ?thesis by (simp add: seg_limit_def SEG_def mask_take_bit mask_eq_exp_minus_1)
qed

lemma seg_limit_SEG16: "seg_limit (SEG16 ty base lim dpl) = lim AND 0xFFFFF"
proof -
  have "push_bit 16 (ucast (ucast (drop_bit 16 lim) :: u4)) OR ucast (ucast (take_bit 16 lim) :: u16) = (take_bit 20 lim :: u32)"
    by (rule bit_word_eqI) (auto simp: bit_simps)
  moreover have "lim AND 0xFFFFF = take_bit 20 lim" by (simp add: take_bit_eq_mask mask_eq_exp_minus_1)
  ultimately show ?thesis by (simp add: seg_limit_def SEG16_def mask_take_bit)
qed

section \<open>Properties\<close>

text \<open>
  (C30) \<^verbatim>\<open>PDX\<close>, \<^verbatim>\<open>PTX\<close> and \<^verbatim>\<open>PGOFF\<close> take an address apart and \<^verbatim>\<open>PGADDR\<close> puts it together
  again, in both directions.
\<close>

theorem pgaddr_roundtrip:
  assumes "d < 1024" "t < 1024" "off < 4096"
  shows "PGADDR (PDX la) (PTX la) (PGOFF la) = la \<and>
    PDX (PGADDR d t off) = d \<and> PTX (PGADDR d t off) = t \<and> PGOFF (PGADDR d t off) = off"
  using pgaddr_split pgaddr_parts [OF assms] by simp

theorem pgaddr_roundtrip_witness:
  "PGADDR (PDX 0xF0112345) (PTX 0xF0112345) (PGOFF 0xF0112345) = 0xF0112345 \<and> PDX (PGADDR 960 274 0x345) = 960"
  using pgaddr_roundtrip [of 960 274 "0x345" "0xF0112345"] by simp

text \<open>
  (C31) The processor reads from a descriptor what it was built from. A segment of \<^verbatim>\<open>SEG\<close> has the base it
  was given and, being counted in pages, the limit rounded up to the end of a page; one of
  \<^verbatim>\<open>SEG16\<close> has the base and the low 20 bits of the limit, in bytes; both are present code or data
  segments of the type and the privilege level. A gate of \<^verbatim>\<open>SETGATE\<close> leads to the selector and the
  offset and is a trap gate (15) or an interrupt gate (14) as asked; one of \<^verbatim>\<open>SETCALLGATE\<close> is a call
  gate (12); both are present system descriptors without arguments.
\<close>

theorem descriptor_roundtrip:
  "(let sd = SEG ty base lim dpl in seg_base sd = base \<and> seg_limit sd = lim OR 0xFFF
      \<and> sd_type sd = ucast ty \<and> sd_dpl sd = ucast dpl \<and> sd_s sd = 1 \<and> sd_p sd = 1 \<and> sd_db sd = 1) \<and>
   (let sd = SEG16 ty base lim dpl in seg_base sd = base \<and> seg_limit sd = lim AND 0xFFFFF
      \<and> sd_type sd = ucast ty \<and> sd_dpl sd = ucast dpl \<and> sd_s sd = 1 \<and> sd_p sd = 1 \<and> sd_db sd = 1) \<and>
   (let gd = SETGATE g istrap sel off dpl in gate_off gd = off \<and> gd_sel gd = ucast sel \<and> gd_dpl gd = ucast dpl
      \<and> gd_type gd = (if istrap then 15 else 14) \<and> gd_s gd = 0 \<and> gd_p gd = 1 \<and> gd_args gd = 0) \<and>
   (let gd = SETCALLGATE g sel off dpl in gate_off gd = off \<and> gd_sel gd = ucast sel \<and> gd_dpl gd = ucast dpl
      \<and> gd_type gd = 12 \<and> gd_s gd = 0 \<and> gd_p gd = 1 \<and> gd_args gd = 0)"
  unfolding Let_def seg_base_SEG seg_limit_SEG seg_limit_SEG16 gate_off_SETGATE
  unfolding SEG_def SEG16_def SETGATE_def SETCALLGATE_def STS_TG32_def STS_IG32_def STS_CG32_def by (intro conjI; simp)

text \<open>
  The regions of the virtual address space are in the order of the picture in
  \<^verbatim>\<open>memlayout.h\<close>, do not wrap around, and each of the regions from the user's environments
  up to the kernel starts on a page table boundary and has one page table of space.
\<close>

theorem layout_ordered:
  "USTABDATA < UTEMP \<and> UTEMP \<le> PFTEMP \<and> PFTEMP < UTEXT \<and> UTEXT < USTACKTOP \<and> USTACKTOP < UXSTACKTOP \<and> UXSTACKTOP = UTOP
   \<and> UTOP = UENVS \<and> UENVS + PTSIZE = UPAGES \<and> UPAGES + PTSIZE = UVPT \<and> UVPT + PTSIZE = ULIM \<and> ULIM = MMIOBASE
   \<and> MMIOBASE + PTSIZE = MMIOLIM \<and> MMIOLIM + PTSIZE = KSTACKTOP \<and> KSTACKTOP = KERNBASE
   \<and> UENVS < UPAGES \<and> UPAGES < UVPT \<and> UVPT < ULIM \<and> MMIOBASE < MMIOLIM \<and> MMIOLIM < KSTACKTOP - (KSTKSIZE + KSTKGAP)
   \<and> UENVS mod PTSIZE = 0 \<and> KERNBASE mod PTSIZE = 0"
  by (simp add: layout_defs page_defs)

end
