(* ===== verification/JosEntryPgdir.thy ===== *)
theory JosEntryPgdir
  imports JosMmu
begin

text \<open>
  \<^verbatim>\<open>src/kern/entrypgdir.c\<close>: the page directory and the page table with which the kernel turns
  on paging. The table of 1024 entries is written out as in the source, in eight parts. It is
  shown to be the identity on pages, and the walk of the hardware over both tables to map the
  first 4 MB of physical memory at 0, read-only, and at \<^verbatim>\<open>KERNBASE\<close>, and nothing else.
\<close>

section \<open>The model\<close>

definition entry_pgtable_0 :: "u32 list" where
  "entry_pgtable_0 = [
     0x000000 OR PTE_P OR PTE_W, 0x001000 OR PTE_P OR PTE_W, 0x002000 OR PTE_P OR PTE_W, 0x003000 OR PTE_P OR PTE_W,
     0x004000 OR PTE_P OR PTE_W, 0x005000 OR PTE_P OR PTE_W, 0x006000 OR PTE_P OR PTE_W, 0x007000 OR PTE_P OR PTE_W,
     0x008000 OR PTE_P OR PTE_W, 0x009000 OR PTE_P OR PTE_W, 0x00a000 OR PTE_P OR PTE_W, 0x00b000 OR PTE_P OR PTE_W,
     0x00c000 OR PTE_P OR PTE_W, 0x00d000 OR PTE_P OR PTE_W, 0x00e000 OR PTE_P OR PTE_W, 0x00f000 OR PTE_P OR PTE_W,
     0x010000 OR PTE_P OR PTE_W, 0x011000 OR PTE_P OR PTE_W, 0x012000 OR PTE_P OR PTE_W, 0x013000 OR PTE_P OR PTE_W,
     0x014000 OR PTE_P OR PTE_W, 0x015000 OR PTE_P OR PTE_W, 0x016000 OR PTE_P OR PTE_W, 0x017000 OR PTE_P OR PTE_W,
     0x018000 OR PTE_P OR PTE_W, 0x019000 OR PTE_P OR PTE_W, 0x01a000 OR PTE_P OR PTE_W, 0x01b000 OR PTE_P OR PTE_W,
     0x01c000 OR PTE_P OR PTE_W, 0x01d000 OR PTE_P OR PTE_W, 0x01e000 OR PTE_P OR PTE_W, 0x01f000 OR PTE_P OR PTE_W,
     0x020000 OR PTE_P OR PTE_W, 0x021000 OR PTE_P OR PTE_W, 0x022000 OR PTE_P OR PTE_W, 0x023000 OR PTE_P OR PTE_W,
     0x024000 OR PTE_P OR PTE_W, 0x025000 OR PTE_P OR PTE_W, 0x026000 OR PTE_P OR PTE_W, 0x027000 OR PTE_P OR PTE_W,
     0x028000 OR PTE_P OR PTE_W, 0x029000 OR PTE_P OR PTE_W, 0x02a000 OR PTE_P OR PTE_W, 0x02b000 OR PTE_P OR PTE_W,
     0x02c000 OR PTE_P OR PTE_W, 0x02d000 OR PTE_P OR PTE_W, 0x02e000 OR PTE_P OR PTE_W, 0x02f000 OR PTE_P OR PTE_W,
     0x030000 OR PTE_P OR PTE_W, 0x031000 OR PTE_P OR PTE_W, 0x032000 OR PTE_P OR PTE_W, 0x033000 OR PTE_P OR PTE_W,
     0x034000 OR PTE_P OR PTE_W, 0x035000 OR PTE_P OR PTE_W, 0x036000 OR PTE_P OR PTE_W, 0x037000 OR PTE_P OR PTE_W,
     0x038000 OR PTE_P OR PTE_W, 0x039000 OR PTE_P OR PTE_W, 0x03a000 OR PTE_P OR PTE_W, 0x03b000 OR PTE_P OR PTE_W,
     0x03c000 OR PTE_P OR PTE_W, 0x03d000 OR PTE_P OR PTE_W, 0x03e000 OR PTE_P OR PTE_W, 0x03f000 OR PTE_P OR PTE_W,
     0x040000 OR PTE_P OR PTE_W, 0x041000 OR PTE_P OR PTE_W, 0x042000 OR PTE_P OR PTE_W, 0x043000 OR PTE_P OR PTE_W,
     0x044000 OR PTE_P OR PTE_W, 0x045000 OR PTE_P OR PTE_W, 0x046000 OR PTE_P OR PTE_W, 0x047000 OR PTE_P OR PTE_W,
     0x048000 OR PTE_P OR PTE_W, 0x049000 OR PTE_P OR PTE_W, 0x04a000 OR PTE_P OR PTE_W, 0x04b000 OR PTE_P OR PTE_W,
     0x04c000 OR PTE_P OR PTE_W, 0x04d000 OR PTE_P OR PTE_W, 0x04e000 OR PTE_P OR PTE_W, 0x04f000 OR PTE_P OR PTE_W,
     0x050000 OR PTE_P OR PTE_W, 0x051000 OR PTE_P OR PTE_W, 0x052000 OR PTE_P OR PTE_W, 0x053000 OR PTE_P OR PTE_W,
     0x054000 OR PTE_P OR PTE_W, 0x055000 OR PTE_P OR PTE_W, 0x056000 OR PTE_P OR PTE_W, 0x057000 OR PTE_P OR PTE_W,
     0x058000 OR PTE_P OR PTE_W, 0x059000 OR PTE_P OR PTE_W, 0x05a000 OR PTE_P OR PTE_W, 0x05b000 OR PTE_P OR PTE_W,
     0x05c000 OR PTE_P OR PTE_W, 0x05d000 OR PTE_P OR PTE_W, 0x05e000 OR PTE_P OR PTE_W, 0x05f000 OR PTE_P OR PTE_W,
     0x060000 OR PTE_P OR PTE_W, 0x061000 OR PTE_P OR PTE_W, 0x062000 OR PTE_P OR PTE_W, 0x063000 OR PTE_P OR PTE_W,
     0x064000 OR PTE_P OR PTE_W, 0x065000 OR PTE_P OR PTE_W, 0x066000 OR PTE_P OR PTE_W, 0x067000 OR PTE_P OR PTE_W,
     0x068000 OR PTE_P OR PTE_W, 0x069000 OR PTE_P OR PTE_W, 0x06a000 OR PTE_P OR PTE_W, 0x06b000 OR PTE_P OR PTE_W,
     0x06c000 OR PTE_P OR PTE_W, 0x06d000 OR PTE_P OR PTE_W, 0x06e000 OR PTE_P OR PTE_W, 0x06f000 OR PTE_P OR PTE_W,
     0x070000 OR PTE_P OR PTE_W, 0x071000 OR PTE_P OR PTE_W, 0x072000 OR PTE_P OR PTE_W, 0x073000 OR PTE_P OR PTE_W,
     0x074000 OR PTE_P OR PTE_W, 0x075000 OR PTE_P OR PTE_W, 0x076000 OR PTE_P OR PTE_W, 0x077000 OR PTE_P OR PTE_W,
     0x078000 OR PTE_P OR PTE_W, 0x079000 OR PTE_P OR PTE_W, 0x07a000 OR PTE_P OR PTE_W, 0x07b000 OR PTE_P OR PTE_W,
     0x07c000 OR PTE_P OR PTE_W, 0x07d000 OR PTE_P OR PTE_W, 0x07e000 OR PTE_P OR PTE_W, 0x07f000 OR PTE_P OR PTE_W]"

definition entry_pgtable_1 :: "u32 list" where
  "entry_pgtable_1 = [
     0x080000 OR PTE_P OR PTE_W, 0x081000 OR PTE_P OR PTE_W, 0x082000 OR PTE_P OR PTE_W, 0x083000 OR PTE_P OR PTE_W,
     0x084000 OR PTE_P OR PTE_W, 0x085000 OR PTE_P OR PTE_W, 0x086000 OR PTE_P OR PTE_W, 0x087000 OR PTE_P OR PTE_W,
     0x088000 OR PTE_P OR PTE_W, 0x089000 OR PTE_P OR PTE_W, 0x08a000 OR PTE_P OR PTE_W, 0x08b000 OR PTE_P OR PTE_W,
     0x08c000 OR PTE_P OR PTE_W, 0x08d000 OR PTE_P OR PTE_W, 0x08e000 OR PTE_P OR PTE_W, 0x08f000 OR PTE_P OR PTE_W,
     0x090000 OR PTE_P OR PTE_W, 0x091000 OR PTE_P OR PTE_W, 0x092000 OR PTE_P OR PTE_W, 0x093000 OR PTE_P OR PTE_W,
     0x094000 OR PTE_P OR PTE_W, 0x095000 OR PTE_P OR PTE_W, 0x096000 OR PTE_P OR PTE_W, 0x097000 OR PTE_P OR PTE_W,
     0x098000 OR PTE_P OR PTE_W, 0x099000 OR PTE_P OR PTE_W, 0x09a000 OR PTE_P OR PTE_W, 0x09b000 OR PTE_P OR PTE_W,
     0x09c000 OR PTE_P OR PTE_W, 0x09d000 OR PTE_P OR PTE_W, 0x09e000 OR PTE_P OR PTE_W, 0x09f000 OR PTE_P OR PTE_W,
     0x0a0000 OR PTE_P OR PTE_W, 0x0a1000 OR PTE_P OR PTE_W, 0x0a2000 OR PTE_P OR PTE_W, 0x0a3000 OR PTE_P OR PTE_W,
     0x0a4000 OR PTE_P OR PTE_W, 0x0a5000 OR PTE_P OR PTE_W, 0x0a6000 OR PTE_P OR PTE_W, 0x0a7000 OR PTE_P OR PTE_W,
     0x0a8000 OR PTE_P OR PTE_W, 0x0a9000 OR PTE_P OR PTE_W, 0x0aa000 OR PTE_P OR PTE_W, 0x0ab000 OR PTE_P OR PTE_W,
     0x0ac000 OR PTE_P OR PTE_W, 0x0ad000 OR PTE_P OR PTE_W, 0x0ae000 OR PTE_P OR PTE_W, 0x0af000 OR PTE_P OR PTE_W,
     0x0b0000 OR PTE_P OR PTE_W, 0x0b1000 OR PTE_P OR PTE_W, 0x0b2000 OR PTE_P OR PTE_W, 0x0b3000 OR PTE_P OR PTE_W,
     0x0b4000 OR PTE_P OR PTE_W, 0x0b5000 OR PTE_P OR PTE_W, 0x0b6000 OR PTE_P OR PTE_W, 0x0b7000 OR PTE_P OR PTE_W,
     0x0b8000 OR PTE_P OR PTE_W, 0x0b9000 OR PTE_P OR PTE_W, 0x0ba000 OR PTE_P OR PTE_W, 0x0bb000 OR PTE_P OR PTE_W,
     0x0bc000 OR PTE_P OR PTE_W, 0x0bd000 OR PTE_P OR PTE_W, 0x0be000 OR PTE_P OR PTE_W, 0x0bf000 OR PTE_P OR PTE_W,
     0x0c0000 OR PTE_P OR PTE_W, 0x0c1000 OR PTE_P OR PTE_W, 0x0c2000 OR PTE_P OR PTE_W, 0x0c3000 OR PTE_P OR PTE_W,
     0x0c4000 OR PTE_P OR PTE_W, 0x0c5000 OR PTE_P OR PTE_W, 0x0c6000 OR PTE_P OR PTE_W, 0x0c7000 OR PTE_P OR PTE_W,
     0x0c8000 OR PTE_P OR PTE_W, 0x0c9000 OR PTE_P OR PTE_W, 0x0ca000 OR PTE_P OR PTE_W, 0x0cb000 OR PTE_P OR PTE_W,
     0x0cc000 OR PTE_P OR PTE_W, 0x0cd000 OR PTE_P OR PTE_W, 0x0ce000 OR PTE_P OR PTE_W, 0x0cf000 OR PTE_P OR PTE_W,
     0x0d0000 OR PTE_P OR PTE_W, 0x0d1000 OR PTE_P OR PTE_W, 0x0d2000 OR PTE_P OR PTE_W, 0x0d3000 OR PTE_P OR PTE_W,
     0x0d4000 OR PTE_P OR PTE_W, 0x0d5000 OR PTE_P OR PTE_W, 0x0d6000 OR PTE_P OR PTE_W, 0x0d7000 OR PTE_P OR PTE_W,
     0x0d8000 OR PTE_P OR PTE_W, 0x0d9000 OR PTE_P OR PTE_W, 0x0da000 OR PTE_P OR PTE_W, 0x0db000 OR PTE_P OR PTE_W,
     0x0dc000 OR PTE_P OR PTE_W, 0x0dd000 OR PTE_P OR PTE_W, 0x0de000 OR PTE_P OR PTE_W, 0x0df000 OR PTE_P OR PTE_W,
     0x0e0000 OR PTE_P OR PTE_W, 0x0e1000 OR PTE_P OR PTE_W, 0x0e2000 OR PTE_P OR PTE_W, 0x0e3000 OR PTE_P OR PTE_W,
     0x0e4000 OR PTE_P OR PTE_W, 0x0e5000 OR PTE_P OR PTE_W, 0x0e6000 OR PTE_P OR PTE_W, 0x0e7000 OR PTE_P OR PTE_W,
     0x0e8000 OR PTE_P OR PTE_W, 0x0e9000 OR PTE_P OR PTE_W, 0x0ea000 OR PTE_P OR PTE_W, 0x0eb000 OR PTE_P OR PTE_W,
     0x0ec000 OR PTE_P OR PTE_W, 0x0ed000 OR PTE_P OR PTE_W, 0x0ee000 OR PTE_P OR PTE_W, 0x0ef000 OR PTE_P OR PTE_W,
     0x0f0000 OR PTE_P OR PTE_W, 0x0f1000 OR PTE_P OR PTE_W, 0x0f2000 OR PTE_P OR PTE_W, 0x0f3000 OR PTE_P OR PTE_W,
     0x0f4000 OR PTE_P OR PTE_W, 0x0f5000 OR PTE_P OR PTE_W, 0x0f6000 OR PTE_P OR PTE_W, 0x0f7000 OR PTE_P OR PTE_W,
     0x0f8000 OR PTE_P OR PTE_W, 0x0f9000 OR PTE_P OR PTE_W, 0x0fa000 OR PTE_P OR PTE_W, 0x0fb000 OR PTE_P OR PTE_W,
     0x0fc000 OR PTE_P OR PTE_W, 0x0fd000 OR PTE_P OR PTE_W, 0x0fe000 OR PTE_P OR PTE_W, 0x0ff000 OR PTE_P OR PTE_W]"

definition entry_pgtable_2 :: "u32 list" where
  "entry_pgtable_2 = [
     0x100000 OR PTE_P OR PTE_W, 0x101000 OR PTE_P OR PTE_W, 0x102000 OR PTE_P OR PTE_W, 0x103000 OR PTE_P OR PTE_W,
     0x104000 OR PTE_P OR PTE_W, 0x105000 OR PTE_P OR PTE_W, 0x106000 OR PTE_P OR PTE_W, 0x107000 OR PTE_P OR PTE_W,
     0x108000 OR PTE_P OR PTE_W, 0x109000 OR PTE_P OR PTE_W, 0x10a000 OR PTE_P OR PTE_W, 0x10b000 OR PTE_P OR PTE_W,
     0x10c000 OR PTE_P OR PTE_W, 0x10d000 OR PTE_P OR PTE_W, 0x10e000 OR PTE_P OR PTE_W, 0x10f000 OR PTE_P OR PTE_W,
     0x110000 OR PTE_P OR PTE_W, 0x111000 OR PTE_P OR PTE_W, 0x112000 OR PTE_P OR PTE_W, 0x113000 OR PTE_P OR PTE_W,
     0x114000 OR PTE_P OR PTE_W, 0x115000 OR PTE_P OR PTE_W, 0x116000 OR PTE_P OR PTE_W, 0x117000 OR PTE_P OR PTE_W,
     0x118000 OR PTE_P OR PTE_W, 0x119000 OR PTE_P OR PTE_W, 0x11a000 OR PTE_P OR PTE_W, 0x11b000 OR PTE_P OR PTE_W,
     0x11c000 OR PTE_P OR PTE_W, 0x11d000 OR PTE_P OR PTE_W, 0x11e000 OR PTE_P OR PTE_W, 0x11f000 OR PTE_P OR PTE_W,
     0x120000 OR PTE_P OR PTE_W, 0x121000 OR PTE_P OR PTE_W, 0x122000 OR PTE_P OR PTE_W, 0x123000 OR PTE_P OR PTE_W,
     0x124000 OR PTE_P OR PTE_W, 0x125000 OR PTE_P OR PTE_W, 0x126000 OR PTE_P OR PTE_W, 0x127000 OR PTE_P OR PTE_W,
     0x128000 OR PTE_P OR PTE_W, 0x129000 OR PTE_P OR PTE_W, 0x12a000 OR PTE_P OR PTE_W, 0x12b000 OR PTE_P OR PTE_W,
     0x12c000 OR PTE_P OR PTE_W, 0x12d000 OR PTE_P OR PTE_W, 0x12e000 OR PTE_P OR PTE_W, 0x12f000 OR PTE_P OR PTE_W,
     0x130000 OR PTE_P OR PTE_W, 0x131000 OR PTE_P OR PTE_W, 0x132000 OR PTE_P OR PTE_W, 0x133000 OR PTE_P OR PTE_W,
     0x134000 OR PTE_P OR PTE_W, 0x135000 OR PTE_P OR PTE_W, 0x136000 OR PTE_P OR PTE_W, 0x137000 OR PTE_P OR PTE_W,
     0x138000 OR PTE_P OR PTE_W, 0x139000 OR PTE_P OR PTE_W, 0x13a000 OR PTE_P OR PTE_W, 0x13b000 OR PTE_P OR PTE_W,
     0x13c000 OR PTE_P OR PTE_W, 0x13d000 OR PTE_P OR PTE_W, 0x13e000 OR PTE_P OR PTE_W, 0x13f000 OR PTE_P OR PTE_W,
     0x140000 OR PTE_P OR PTE_W, 0x141000 OR PTE_P OR PTE_W, 0x142000 OR PTE_P OR PTE_W, 0x143000 OR PTE_P OR PTE_W,
     0x144000 OR PTE_P OR PTE_W, 0x145000 OR PTE_P OR PTE_W, 0x146000 OR PTE_P OR PTE_W, 0x147000 OR PTE_P OR PTE_W,
     0x148000 OR PTE_P OR PTE_W, 0x149000 OR PTE_P OR PTE_W, 0x14a000 OR PTE_P OR PTE_W, 0x14b000 OR PTE_P OR PTE_W,
     0x14c000 OR PTE_P OR PTE_W, 0x14d000 OR PTE_P OR PTE_W, 0x14e000 OR PTE_P OR PTE_W, 0x14f000 OR PTE_P OR PTE_W,
     0x150000 OR PTE_P OR PTE_W, 0x151000 OR PTE_P OR PTE_W, 0x152000 OR PTE_P OR PTE_W, 0x153000 OR PTE_P OR PTE_W,
     0x154000 OR PTE_P OR PTE_W, 0x155000 OR PTE_P OR PTE_W, 0x156000 OR PTE_P OR PTE_W, 0x157000 OR PTE_P OR PTE_W,
     0x158000 OR PTE_P OR PTE_W, 0x159000 OR PTE_P OR PTE_W, 0x15a000 OR PTE_P OR PTE_W, 0x15b000 OR PTE_P OR PTE_W,
     0x15c000 OR PTE_P OR PTE_W, 0x15d000 OR PTE_P OR PTE_W, 0x15e000 OR PTE_P OR PTE_W, 0x15f000 OR PTE_P OR PTE_W,
     0x160000 OR PTE_P OR PTE_W, 0x161000 OR PTE_P OR PTE_W, 0x162000 OR PTE_P OR PTE_W, 0x163000 OR PTE_P OR PTE_W,
     0x164000 OR PTE_P OR PTE_W, 0x165000 OR PTE_P OR PTE_W, 0x166000 OR PTE_P OR PTE_W, 0x167000 OR PTE_P OR PTE_W,
     0x168000 OR PTE_P OR PTE_W, 0x169000 OR PTE_P OR PTE_W, 0x16a000 OR PTE_P OR PTE_W, 0x16b000 OR PTE_P OR PTE_W,
     0x16c000 OR PTE_P OR PTE_W, 0x16d000 OR PTE_P OR PTE_W, 0x16e000 OR PTE_P OR PTE_W, 0x16f000 OR PTE_P OR PTE_W,
     0x170000 OR PTE_P OR PTE_W, 0x171000 OR PTE_P OR PTE_W, 0x172000 OR PTE_P OR PTE_W, 0x173000 OR PTE_P OR PTE_W,
     0x174000 OR PTE_P OR PTE_W, 0x175000 OR PTE_P OR PTE_W, 0x176000 OR PTE_P OR PTE_W, 0x177000 OR PTE_P OR PTE_W,
     0x178000 OR PTE_P OR PTE_W, 0x179000 OR PTE_P OR PTE_W, 0x17a000 OR PTE_P OR PTE_W, 0x17b000 OR PTE_P OR PTE_W,
     0x17c000 OR PTE_P OR PTE_W, 0x17d000 OR PTE_P OR PTE_W, 0x17e000 OR PTE_P OR PTE_W, 0x17f000 OR PTE_P OR PTE_W]"

definition entry_pgtable_3 :: "u32 list" where
  "entry_pgtable_3 = [
     0x180000 OR PTE_P OR PTE_W, 0x181000 OR PTE_P OR PTE_W, 0x182000 OR PTE_P OR PTE_W, 0x183000 OR PTE_P OR PTE_W,
     0x184000 OR PTE_P OR PTE_W, 0x185000 OR PTE_P OR PTE_W, 0x186000 OR PTE_P OR PTE_W, 0x187000 OR PTE_P OR PTE_W,
     0x188000 OR PTE_P OR PTE_W, 0x189000 OR PTE_P OR PTE_W, 0x18a000 OR PTE_P OR PTE_W, 0x18b000 OR PTE_P OR PTE_W,
     0x18c000 OR PTE_P OR PTE_W, 0x18d000 OR PTE_P OR PTE_W, 0x18e000 OR PTE_P OR PTE_W, 0x18f000 OR PTE_P OR PTE_W,
     0x190000 OR PTE_P OR PTE_W, 0x191000 OR PTE_P OR PTE_W, 0x192000 OR PTE_P OR PTE_W, 0x193000 OR PTE_P OR PTE_W,
     0x194000 OR PTE_P OR PTE_W, 0x195000 OR PTE_P OR PTE_W, 0x196000 OR PTE_P OR PTE_W, 0x197000 OR PTE_P OR PTE_W,
     0x198000 OR PTE_P OR PTE_W, 0x199000 OR PTE_P OR PTE_W, 0x19a000 OR PTE_P OR PTE_W, 0x19b000 OR PTE_P OR PTE_W,
     0x19c000 OR PTE_P OR PTE_W, 0x19d000 OR PTE_P OR PTE_W, 0x19e000 OR PTE_P OR PTE_W, 0x19f000 OR PTE_P OR PTE_W,
     0x1a0000 OR PTE_P OR PTE_W, 0x1a1000 OR PTE_P OR PTE_W, 0x1a2000 OR PTE_P OR PTE_W, 0x1a3000 OR PTE_P OR PTE_W,
     0x1a4000 OR PTE_P OR PTE_W, 0x1a5000 OR PTE_P OR PTE_W, 0x1a6000 OR PTE_P OR PTE_W, 0x1a7000 OR PTE_P OR PTE_W,
     0x1a8000 OR PTE_P OR PTE_W, 0x1a9000 OR PTE_P OR PTE_W, 0x1aa000 OR PTE_P OR PTE_W, 0x1ab000 OR PTE_P OR PTE_W,
     0x1ac000 OR PTE_P OR PTE_W, 0x1ad000 OR PTE_P OR PTE_W, 0x1ae000 OR PTE_P OR PTE_W, 0x1af000 OR PTE_P OR PTE_W,
     0x1b0000 OR PTE_P OR PTE_W, 0x1b1000 OR PTE_P OR PTE_W, 0x1b2000 OR PTE_P OR PTE_W, 0x1b3000 OR PTE_P OR PTE_W,
     0x1b4000 OR PTE_P OR PTE_W, 0x1b5000 OR PTE_P OR PTE_W, 0x1b6000 OR PTE_P OR PTE_W, 0x1b7000 OR PTE_P OR PTE_W,
     0x1b8000 OR PTE_P OR PTE_W, 0x1b9000 OR PTE_P OR PTE_W, 0x1ba000 OR PTE_P OR PTE_W, 0x1bb000 OR PTE_P OR PTE_W,
     0x1bc000 OR PTE_P OR PTE_W, 0x1bd000 OR PTE_P OR PTE_W, 0x1be000 OR PTE_P OR PTE_W, 0x1bf000 OR PTE_P OR PTE_W,
     0x1c0000 OR PTE_P OR PTE_W, 0x1c1000 OR PTE_P OR PTE_W, 0x1c2000 OR PTE_P OR PTE_W, 0x1c3000 OR PTE_P OR PTE_W,
     0x1c4000 OR PTE_P OR PTE_W, 0x1c5000 OR PTE_P OR PTE_W, 0x1c6000 OR PTE_P OR PTE_W, 0x1c7000 OR PTE_P OR PTE_W,
     0x1c8000 OR PTE_P OR PTE_W, 0x1c9000 OR PTE_P OR PTE_W, 0x1ca000 OR PTE_P OR PTE_W, 0x1cb000 OR PTE_P OR PTE_W,
     0x1cc000 OR PTE_P OR PTE_W, 0x1cd000 OR PTE_P OR PTE_W, 0x1ce000 OR PTE_P OR PTE_W, 0x1cf000 OR PTE_P OR PTE_W,
     0x1d0000 OR PTE_P OR PTE_W, 0x1d1000 OR PTE_P OR PTE_W, 0x1d2000 OR PTE_P OR PTE_W, 0x1d3000 OR PTE_P OR PTE_W,
     0x1d4000 OR PTE_P OR PTE_W, 0x1d5000 OR PTE_P OR PTE_W, 0x1d6000 OR PTE_P OR PTE_W, 0x1d7000 OR PTE_P OR PTE_W,
     0x1d8000 OR PTE_P OR PTE_W, 0x1d9000 OR PTE_P OR PTE_W, 0x1da000 OR PTE_P OR PTE_W, 0x1db000 OR PTE_P OR PTE_W,
     0x1dc000 OR PTE_P OR PTE_W, 0x1dd000 OR PTE_P OR PTE_W, 0x1de000 OR PTE_P OR PTE_W, 0x1df000 OR PTE_P OR PTE_W,
     0x1e0000 OR PTE_P OR PTE_W, 0x1e1000 OR PTE_P OR PTE_W, 0x1e2000 OR PTE_P OR PTE_W, 0x1e3000 OR PTE_P OR PTE_W,
     0x1e4000 OR PTE_P OR PTE_W, 0x1e5000 OR PTE_P OR PTE_W, 0x1e6000 OR PTE_P OR PTE_W, 0x1e7000 OR PTE_P OR PTE_W,
     0x1e8000 OR PTE_P OR PTE_W, 0x1e9000 OR PTE_P OR PTE_W, 0x1ea000 OR PTE_P OR PTE_W, 0x1eb000 OR PTE_P OR PTE_W,
     0x1ec000 OR PTE_P OR PTE_W, 0x1ed000 OR PTE_P OR PTE_W, 0x1ee000 OR PTE_P OR PTE_W, 0x1ef000 OR PTE_P OR PTE_W,
     0x1f0000 OR PTE_P OR PTE_W, 0x1f1000 OR PTE_P OR PTE_W, 0x1f2000 OR PTE_P OR PTE_W, 0x1f3000 OR PTE_P OR PTE_W,
     0x1f4000 OR PTE_P OR PTE_W, 0x1f5000 OR PTE_P OR PTE_W, 0x1f6000 OR PTE_P OR PTE_W, 0x1f7000 OR PTE_P OR PTE_W,
     0x1f8000 OR PTE_P OR PTE_W, 0x1f9000 OR PTE_P OR PTE_W, 0x1fa000 OR PTE_P OR PTE_W, 0x1fb000 OR PTE_P OR PTE_W,
     0x1fc000 OR PTE_P OR PTE_W, 0x1fd000 OR PTE_P OR PTE_W, 0x1fe000 OR PTE_P OR PTE_W, 0x1ff000 OR PTE_P OR PTE_W]"

definition entry_pgtable_4 :: "u32 list" where
  "entry_pgtable_4 = [
     0x200000 OR PTE_P OR PTE_W, 0x201000 OR PTE_P OR PTE_W, 0x202000 OR PTE_P OR PTE_W, 0x203000 OR PTE_P OR PTE_W,
     0x204000 OR PTE_P OR PTE_W, 0x205000 OR PTE_P OR PTE_W, 0x206000 OR PTE_P OR PTE_W, 0x207000 OR PTE_P OR PTE_W,
     0x208000 OR PTE_P OR PTE_W, 0x209000 OR PTE_P OR PTE_W, 0x20a000 OR PTE_P OR PTE_W, 0x20b000 OR PTE_P OR PTE_W,
     0x20c000 OR PTE_P OR PTE_W, 0x20d000 OR PTE_P OR PTE_W, 0x20e000 OR PTE_P OR PTE_W, 0x20f000 OR PTE_P OR PTE_W,
     0x210000 OR PTE_P OR PTE_W, 0x211000 OR PTE_P OR PTE_W, 0x212000 OR PTE_P OR PTE_W, 0x213000 OR PTE_P OR PTE_W,
     0x214000 OR PTE_P OR PTE_W, 0x215000 OR PTE_P OR PTE_W, 0x216000 OR PTE_P OR PTE_W, 0x217000 OR PTE_P OR PTE_W,
     0x218000 OR PTE_P OR PTE_W, 0x219000 OR PTE_P OR PTE_W, 0x21a000 OR PTE_P OR PTE_W, 0x21b000 OR PTE_P OR PTE_W,
     0x21c000 OR PTE_P OR PTE_W, 0x21d000 OR PTE_P OR PTE_W, 0x21e000 OR PTE_P OR PTE_W, 0x21f000 OR PTE_P OR PTE_W,
     0x220000 OR PTE_P OR PTE_W, 0x221000 OR PTE_P OR PTE_W, 0x222000 OR PTE_P OR PTE_W, 0x223000 OR PTE_P OR PTE_W,
     0x224000 OR PTE_P OR PTE_W, 0x225000 OR PTE_P OR PTE_W, 0x226000 OR PTE_P OR PTE_W, 0x227000 OR PTE_P OR PTE_W,
     0x228000 OR PTE_P OR PTE_W, 0x229000 OR PTE_P OR PTE_W, 0x22a000 OR PTE_P OR PTE_W, 0x22b000 OR PTE_P OR PTE_W,
     0x22c000 OR PTE_P OR PTE_W, 0x22d000 OR PTE_P OR PTE_W, 0x22e000 OR PTE_P OR PTE_W, 0x22f000 OR PTE_P OR PTE_W,
     0x230000 OR PTE_P OR PTE_W, 0x231000 OR PTE_P OR PTE_W, 0x232000 OR PTE_P OR PTE_W, 0x233000 OR PTE_P OR PTE_W,
     0x234000 OR PTE_P OR PTE_W, 0x235000 OR PTE_P OR PTE_W, 0x236000 OR PTE_P OR PTE_W, 0x237000 OR PTE_P OR PTE_W,
     0x238000 OR PTE_P OR PTE_W, 0x239000 OR PTE_P OR PTE_W, 0x23a000 OR PTE_P OR PTE_W, 0x23b000 OR PTE_P OR PTE_W,
     0x23c000 OR PTE_P OR PTE_W, 0x23d000 OR PTE_P OR PTE_W, 0x23e000 OR PTE_P OR PTE_W, 0x23f000 OR PTE_P OR PTE_W,
     0x240000 OR PTE_P OR PTE_W, 0x241000 OR PTE_P OR PTE_W, 0x242000 OR PTE_P OR PTE_W, 0x243000 OR PTE_P OR PTE_W,
     0x244000 OR PTE_P OR PTE_W, 0x245000 OR PTE_P OR PTE_W, 0x246000 OR PTE_P OR PTE_W, 0x247000 OR PTE_P OR PTE_W,
     0x248000 OR PTE_P OR PTE_W, 0x249000 OR PTE_P OR PTE_W, 0x24a000 OR PTE_P OR PTE_W, 0x24b000 OR PTE_P OR PTE_W,
     0x24c000 OR PTE_P OR PTE_W, 0x24d000 OR PTE_P OR PTE_W, 0x24e000 OR PTE_P OR PTE_W, 0x24f000 OR PTE_P OR PTE_W,
     0x250000 OR PTE_P OR PTE_W, 0x251000 OR PTE_P OR PTE_W, 0x252000 OR PTE_P OR PTE_W, 0x253000 OR PTE_P OR PTE_W,
     0x254000 OR PTE_P OR PTE_W, 0x255000 OR PTE_P OR PTE_W, 0x256000 OR PTE_P OR PTE_W, 0x257000 OR PTE_P OR PTE_W,
     0x258000 OR PTE_P OR PTE_W, 0x259000 OR PTE_P OR PTE_W, 0x25a000 OR PTE_P OR PTE_W, 0x25b000 OR PTE_P OR PTE_W,
     0x25c000 OR PTE_P OR PTE_W, 0x25d000 OR PTE_P OR PTE_W, 0x25e000 OR PTE_P OR PTE_W, 0x25f000 OR PTE_P OR PTE_W,
     0x260000 OR PTE_P OR PTE_W, 0x261000 OR PTE_P OR PTE_W, 0x262000 OR PTE_P OR PTE_W, 0x263000 OR PTE_P OR PTE_W,
     0x264000 OR PTE_P OR PTE_W, 0x265000 OR PTE_P OR PTE_W, 0x266000 OR PTE_P OR PTE_W, 0x267000 OR PTE_P OR PTE_W,
     0x268000 OR PTE_P OR PTE_W, 0x269000 OR PTE_P OR PTE_W, 0x26a000 OR PTE_P OR PTE_W, 0x26b000 OR PTE_P OR PTE_W,
     0x26c000 OR PTE_P OR PTE_W, 0x26d000 OR PTE_P OR PTE_W, 0x26e000 OR PTE_P OR PTE_W, 0x26f000 OR PTE_P OR PTE_W,
     0x270000 OR PTE_P OR PTE_W, 0x271000 OR PTE_P OR PTE_W, 0x272000 OR PTE_P OR PTE_W, 0x273000 OR PTE_P OR PTE_W,
     0x274000 OR PTE_P OR PTE_W, 0x275000 OR PTE_P OR PTE_W, 0x276000 OR PTE_P OR PTE_W, 0x277000 OR PTE_P OR PTE_W,
     0x278000 OR PTE_P OR PTE_W, 0x279000 OR PTE_P OR PTE_W, 0x27a000 OR PTE_P OR PTE_W, 0x27b000 OR PTE_P OR PTE_W,
     0x27c000 OR PTE_P OR PTE_W, 0x27d000 OR PTE_P OR PTE_W, 0x27e000 OR PTE_P OR PTE_W, 0x27f000 OR PTE_P OR PTE_W]"

definition entry_pgtable_5 :: "u32 list" where
  "entry_pgtable_5 = [
     0x280000 OR PTE_P OR PTE_W, 0x281000 OR PTE_P OR PTE_W, 0x282000 OR PTE_P OR PTE_W, 0x283000 OR PTE_P OR PTE_W,
     0x284000 OR PTE_P OR PTE_W, 0x285000 OR PTE_P OR PTE_W, 0x286000 OR PTE_P OR PTE_W, 0x287000 OR PTE_P OR PTE_W,
     0x288000 OR PTE_P OR PTE_W, 0x289000 OR PTE_P OR PTE_W, 0x28a000 OR PTE_P OR PTE_W, 0x28b000 OR PTE_P OR PTE_W,
     0x28c000 OR PTE_P OR PTE_W, 0x28d000 OR PTE_P OR PTE_W, 0x28e000 OR PTE_P OR PTE_W, 0x28f000 OR PTE_P OR PTE_W,
     0x290000 OR PTE_P OR PTE_W, 0x291000 OR PTE_P OR PTE_W, 0x292000 OR PTE_P OR PTE_W, 0x293000 OR PTE_P OR PTE_W,
     0x294000 OR PTE_P OR PTE_W, 0x295000 OR PTE_P OR PTE_W, 0x296000 OR PTE_P OR PTE_W, 0x297000 OR PTE_P OR PTE_W,
     0x298000 OR PTE_P OR PTE_W, 0x299000 OR PTE_P OR PTE_W, 0x29a000 OR PTE_P OR PTE_W, 0x29b000 OR PTE_P OR PTE_W,
     0x29c000 OR PTE_P OR PTE_W, 0x29d000 OR PTE_P OR PTE_W, 0x29e000 OR PTE_P OR PTE_W, 0x29f000 OR PTE_P OR PTE_W,
     0x2a0000 OR PTE_P OR PTE_W, 0x2a1000 OR PTE_P OR PTE_W, 0x2a2000 OR PTE_P OR PTE_W, 0x2a3000 OR PTE_P OR PTE_W,
     0x2a4000 OR PTE_P OR PTE_W, 0x2a5000 OR PTE_P OR PTE_W, 0x2a6000 OR PTE_P OR PTE_W, 0x2a7000 OR PTE_P OR PTE_W,
     0x2a8000 OR PTE_P OR PTE_W, 0x2a9000 OR PTE_P OR PTE_W, 0x2aa000 OR PTE_P OR PTE_W, 0x2ab000 OR PTE_P OR PTE_W,
     0x2ac000 OR PTE_P OR PTE_W, 0x2ad000 OR PTE_P OR PTE_W, 0x2ae000 OR PTE_P OR PTE_W, 0x2af000 OR PTE_P OR PTE_W,
     0x2b0000 OR PTE_P OR PTE_W, 0x2b1000 OR PTE_P OR PTE_W, 0x2b2000 OR PTE_P OR PTE_W, 0x2b3000 OR PTE_P OR PTE_W,
     0x2b4000 OR PTE_P OR PTE_W, 0x2b5000 OR PTE_P OR PTE_W, 0x2b6000 OR PTE_P OR PTE_W, 0x2b7000 OR PTE_P OR PTE_W,
     0x2b8000 OR PTE_P OR PTE_W, 0x2b9000 OR PTE_P OR PTE_W, 0x2ba000 OR PTE_P OR PTE_W, 0x2bb000 OR PTE_P OR PTE_W,
     0x2bc000 OR PTE_P OR PTE_W, 0x2bd000 OR PTE_P OR PTE_W, 0x2be000 OR PTE_P OR PTE_W, 0x2bf000 OR PTE_P OR PTE_W,
     0x2c0000 OR PTE_P OR PTE_W, 0x2c1000 OR PTE_P OR PTE_W, 0x2c2000 OR PTE_P OR PTE_W, 0x2c3000 OR PTE_P OR PTE_W,
     0x2c4000 OR PTE_P OR PTE_W, 0x2c5000 OR PTE_P OR PTE_W, 0x2c6000 OR PTE_P OR PTE_W, 0x2c7000 OR PTE_P OR PTE_W,
     0x2c8000 OR PTE_P OR PTE_W, 0x2c9000 OR PTE_P OR PTE_W, 0x2ca000 OR PTE_P OR PTE_W, 0x2cb000 OR PTE_P OR PTE_W,
     0x2cc000 OR PTE_P OR PTE_W, 0x2cd000 OR PTE_P OR PTE_W, 0x2ce000 OR PTE_P OR PTE_W, 0x2cf000 OR PTE_P OR PTE_W,
     0x2d0000 OR PTE_P OR PTE_W, 0x2d1000 OR PTE_P OR PTE_W, 0x2d2000 OR PTE_P OR PTE_W, 0x2d3000 OR PTE_P OR PTE_W,
     0x2d4000 OR PTE_P OR PTE_W, 0x2d5000 OR PTE_P OR PTE_W, 0x2d6000 OR PTE_P OR PTE_W, 0x2d7000 OR PTE_P OR PTE_W,
     0x2d8000 OR PTE_P OR PTE_W, 0x2d9000 OR PTE_P OR PTE_W, 0x2da000 OR PTE_P OR PTE_W, 0x2db000 OR PTE_P OR PTE_W,
     0x2dc000 OR PTE_P OR PTE_W, 0x2dd000 OR PTE_P OR PTE_W, 0x2de000 OR PTE_P OR PTE_W, 0x2df000 OR PTE_P OR PTE_W,
     0x2e0000 OR PTE_P OR PTE_W, 0x2e1000 OR PTE_P OR PTE_W, 0x2e2000 OR PTE_P OR PTE_W, 0x2e3000 OR PTE_P OR PTE_W,
     0x2e4000 OR PTE_P OR PTE_W, 0x2e5000 OR PTE_P OR PTE_W, 0x2e6000 OR PTE_P OR PTE_W, 0x2e7000 OR PTE_P OR PTE_W,
     0x2e8000 OR PTE_P OR PTE_W, 0x2e9000 OR PTE_P OR PTE_W, 0x2ea000 OR PTE_P OR PTE_W, 0x2eb000 OR PTE_P OR PTE_W,
     0x2ec000 OR PTE_P OR PTE_W, 0x2ed000 OR PTE_P OR PTE_W, 0x2ee000 OR PTE_P OR PTE_W, 0x2ef000 OR PTE_P OR PTE_W,
     0x2f0000 OR PTE_P OR PTE_W, 0x2f1000 OR PTE_P OR PTE_W, 0x2f2000 OR PTE_P OR PTE_W, 0x2f3000 OR PTE_P OR PTE_W,
     0x2f4000 OR PTE_P OR PTE_W, 0x2f5000 OR PTE_P OR PTE_W, 0x2f6000 OR PTE_P OR PTE_W, 0x2f7000 OR PTE_P OR PTE_W,
     0x2f8000 OR PTE_P OR PTE_W, 0x2f9000 OR PTE_P OR PTE_W, 0x2fa000 OR PTE_P OR PTE_W, 0x2fb000 OR PTE_P OR PTE_W,
     0x2fc000 OR PTE_P OR PTE_W, 0x2fd000 OR PTE_P OR PTE_W, 0x2fe000 OR PTE_P OR PTE_W, 0x2ff000 OR PTE_P OR PTE_W]"

definition entry_pgtable_6 :: "u32 list" where
  "entry_pgtable_6 = [
     0x300000 OR PTE_P OR PTE_W, 0x301000 OR PTE_P OR PTE_W, 0x302000 OR PTE_P OR PTE_W, 0x303000 OR PTE_P OR PTE_W,
     0x304000 OR PTE_P OR PTE_W, 0x305000 OR PTE_P OR PTE_W, 0x306000 OR PTE_P OR PTE_W, 0x307000 OR PTE_P OR PTE_W,
     0x308000 OR PTE_P OR PTE_W, 0x309000 OR PTE_P OR PTE_W, 0x30a000 OR PTE_P OR PTE_W, 0x30b000 OR PTE_P OR PTE_W,
     0x30c000 OR PTE_P OR PTE_W, 0x30d000 OR PTE_P OR PTE_W, 0x30e000 OR PTE_P OR PTE_W, 0x30f000 OR PTE_P OR PTE_W,
     0x310000 OR PTE_P OR PTE_W, 0x311000 OR PTE_P OR PTE_W, 0x312000 OR PTE_P OR PTE_W, 0x313000 OR PTE_P OR PTE_W,
     0x314000 OR PTE_P OR PTE_W, 0x315000 OR PTE_P OR PTE_W, 0x316000 OR PTE_P OR PTE_W, 0x317000 OR PTE_P OR PTE_W,
     0x318000 OR PTE_P OR PTE_W, 0x319000 OR PTE_P OR PTE_W, 0x31a000 OR PTE_P OR PTE_W, 0x31b000 OR PTE_P OR PTE_W,
     0x31c000 OR PTE_P OR PTE_W, 0x31d000 OR PTE_P OR PTE_W, 0x31e000 OR PTE_P OR PTE_W, 0x31f000 OR PTE_P OR PTE_W,
     0x320000 OR PTE_P OR PTE_W, 0x321000 OR PTE_P OR PTE_W, 0x322000 OR PTE_P OR PTE_W, 0x323000 OR PTE_P OR PTE_W,
     0x324000 OR PTE_P OR PTE_W, 0x325000 OR PTE_P OR PTE_W, 0x326000 OR PTE_P OR PTE_W, 0x327000 OR PTE_P OR PTE_W,
     0x328000 OR PTE_P OR PTE_W, 0x329000 OR PTE_P OR PTE_W, 0x32a000 OR PTE_P OR PTE_W, 0x32b000 OR PTE_P OR PTE_W,
     0x32c000 OR PTE_P OR PTE_W, 0x32d000 OR PTE_P OR PTE_W, 0x32e000 OR PTE_P OR PTE_W, 0x32f000 OR PTE_P OR PTE_W,
     0x330000 OR PTE_P OR PTE_W, 0x331000 OR PTE_P OR PTE_W, 0x332000 OR PTE_P OR PTE_W, 0x333000 OR PTE_P OR PTE_W,
     0x334000 OR PTE_P OR PTE_W, 0x335000 OR PTE_P OR PTE_W, 0x336000 OR PTE_P OR PTE_W, 0x337000 OR PTE_P OR PTE_W,
     0x338000 OR PTE_P OR PTE_W, 0x339000 OR PTE_P OR PTE_W, 0x33a000 OR PTE_P OR PTE_W, 0x33b000 OR PTE_P OR PTE_W,
     0x33c000 OR PTE_P OR PTE_W, 0x33d000 OR PTE_P OR PTE_W, 0x33e000 OR PTE_P OR PTE_W, 0x33f000 OR PTE_P OR PTE_W,
     0x340000 OR PTE_P OR PTE_W, 0x341000 OR PTE_P OR PTE_W, 0x342000 OR PTE_P OR PTE_W, 0x343000 OR PTE_P OR PTE_W,
     0x344000 OR PTE_P OR PTE_W, 0x345000 OR PTE_P OR PTE_W, 0x346000 OR PTE_P OR PTE_W, 0x347000 OR PTE_P OR PTE_W,
     0x348000 OR PTE_P OR PTE_W, 0x349000 OR PTE_P OR PTE_W, 0x34a000 OR PTE_P OR PTE_W, 0x34b000 OR PTE_P OR PTE_W,
     0x34c000 OR PTE_P OR PTE_W, 0x34d000 OR PTE_P OR PTE_W, 0x34e000 OR PTE_P OR PTE_W, 0x34f000 OR PTE_P OR PTE_W,
     0x350000 OR PTE_P OR PTE_W, 0x351000 OR PTE_P OR PTE_W, 0x352000 OR PTE_P OR PTE_W, 0x353000 OR PTE_P OR PTE_W,
     0x354000 OR PTE_P OR PTE_W, 0x355000 OR PTE_P OR PTE_W, 0x356000 OR PTE_P OR PTE_W, 0x357000 OR PTE_P OR PTE_W,
     0x358000 OR PTE_P OR PTE_W, 0x359000 OR PTE_P OR PTE_W, 0x35a000 OR PTE_P OR PTE_W, 0x35b000 OR PTE_P OR PTE_W,
     0x35c000 OR PTE_P OR PTE_W, 0x35d000 OR PTE_P OR PTE_W, 0x35e000 OR PTE_P OR PTE_W, 0x35f000 OR PTE_P OR PTE_W,
     0x360000 OR PTE_P OR PTE_W, 0x361000 OR PTE_P OR PTE_W, 0x362000 OR PTE_P OR PTE_W, 0x363000 OR PTE_P OR PTE_W,
     0x364000 OR PTE_P OR PTE_W, 0x365000 OR PTE_P OR PTE_W, 0x366000 OR PTE_P OR PTE_W, 0x367000 OR PTE_P OR PTE_W,
     0x368000 OR PTE_P OR PTE_W, 0x369000 OR PTE_P OR PTE_W, 0x36a000 OR PTE_P OR PTE_W, 0x36b000 OR PTE_P OR PTE_W,
     0x36c000 OR PTE_P OR PTE_W, 0x36d000 OR PTE_P OR PTE_W, 0x36e000 OR PTE_P OR PTE_W, 0x36f000 OR PTE_P OR PTE_W,
     0x370000 OR PTE_P OR PTE_W, 0x371000 OR PTE_P OR PTE_W, 0x372000 OR PTE_P OR PTE_W, 0x373000 OR PTE_P OR PTE_W,
     0x374000 OR PTE_P OR PTE_W, 0x375000 OR PTE_P OR PTE_W, 0x376000 OR PTE_P OR PTE_W, 0x377000 OR PTE_P OR PTE_W,
     0x378000 OR PTE_P OR PTE_W, 0x379000 OR PTE_P OR PTE_W, 0x37a000 OR PTE_P OR PTE_W, 0x37b000 OR PTE_P OR PTE_W,
     0x37c000 OR PTE_P OR PTE_W, 0x37d000 OR PTE_P OR PTE_W, 0x37e000 OR PTE_P OR PTE_W, 0x37f000 OR PTE_P OR PTE_W]"

definition entry_pgtable_7 :: "u32 list" where
  "entry_pgtable_7 = [
     0x380000 OR PTE_P OR PTE_W, 0x381000 OR PTE_P OR PTE_W, 0x382000 OR PTE_P OR PTE_W, 0x383000 OR PTE_P OR PTE_W,
     0x384000 OR PTE_P OR PTE_W, 0x385000 OR PTE_P OR PTE_W, 0x386000 OR PTE_P OR PTE_W, 0x387000 OR PTE_P OR PTE_W,
     0x388000 OR PTE_P OR PTE_W, 0x389000 OR PTE_P OR PTE_W, 0x38a000 OR PTE_P OR PTE_W, 0x38b000 OR PTE_P OR PTE_W,
     0x38c000 OR PTE_P OR PTE_W, 0x38d000 OR PTE_P OR PTE_W, 0x38e000 OR PTE_P OR PTE_W, 0x38f000 OR PTE_P OR PTE_W,
     0x390000 OR PTE_P OR PTE_W, 0x391000 OR PTE_P OR PTE_W, 0x392000 OR PTE_P OR PTE_W, 0x393000 OR PTE_P OR PTE_W,
     0x394000 OR PTE_P OR PTE_W, 0x395000 OR PTE_P OR PTE_W, 0x396000 OR PTE_P OR PTE_W, 0x397000 OR PTE_P OR PTE_W,
     0x398000 OR PTE_P OR PTE_W, 0x399000 OR PTE_P OR PTE_W, 0x39a000 OR PTE_P OR PTE_W, 0x39b000 OR PTE_P OR PTE_W,
     0x39c000 OR PTE_P OR PTE_W, 0x39d000 OR PTE_P OR PTE_W, 0x39e000 OR PTE_P OR PTE_W, 0x39f000 OR PTE_P OR PTE_W,
     0x3a0000 OR PTE_P OR PTE_W, 0x3a1000 OR PTE_P OR PTE_W, 0x3a2000 OR PTE_P OR PTE_W, 0x3a3000 OR PTE_P OR PTE_W,
     0x3a4000 OR PTE_P OR PTE_W, 0x3a5000 OR PTE_P OR PTE_W, 0x3a6000 OR PTE_P OR PTE_W, 0x3a7000 OR PTE_P OR PTE_W,
     0x3a8000 OR PTE_P OR PTE_W, 0x3a9000 OR PTE_P OR PTE_W, 0x3aa000 OR PTE_P OR PTE_W, 0x3ab000 OR PTE_P OR PTE_W,
     0x3ac000 OR PTE_P OR PTE_W, 0x3ad000 OR PTE_P OR PTE_W, 0x3ae000 OR PTE_P OR PTE_W, 0x3af000 OR PTE_P OR PTE_W,
     0x3b0000 OR PTE_P OR PTE_W, 0x3b1000 OR PTE_P OR PTE_W, 0x3b2000 OR PTE_P OR PTE_W, 0x3b3000 OR PTE_P OR PTE_W,
     0x3b4000 OR PTE_P OR PTE_W, 0x3b5000 OR PTE_P OR PTE_W, 0x3b6000 OR PTE_P OR PTE_W, 0x3b7000 OR PTE_P OR PTE_W,
     0x3b8000 OR PTE_P OR PTE_W, 0x3b9000 OR PTE_P OR PTE_W, 0x3ba000 OR PTE_P OR PTE_W, 0x3bb000 OR PTE_P OR PTE_W,
     0x3bc000 OR PTE_P OR PTE_W, 0x3bd000 OR PTE_P OR PTE_W, 0x3be000 OR PTE_P OR PTE_W, 0x3bf000 OR PTE_P OR PTE_W,
     0x3c0000 OR PTE_P OR PTE_W, 0x3c1000 OR PTE_P OR PTE_W, 0x3c2000 OR PTE_P OR PTE_W, 0x3c3000 OR PTE_P OR PTE_W,
     0x3c4000 OR PTE_P OR PTE_W, 0x3c5000 OR PTE_P OR PTE_W, 0x3c6000 OR PTE_P OR PTE_W, 0x3c7000 OR PTE_P OR PTE_W,
     0x3c8000 OR PTE_P OR PTE_W, 0x3c9000 OR PTE_P OR PTE_W, 0x3ca000 OR PTE_P OR PTE_W, 0x3cb000 OR PTE_P OR PTE_W,
     0x3cc000 OR PTE_P OR PTE_W, 0x3cd000 OR PTE_P OR PTE_W, 0x3ce000 OR PTE_P OR PTE_W, 0x3cf000 OR PTE_P OR PTE_W,
     0x3d0000 OR PTE_P OR PTE_W, 0x3d1000 OR PTE_P OR PTE_W, 0x3d2000 OR PTE_P OR PTE_W, 0x3d3000 OR PTE_P OR PTE_W,
     0x3d4000 OR PTE_P OR PTE_W, 0x3d5000 OR PTE_P OR PTE_W, 0x3d6000 OR PTE_P OR PTE_W, 0x3d7000 OR PTE_P OR PTE_W,
     0x3d8000 OR PTE_P OR PTE_W, 0x3d9000 OR PTE_P OR PTE_W, 0x3da000 OR PTE_P OR PTE_W, 0x3db000 OR PTE_P OR PTE_W,
     0x3dc000 OR PTE_P OR PTE_W, 0x3dd000 OR PTE_P OR PTE_W, 0x3de000 OR PTE_P OR PTE_W, 0x3df000 OR PTE_P OR PTE_W,
     0x3e0000 OR PTE_P OR PTE_W, 0x3e1000 OR PTE_P OR PTE_W, 0x3e2000 OR PTE_P OR PTE_W, 0x3e3000 OR PTE_P OR PTE_W,
     0x3e4000 OR PTE_P OR PTE_W, 0x3e5000 OR PTE_P OR PTE_W, 0x3e6000 OR PTE_P OR PTE_W, 0x3e7000 OR PTE_P OR PTE_W,
     0x3e8000 OR PTE_P OR PTE_W, 0x3e9000 OR PTE_P OR PTE_W, 0x3ea000 OR PTE_P OR PTE_W, 0x3eb000 OR PTE_P OR PTE_W,
     0x3ec000 OR PTE_P OR PTE_W, 0x3ed000 OR PTE_P OR PTE_W, 0x3ee000 OR PTE_P OR PTE_W, 0x3ef000 OR PTE_P OR PTE_W,
     0x3f0000 OR PTE_P OR PTE_W, 0x3f1000 OR PTE_P OR PTE_W, 0x3f2000 OR PTE_P OR PTE_W, 0x3f3000 OR PTE_P OR PTE_W,
     0x3f4000 OR PTE_P OR PTE_W, 0x3f5000 OR PTE_P OR PTE_W, 0x3f6000 OR PTE_P OR PTE_W, 0x3f7000 OR PTE_P OR PTE_W,
     0x3f8000 OR PTE_P OR PTE_W, 0x3f9000 OR PTE_P OR PTE_W, 0x3fa000 OR PTE_P OR PTE_W, 0x3fb000 OR PTE_P OR PTE_W,
     0x3fc000 OR PTE_P OR PTE_W, 0x3fd000 OR PTE_P OR PTE_W, 0x3fe000 OR PTE_P OR PTE_W, 0x3ff000 OR PTE_P OR PTE_W]"

definition entry_pgtable :: "u32 list" where
  "entry_pgtable = entry_pgtable_0 @ entry_pgtable_1 @ entry_pgtable_2 @ entry_pgtable_3 @ entry_pgtable_4
     @ entry_pgtable_5 @ entry_pgtable_6 @ entry_pgtable_7"

text \<open>The address of the page table is a parameter, chosen by the linker. The array starts as zero.\<close>

definition entry_pgdir :: "u32 \<Rightarrow> u32 list" where
  "entry_pgdir pgtable =
     (replicate NPDENTRIES 0)[0 := (pgtable - KERNBASE) + PTE_P,
       unat (drop_bit PDXSHIFT KERNBASE) := (pgtable - KERNBASE) + PTE_P + PTE_W]"

section \<open>The table is the identity\<close>

definition identity_pte :: "nat \<Rightarrow> u32" where
  "identity_pte i = of_nat i * 4096 OR 3"

lemma entry_pgtable_part_0: "entry_pgtable_0 = map identity_pte [0..<128]"
proof -
  have "[0..<128] = 0 # 1 # [2..<128]" by (simp add: upt_conv_Cons numeral_2_eq_2)
  then show ?thesis
    by (simp add: entry_pgtable_0_def identity_pte_def upt_rec_numeral PTE_P_def PTE_W_def)
qed

lemma entry_pgtable_part_1: "entry_pgtable_1 = map identity_pte [128..<256]"
  by (simp add: entry_pgtable_1_def identity_pte_def upt_rec_numeral PTE_P_def PTE_W_def)

lemma entry_pgtable_part_2: "entry_pgtable_2 = map identity_pte [256..<384]"
  by (simp add: entry_pgtable_2_def identity_pte_def upt_rec_numeral PTE_P_def PTE_W_def)

lemma entry_pgtable_part_3: "entry_pgtable_3 = map identity_pte [384..<512]"
  by (simp add: entry_pgtable_3_def identity_pte_def upt_rec_numeral PTE_P_def PTE_W_def)

lemma entry_pgtable_part_4: "entry_pgtable_4 = map identity_pte [512..<640]"
  by (simp add: entry_pgtable_4_def identity_pte_def upt_rec_numeral PTE_P_def PTE_W_def)

lemma entry_pgtable_part_5: "entry_pgtable_5 = map identity_pte [640..<768]"
  by (simp add: entry_pgtable_5_def identity_pte_def upt_rec_numeral PTE_P_def PTE_W_def)

lemma entry_pgtable_part_6: "entry_pgtable_6 = map identity_pte [768..<896]"
  by (simp add: entry_pgtable_6_def identity_pte_def upt_rec_numeral PTE_P_def PTE_W_def)

lemma entry_pgtable_part_7: "entry_pgtable_7 = map identity_pte [896..<1024]"
  by (simp add: entry_pgtable_7_def identity_pte_def upt_rec_numeral PTE_P_def PTE_W_def)

lemmas entry_pgtable_parts = entry_pgtable_part_0 entry_pgtable_part_1 entry_pgtable_part_2 entry_pgtable_part_3
  entry_pgtable_part_4 entry_pgtable_part_5 entry_pgtable_part_6 entry_pgtable_part_7

lemma upt_join: "i \<le> j \<Longrightarrow> j \<le> k \<Longrightarrow> [i..<j] @ [j..<k] = [i..<k]"
  using upt_add_eq_append [of i j "k - j"] by simp

lemma entry_pgtable_identity: "entry_pgtable = map identity_pte [0..<1024]"
  unfolding entry_pgtable_def entry_pgtable_parts map_append [symmetric]
  by (simp only: upt_join)

section \<open>What the hardware does with the tables\<close>

lemma aligned_mask:
  assumes "pt AND 0xFFF = (0 :: u32)" "k \<le> 12"
  shows "pt + mask k = pt OR mask k" "PTE_ADDR (pt + mask k) = pt"
    "i < k \<Longrightarrow> (pt + mask k) AND push_bit i 1 = push_bit i 1" "k \<le> i \<Longrightarrow> i < 12 \<Longrightarrow> (pt + mask k) AND push_bit i 1 = 0"
proof -
  have nb: "\<not> bit pt n" if "n < 12" for n
    using arg_cong [OF assms(1) [unfolded mask_take_bit], of "\<lambda>x. bit x n"] that by (simp add: bit_take_bit_iff)
  then have "\<not> bit pt n \<or> \<not> bit (mask k :: u32) n" for n
    using assms(2) by (cases "n < 12") (auto simp: bit_mask_iff)
  then show add: "pt + mask k = pt OR mask k" by (intro disjunctive_add) blast
  have m12: "(0xFFF :: u32) = mask 12" by (simp add: mask_eq_exp_minus_1)
  show "PTE_ADDR (pt + mask k) = pt"
    unfolding add PTE_ADDR_def m12
    by (rule bit_word_eqI) (use nb assms(2) in \<open>auto simp: bit_simps\<close>)
  show "i < k \<Longrightarrow> (pt + mask k) AND push_bit i 1 = push_bit i 1"
    unfolding add by (rule bit_word_eqI) (auto simp: bit_simps bit_1_iff)
  show "k \<le> i \<Longrightarrow> i < 12 \<Longrightarrow> (pt + mask k) AND push_bit i 1 = 0"
    unfolding add by (rule bit_word_eqI) (use nb in \<open>auto simp: bit_simps bit_1_iff\<close>)
qed

lemma pde_flags:
  assumes "pt AND 0xFFF = (0 :: u32)"
  shows "PTE_ADDR (pt + PTE_P) = pt" "(pt + PTE_P) AND PTE_P \<noteq> 0" "(pt + PTE_P) AND PTE_W = 0"
    "PTE_ADDR (pt + PTE_P + PTE_W) = pt" "(pt + PTE_P + PTE_W) AND PTE_P \<noteq> 0" "(pt + PTE_P + PTE_W) AND PTE_W \<noteq> 0"
proof -
  have m: "PTE_P = mask 1" "PTE_P = push_bit 0 1" "PTE_W = push_bit 1 1" "pt + PTE_P + PTE_W = pt + mask 2"
    by (simp_all add: PTE_P_def PTE_W_def mask_eq_exp_minus_1 add.assoc)
  show "PTE_ADDR (pt + PTE_P) = pt" "PTE_ADDR (pt + PTE_P + PTE_W) = pt"
    using aligned_mask(2) [OF assms, of 1] aligned_mask(2) [OF assms, of 2]
    unfolding m(4) unfolding m(1) by simp_all
  show "(pt + PTE_P) AND PTE_P \<noteq> 0" "(pt + PTE_P) AND PTE_W = 0"
    using aligned_mask(3) [OF assms, of 1 0] aligned_mask(4) [OF assms, of 1 1]
    unfolding m(3) unfolding m(1) by simp_all
  show "(pt + PTE_P + PTE_W) AND PTE_P \<noteq> 0" "(pt + PTE_P + PTE_W) AND PTE_W \<noteq> 0"
    using aligned_mask(3) [OF assms, of 2 0] aligned_mask(3) [OF assms, of 2 1]
    unfolding m(4) unfolding m(2,3) by simp_all
qed

lemma identity_pte_flags:
  assumes "j < 1024"
  shows "PTE_ADDR (identity_pte j) = of_nat j * 4096" "identity_pte j AND PTE_P \<noteq> 0" "identity_pte j AND PTE_W \<noteq> 0"
proof -
  have pb: "of_nat j * 4096 = push_bit 12 (of_nat j :: u32)" by (simp add: push_bit_eq_mult mult.commute)
  have a: "(of_nat j * 4096) AND 0xFFF = (0 :: u32)"
    unfolding mask_take_bit pb by (rule bit_word_eqI) (auto simp: bit_simps)
  have m: "(3 :: u32) = mask 2" "PTE_P = push_bit 0 1" "PTE_W = push_bit 1 1"
    by (simp_all add: PTE_P_def PTE_W_def mask_eq_exp_minus_1)
  have "identity_pte j = of_nat j * 4096 + mask 2"
    unfolding identity_pte_def m(1) aligned_mask(1) [OF a, of 2, simplified] by simp
  with aligned_mask(2) [OF a, of 2] aligned_mask(3) [OF a, of 2 0] aligned_mask(3) [OF a, of 2 1]
  show "PTE_ADDR (identity_pte j) = of_nat j * 4096" "identity_pte j AND PTE_P \<noteq> 0" "identity_pte j AND PTE_W \<noteq> 0"
    unfolding m(2,3) by simp_all
qed

lemma entry_pgdir_nth:
  assumes "i < 1024"
  shows "entry_pgdir pgtable ! i = (if i = 0 then pgtable - KERNBASE + PTE_P
    else if i = 960 then pgtable - KERNBASE + PTE_P + PTE_W else 0)"
proof -
  have "unat (drop_bit PDXSHIFT KERNBASE) = 960"
    unfolding unat_drop_bit_eq KERNBASE_def PDXSHIFT_def by (simp add: drop_bit_eq_div)
  then show ?thesis using assms by (simp add: entry_pgdir_def NPDENTRIES_def nth_list_update)
qed

text \<open>Both tables are in physical memory, at page boundaries, the directory where \<^verbatim>\<open>cr3\<close> points.\<close>

definition tables_loaded :: "(u32 \<Rightarrow> u32) \<Rightarrow> u32 \<Rightarrow> u32 \<Rightarrow> bool" where
  "tables_loaded rd cr3 pgtable \<longleftrightarrow>
     cr3 AND 0xFFF = 0 \<and> (pgtable - KERNBASE) AND 0xFFF = 0 \<and>
     (\<forall>i < 1024. rd (cr3 + 4 * of_nat i) = entry_pgdir pgtable ! i) \<and>
     (\<forall>i < 1024. rd (pgtable - KERNBASE + 4 * of_nat i) = entry_pgtable ! i)"

lemma page_offset: "of_nat (unat (PTX la)) * 4096 OR PGOFF la = PGADDR 0 (PTX la) (PGOFF la)"
  by (simp add: PGADDR_def push_bit_eq_mult PTXSHIFT_def mult.commute)

lemma unat_pgaddr_0: "unat (PGADDR 0 (PTX la) (PGOFF la)) = unat la mod 4194304"
proof -
  let ?x = "PGADDR 0 (PTX la) (PGOFF la)"
  have t: "PTX la < 1024" "PGOFF la < 4096" by (simp_all add: word_less_nat_alt unat_parts)
  then have p: "PDX ?x = 0" "PTX ?x = PTX la" "PGOFF ?x = PGOFF la" using pgaddr_parts [of 0] by simp_all
  have "unat ?x div 4194304 = 0" "unat ?x div 4096 mod 1024 = unat la div 4096 mod 1024" "unat ?x mod 4096 = unat la mod 4096"
    using unat_parts [of ?x] unat_parts [of la] p by simp_all
  moreover have "unat ?x mod 4194304 = unat ?x" using calculation(1) by (simp add: mod_eq_self_iff_div_eq_0)
  ultimately show ?thesis using mod_mult2_eq [of "unat ?x" 4096 1024] mod_mult2_eq [of "unat la" 4096 1024] by simp
qed

lemma page_walk_entry:
  assumes "tables_loaded rd cr3 pgtable"
  shows "page_walk rd cr3 write la =
    (if unat (PDX la) = 0 \<and> \<not> write \<or> unat (PDX la) = 960 then Some (PGADDR 0 (PTX la) (PGOFF la)) else None)"
proof -
  let ?pt = "pgtable - KERNBASE"
  have "unat (PTX la) < 1024" by (simp add: unat_parts)
  moreover have "unat la div 4194304 < 1024"
    using unsigned_less [of la, where ?'a = nat] by (simp add: less_mult_imp_div_less)
  then have "unat (PDX la) < 1024" by (simp add: unat_parts)
  ultimately have "rd (cr3 + 4 * of_nat (unat (PDX la))) = entry_pgdir pgtable ! unat (PDX la)"
    "rd (?pt + 4 * of_nat (unat (PTX la))) = entry_pgtable ! unat (PTX la)"
    using assms unfolding tables_loaded_def by blast+
  then have pde: "rd (cr3 + 4 * PDX la) = entry_pgdir pgtable ! unat (PDX la)"
    and pte: "rd (?pt + 4 * PTX la) = entry_pgtable ! unat (PTX la)" by simp_all
  have cr3: "PTE_ADDR cr3 = cr3"
    using assms aligned_mask(2) [of cr3 0] by (simp add: tables_loaded_def)
  have al: "?pt AND 0xFFF = 0" using assms by (simp add: tables_loaded_def)
  have pte': "entry_pgtable ! unat (PTX la) = identity_pte (unat (PTX la))"
    using \<open>unat (PTX la) < 1024\<close> by (simp add: entry_pgtable_identity)
  note id = identity_pte_flags [OF \<open>unat (PTX la) < 1024\<close>]
  show ?thesis
    using \<open>unat (PDX la) < 1024\<close> id pde_flags [OF al] page_offset
    by (auto simp: page_walk_def Let_def cr3 pde pte pte' entry_pgdir_nth)
qed

lemma div_range: "(n :: nat) div 4194304 = 960 \<longleftrightarrow> 4026531840 \<le> n \<and> n < 4030726144" "n div 4194304 = 0 \<longleftrightarrow> n < 4194304"
proof -
  have "4194304 * (n div 4194304) \<le> n" "n < 4194304 * (n div 4194304) + 4194304"
    using div_mult_mod_eq [of n 4194304] mod_less_divisor [of 4194304 n] by linarith+
  then show "n div 4194304 = 960 \<longleftrightarrow> 4026531840 \<le> n \<and> n < 4030726144" by linarith
  show "n div 4194304 = 0 \<longleftrightarrow> n < 4194304" by (simp add: div_eq_0_iff)
qed

lemma walk_ranges:
  "unat (PDX la) = 960 \<longleftrightarrow> KERNBASE \<le> la \<and> la < KERNBASE + PTSIZE" "unat (PDX la) = 0 \<longleftrightarrow> la < PTSIZE"
  unfolding unat_parts div_range
  by (simp_all add: word_le_nat_alt word_less_nat_alt KERNBASE_def page_defs)

lemma walk_result:
  "la < PTSIZE \<Longrightarrow> PGADDR 0 (PTX la) (PGOFF la) = la"
  "KERNBASE \<le> la \<Longrightarrow> la < KERNBASE + PTSIZE \<Longrightarrow> PGADDR 0 (PTX la) (PGOFF la) = la - KERNBASE"
proof -
  show "la < PTSIZE \<Longrightarrow> PGADDR 0 (PTX la) (PGOFF la) = la"
    unfolding word_unat_eq_iff unat_pgaddr_0 by (simp add: word_less_nat_alt page_defs)
  assume "KERNBASE \<le> la" "la < KERNBASE + PTSIZE"
  then have "4026531840 \<le> unat la" "unat la < 4030726144" "unat (la - KERNBASE) = unat la - 4026531840"
    by (simp_all add: word_le_nat_alt word_less_nat_alt unat_sub KERNBASE_def page_defs)
  moreover have "unat la mod 4194304 = unat la - 4026531840"
  proof -
    define x where "x = unat la - 4026531840"
    have la: "unat la = x + 960 * 4194304" and x: "x < 4194304" using calculation(1,2) by (simp_all add: x_def)
    have "unat la mod 4194304 = x" unfolding la mod_mult_self1 using x by simp
    then show ?thesis by (simp add: x_def)
  qed
  ultimately show "PGADDR 0 (PTX la) (PGOFF la) = la - KERNBASE" unfolding word_unat_eq_iff unat_pgaddr_0 by simp
qed

section \<open>Properties\<close>

text \<open>
  (C29) With the tables of \<^verbatim>\<open>entrypgdir.c\<close> loaded, the hardware maps the addresses from
  \<^verbatim>\<open>KERNBASE\<close> to 4 MB above it onto physical memory from 0, for reading and writing, the first
  4 MB onto themselves for reading only, and no other address.
\<close>

theorem entry_pgdir_maps:
  assumes "tables_loaded rd cr3 pgtable"
  shows "page_walk rd cr3 write la =
    (if KERNBASE \<le> la \<and> la < KERNBASE + PTSIZE then Some (la - KERNBASE)
     else if la < PTSIZE \<and> \<not> write then Some la else None)"
  using page_walk_entry [OF assms, of _ la] walk_result [of la] walk_ranges [of la] by auto

text \<open>A physical memory that holds the directory at page 1 and the table at page 2.\<close>

definition entry_memory :: "u32 \<Rightarrow> u32" where
  "entry_memory a =
     (if unat a div 4096 = 1 then entry_pgdir 0xF0002000 ! (unat a mod 4096 div 4)
      else if unat a div 4096 = 2 then entry_pgtable ! (unat a mod 4096 div 4) else 0)"

lemma entry_memory_loaded: "tables_loaded entry_memory 0x1000 0xF0002000"
proof -
  have u: "unat (0x1000 * k + 4 * of_nat i :: u32) = 0x1000 * unat k + 4 * i" if "i < 1024" "k = 1 \<or> k = 2" for i and k :: u32
    using that by (auto simp: unat_word_ariths unat_of_nat)
  have d: "(0x1000 * k + 4 * i) div 4096 = k" "(0x1000 * k + 4 * i) mod 4096 div 4 = i" if "i < 1024" for i k :: nat
    using that by simp_all
  show ?thesis
    using u [of _ 1] u [of _ 2] d [of _ 1] d [of _ 2]
    by (simp add: tables_loaded_def entry_memory_def KERNBASE_def)
qed

theorem entry_pgdir_maps_witness:
  "page_walk entry_memory 0x1000 True 0xF0012345 = Some 0x12345 \<and> page_walk entry_memory 0x1000 True 0x12345 = None"
  using entry_pgdir_maps [OF entry_memory_loaded, of True "0xF0012345"] entry_pgdir_maps [OF entry_memory_loaded, of True "0x12345"]
  by (simp add: KERNBASE_def page_defs)

end
