(* ===== verification/JosHardware.thy ===== *)
theory JosHardware
  imports JosMmu
begin

text \<open>
  The rest of \<^verbatim>\<open>src/inc/mmu.h\<close>: the bits of the control registers, the flags and the error codes of
  page faults, the segment types, the descriptors as the assembler macros lay them out, and the
  formats of the task state segment and of the operand of \<^verbatim>\<open>lgdt\<close>. Each group of bits is a
  datatype with the mask of each of its members.
\<close>

section \<open>Bits\<close>

text \<open>The control register CR0.\<close>

datatype cr0_flag = CR0_PE | CR0_MP | CR0_EM | CR0_TS | CR0_ET | CR0_NE | CR0_WP | CR0_AM | CR0_NW |
  CR0_CD | CR0_PG

primrec cr0_mask :: "cr0_flag \<Rightarrow> u32" where
  "cr0_mask CR0_PE = 0x00000001"
| "cr0_mask CR0_MP = 0x00000002"
| "cr0_mask CR0_EM = 0x00000004"
| "cr0_mask CR0_TS = 0x00000008"
| "cr0_mask CR0_ET = 0x00000010"
| "cr0_mask CR0_NE = 0x00000020"
| "cr0_mask CR0_WP = 0x00010000"
| "cr0_mask CR0_AM = 0x00040000"
| "cr0_mask CR0_NW = 0x20000000"
| "cr0_mask CR0_CD = 0x40000000"
| "cr0_mask CR0_PG = 0x80000000"

text \<open>The control register CR4.\<close>

datatype cr4_flag = CR4_PCE | CR4_MCE | CR4_PSE | CR4_DE | CR4_TSD | CR4_PVI | CR4_VME

primrec cr4_mask :: "cr4_flag \<Rightarrow> u32" where
  "cr4_mask CR4_PCE = 0x00000100"
| "cr4_mask CR4_MCE = 0x00000040"
| "cr4_mask CR4_PSE = 0x00000010"
| "cr4_mask CR4_DE = 0x00000008"
| "cr4_mask CR4_TSD = 0x00000004"
| "cr4_mask CR4_PVI = 0x00000002"
| "cr4_mask CR4_VME = 0x00000001"

text \<open>The flags register, without the two bits of the privilege level.\<close>

datatype eflag = FL_CF | FL_PF | FL_AF | FL_ZF | FL_SF | FL_TF | FL_IF | FL_DF | FL_OF | FL_NT |
  FL_RF | FL_VM | FL_AC | FL_VIF | FL_VIP | FL_ID

primrec eflag_mask :: "eflag \<Rightarrow> u32" where
  "eflag_mask FL_CF = 0x00000001"
| "eflag_mask FL_PF = 0x00000004"
| "eflag_mask FL_AF = 0x00000010"
| "eflag_mask FL_ZF = 0x00000040"
| "eflag_mask FL_SF = 0x00000080"
| "eflag_mask FL_TF = 0x00000100"
| "eflag_mask FL_IF = 0x00000200"
| "eflag_mask FL_DF = 0x00000400"
| "eflag_mask FL_OF = 0x00000800"
| "eflag_mask FL_NT = 0x00004000"
| "eflag_mask FL_RF = 0x00010000"
| "eflag_mask FL_VM = 0x00020000"
| "eflag_mask FL_AC = 0x00040000"
| "eflag_mask FL_VIF = 0x00080000"
| "eflag_mask FL_VIP = 0x00100000"
| "eflag_mask FL_ID = 0x00200000"

definition FL_IOPL_MASK :: u32 where "FL_IOPL_MASK = 0x00003000"
definition FL_IOPL_0 :: u32 where "FL_IOPL_0 = 0x00000000"
definition FL_IOPL_1 :: u32 where "FL_IOPL_1 = 0x00001000"
definition FL_IOPL_2 :: u32 where "FL_IOPL_2 = 0x00002000"
definition FL_IOPL_3 :: u32 where "FL_IOPL_3 = 0x00003000"

text \<open>The error code of a page fault.\<close>

datatype fault_bit = FEC_PR | FEC_WR | FEC_U

primrec fault_mask :: "fault_bit \<Rightarrow> u32" where
  "fault_mask FEC_PR = 0x1"
| "fault_mask FEC_WR = 0x2"
| "fault_mask FEC_U = 0x4"

lemma flags_disjoint:
  "f \<noteq> g \<Longrightarrow> cr0_mask f AND cr0_mask g = 0"
  "f' \<noteq> g' \<Longrightarrow> cr4_mask f' AND cr4_mask g' = 0"
  "e \<noteq> e' \<Longrightarrow> eflag_mask e AND eflag_mask e' = 0"
  "eflag_mask e AND FL_IOPL_MASK = 0"
  "p \<noteq> q \<Longrightarrow> fault_mask p AND fault_mask q = 0"
proof -
  show "cr0_mask f AND cr0_mask g = 0" if "f \<noteq> g" using that by (cases f; cases g; simp)
  show "cr4_mask f' AND cr4_mask g' = 0" if "f' \<noteq> g'" using that by (cases f'; cases g'; simp)
  show "eflag_mask e AND eflag_mask e' = 0" if "e \<noteq> e'" using that by (cases e; cases e'; simp)
  show "eflag_mask e AND FL_IOPL_MASK = 0" by (cases e; simp add: FL_IOPL_MASK_def)
  show "fault_mask p AND fault_mask q = 0" if "p \<noteq> q" using that by (cases p; cases q; simp)
qed

section \<open>Segment types\<close>

definition STA_X :: u32 where "STA_X = 0x8"
definition STA_E :: u32 where "STA_E = 0x4"
definition STA_C :: u32 where "STA_C = 0x4"
definition STA_W :: u32 where "STA_W = 0x2"
definition STA_R :: u32 where "STA_R = 0x2"
definition STA_A :: u32 where "STA_A = 0x1"
definition STS_T16A :: u4 where "STS_T16A = 0x1"
definition STS_LDT :: u4 where "STS_LDT = 0x2"
definition STS_T16B :: u4 where "STS_T16B = 0x3"
definition STS_CG16 :: u4 where "STS_CG16 = 0x4"
definition STS_TG :: u4 where "STS_TG = 0x5"
definition STS_IG16 :: u4 where "STS_IG16 = 0x6"
definition STS_TG16 :: u4 where "STS_TG16 = 0x7"
definition STS_T32A :: u4 where "STS_T32A = 0x9"
definition STS_T32B :: u4 where "STS_T32B = 0xB"

section \<open>Descriptors in memory\<close>

definition le16 :: "u16 \<Rightarrow> u8 list" where
  "le16 w = [ucast w, ucast (drop_bit 8 w)]"

definition le32 :: "u32 \<Rightarrow> u8 list" where
  "le32 w = [ucast w, ucast (drop_bit 8 w), ucast (drop_bit 16 w), ucast (drop_bit 24 w)]"

text \<open>The bit-fields of the structure, the first in the low bits.\<close>

definition segdesc_bytes :: "Segdesc \<Rightarrow> u8 list" where
  "segdesc_bytes sd = le16 (sd_lim_15_0 sd) @ le16 (sd_base_15_0 sd) @
     [sd_base_23_16 sd,
      ucast (sd_type sd) OR push_bit 4 (ucast (sd_s sd)) OR push_bit 5 (ucast (sd_dpl sd)) OR push_bit 7 (ucast (sd_p sd)),
      ucast (sd_lim_19_16 sd) OR push_bit 4 (ucast (sd_avl sd)) OR push_bit 5 (ucast (sd_rsv1 sd))
        OR push_bit 6 (ucast (sd_db sd)) OR push_bit 7 (ucast (sd_g sd)),
      sd_base_31_24 sd]"

text \<open>The assembler's macros of the same names; a directive truncates its operand.\<close>

definition SEG_NULL_asm :: "u8 list" where
  "SEG_NULL_asm = le16 0 @ le16 0 @ [0, 0, 0, 0]"

definition SEG_asm :: "u32 \<Rightarrow> u32 \<Rightarrow> u32 \<Rightarrow> u8 list" where
  "SEG_asm ty base lim =
     le16 (ucast (drop_bit 12 lim AND 0xffff)) @ le16 (ucast (base AND 0xffff)) @
     [ucast (drop_bit 16 base AND 0xff), ucast (0x90 OR ty),
      ucast (0xC0 OR (drop_bit 28 lim AND 0xf)), ucast (drop_bit 24 base AND 0xff)]"

section \<open>The task state segment\<close>

record Taskstate =
  ts_link :: u32
  ts_esp0 :: u32
  ts_ss0 :: u16
  ts_padding1 :: u16
  ts_esp1 :: u32
  ts_ss1 :: u16
  ts_padding2 :: u16
  ts_esp2 :: u32
  ts_ss2 :: u16
  ts_padding3 :: u16
  ts_cr3 :: u32
  ts_eip :: u32
  ts_eflags :: u32
  ts_eax :: u32
  ts_ecx :: u32
  ts_edx :: u32
  ts_ebx :: u32
  ts_esp :: u32
  ts_ebp :: u32
  ts_esi :: u32
  ts_edi :: u32
  ts_es :: u16
  ts_padding4 :: u16
  ts_cs :: u16
  ts_padding5 :: u16
  ts_ss :: u16
  ts_padding6 :: u16
  ts_ds :: u16
  ts_padding7 :: u16
  ts_fs :: u16
  ts_padding8 :: u16
  ts_gs :: u16
  ts_padding9 :: u16
  ts_ldt :: u16
  ts_padding10 :: u16
  ts_t :: u16
  ts_iomb :: u16

definition taskstate_bytes :: "Taskstate \<Rightarrow> u8 list" where
  "taskstate_bytes t =
     le32 (ts_link t) @ le32 (ts_esp0 t) @ le16 (ts_ss0 t) @ le16 (ts_padding1 t) @
     le32 (ts_esp1 t) @ le16 (ts_ss1 t) @ le16 (ts_padding2 t) @ le32 (ts_esp2 t) @
     le16 (ts_ss2 t) @ le16 (ts_padding3 t) @ le32 (ts_cr3 t) @ le32 (ts_eip t) @
     le32 (ts_eflags t) @ le32 (ts_eax t) @ le32 (ts_ecx t) @ le32 (ts_edx t) @ le32 (ts_ebx t) @
     le32 (ts_esp t) @ le32 (ts_ebp t) @ le32 (ts_esi t) @ le32 (ts_edi t) @ le16 (ts_es t) @
     le16 (ts_padding4 t) @ le16 (ts_cs t) @ le16 (ts_padding5 t) @ le16 (ts_ss t) @
     le16 (ts_padding6 t) @ le16 (ts_ds t) @ le16 (ts_padding7 t) @ le16 (ts_fs t) @
     le16 (ts_padding8 t) @ le16 (ts_gs t) @ le16 (ts_padding9 t) @ le16 (ts_ldt t) @
     le16 (ts_padding10 t) @ le16 (ts_t t) @ le16 (ts_iomb t)"

record Pseudodesc =
  pd_lim :: u16
  pd_base :: u32

definition pseudodesc_bytes :: "Pseudodesc \<Rightarrow> u8 list" where
  "pseudodesc_bytes p = le16 (pd_lim p) @ le32 (pd_base p)"

lemma le_length [simp]: "length (le16 w) = 2" "length (le32 v) = 4"
  by (simp_all add: le16_def le32_def)

text \<open>The structures have the sizes of the architecture, without padding of the compiler.\<close>

lemma struct_sizes: "length (segdesc_bytes sd) = 8" "length (taskstate_bytes ts) = 104" "length (pseudodesc_bytes pd) = 6"
  by (simp_all add: segdesc_bytes_def taskstate_bytes_def pseudodesc_bytes_def)

section \<open>Selectors\<close>

definition GD_KT :: u16 where "GD_KT = 0x08"
definition GD_KD :: u16 where "GD_KD = 0x10"
definition GD_UT :: u16 where "GD_UT = 0x18"
definition GD_UD :: u16 where "GD_UD = 0x20"
definition GD_TSS0 :: u16 where "GD_TSS0 = 0x28"

section \<open>The keyboard controller\<close>

text \<open>The bits of the status port beside \<^verbatim>\<open>KBS_DIB\<close>.\<close>

datatype kbd_status = KBS_IBF | KBS_WARM | KBS_OCMD | KBS_NOSEC | KBS_TERR | KBS_RERR | KBS_PERR

primrec kbd_status_mask :: "kbd_status \<Rightarrow> u8" where
  "kbd_status_mask KBS_IBF = 0x02"
| "kbd_status_mask KBS_WARM = 0x04"
| "kbd_status_mask KBS_OCMD = 0x08"
| "kbd_status_mask KBS_NOSEC = 0x10"
| "kbd_status_mask KBS_TERR = 0x20"
| "kbd_status_mask KBS_RERR = 0x40"
| "kbd_status_mask KBS_PERR = 0x80"

definition KBCMDP :: u32 where "KBCMDP = 0x64"
definition KBOUTP :: u32 where "KBOUTP = 0x60"
definition K_RDCMDBYTE :: u8 where "K_RDCMDBYTE = 0x20"
definition K_LDCMDBYTE :: u8 where "K_LDCMDBYTE = 0x60"

text \<open>Commands to the controller.\<close>

datatype kbc_command = KBC_RAMREAD | KBC_RAMWRITE | KBC_AUXDISABLE | KBC_AUXENABLE | KBC_AUXTEST |
  KBC_KBDECHO | KBC_AUXECHO | KBC_AUXWRITE | KBC_SELFTEST | KBC_KBDTEST | KBC_KBDDISABLE |
  KBC_KBDENABLE | KBC_PULSE0 | KBC_PULSE1 | KBC_PULSE2 | KBC_PULSE3

primrec kbc_code :: "kbc_command \<Rightarrow> u8" where
  "kbc_code KBC_RAMREAD = 0x20"
| "kbc_code KBC_RAMWRITE = 0x60"
| "kbc_code KBC_AUXDISABLE = 0xa7"
| "kbc_code KBC_AUXENABLE = 0xa8"
| "kbc_code KBC_AUXTEST = 0xa9"
| "kbc_code KBC_KBDECHO = 0xd2"
| "kbc_code KBC_AUXECHO = 0xd3"
| "kbc_code KBC_AUXWRITE = 0xd4"
| "kbc_code KBC_SELFTEST = 0xaa"
| "kbc_code KBC_KBDTEST = 0xab"
| "kbc_code KBC_KBDDISABLE = 0xad"
| "kbc_code KBC_KBDENABLE = 0xae"
| "kbc_code KBC_PULSE0 = 0xfe"
| "kbc_code KBC_PULSE1 = 0xfd"
| "kbc_code KBC_PULSE2 = 0xfb"
| "kbc_code KBC_PULSE3 = 0xf7"

text \<open>The bits of its command byte.\<close>

datatype kbd_config = KC8_TRANS | KC8_MDISABLE | KC8_KDISABLE | KC8_IGNSEC | KC8_CPU | KC8_MENABLE |
  KC8_KENABLE

primrec kbd_config_mask :: "kbd_config \<Rightarrow> u8" where
  "kbd_config_mask KC8_TRANS = 0x40"
| "kbd_config_mask KC8_MDISABLE = 0x20"
| "kbd_config_mask KC8_KDISABLE = 0x10"
| "kbd_config_mask KC8_IGNSEC = 0x08"
| "kbd_config_mask KC8_CPU = 0x04"
| "kbd_config_mask KC8_MENABLE = 0x02"
| "kbd_config_mask KC8_KENABLE = 0x01"

definition CMDBYTE :: u8 where
  "CMDBYTE = kbd_config_mask KC8_TRANS OR kbd_config_mask KC8_CPU OR kbd_config_mask KC8_MENABLE OR kbd_config_mask KC8_KENABLE"

text \<open>Commands to the keyboard.\<close>

datatype kbd_command = KBC_RESET | KBC_RESEND | KBC_SETDEFAULT | KBC_DISABLE | KBC_ENABLE |
  KBC_TYPEMATIC | KBC_SETTABLE | KBC_MODEIND | KBC_ECHO

primrec kbd_command_code :: "kbd_command \<Rightarrow> u8" where
  "kbd_command_code KBC_RESET = 0xFF"
| "kbd_command_code KBC_RESEND = 0xFE"
| "kbd_command_code KBC_SETDEFAULT = 0xF6"
| "kbd_command_code KBC_DISABLE = 0xF5"
| "kbd_command_code KBC_ENABLE = 0xF4"
| "kbd_command_code KBC_TYPEMATIC = 0xF3"
| "kbd_command_code KBC_SETTABLE = 0xF0"
| "kbd_command_code KBC_MODEIND = 0xED"
| "kbd_command_code KBC_ECHO = 0xEE"

text \<open>Its replies.\<close>

datatype kbd_reply = KBR_EXTENDED | KBR_RESEND | KBR_ACK | KBR_OVERRUN | KBR_FAILURE | KBR_BREAK |
  KBR_RSTDONE | KBR_ECHO

primrec kbd_reply_code :: "kbd_reply \<Rightarrow> u8" where
  "kbd_reply_code KBR_EXTENDED = 0xE0"
| "kbd_reply_code KBR_RESEND = 0xFE"
| "kbd_reply_code KBR_ACK = 0xFA"
| "kbd_reply_code KBR_OVERRUN = 0x00"
| "kbd_reply_code KBR_FAILURE = 0xFD"
| "kbd_reply_code KBR_BREAK = 0xF0"
| "kbd_reply_code KBR_RSTDONE = 0xAA"
| "kbd_reply_code KBR_ECHO = 0xEE"

section \<open>Debugging information and object files\<close>

text \<open>The entry types of STABS that the search does not look for.\<close>

datatype stab_other = N_GSYM | N_FNAME | N_STSYM | N_LCSYM | N_MAIN | N_PC | N_RSYM | N_DSLINE |
  N_BSLINE | N_SSYM | N_LSYM | N_BINCL | N_EINCL | N_ENTRY | N_LBRAC | N_EXCL | N_RBRAC | N_BCOMM |
  N_ECOMM | N_ECOML | N_LENG

primrec stab_other_code :: "stab_other \<Rightarrow> u8" where
  "stab_other_code N_GSYM = 0x20"
| "stab_other_code N_FNAME = 0x22"
| "stab_other_code N_STSYM = 0x26"
| "stab_other_code N_LCSYM = 0x28"
| "stab_other_code N_MAIN = 0x2a"
| "stab_other_code N_PC = 0x30"
| "stab_other_code N_RSYM = 0x40"
| "stab_other_code N_DSLINE = 0x46"
| "stab_other_code N_BSLINE = 0x48"
| "stab_other_code N_SSYM = 0x60"
| "stab_other_code N_LSYM = 0x80"
| "stab_other_code N_BINCL = 0x82"
| "stab_other_code N_EINCL = 0xa2"
| "stab_other_code N_ENTRY = 0xa4"
| "stab_other_code N_LBRAC = 0xc0"
| "stab_other_code N_EXCL = 0xc2"
| "stab_other_code N_RBRAC = 0xe0"
| "stab_other_code N_BCOMM = 0xe2"
| "stab_other_code N_ECOMM = 0xe4"
| "stab_other_code N_ECOML = 0xe8"
| "stab_other_code N_LENG = 0xfe"

record Secthdr =
  sh_name :: u32
  sh_type :: u32
  sh_flags :: u32
  sh_addr :: u32
  sh_offset :: u32
  sh_size :: u32
  sh_link :: u32
  sh_info :: u32
  sh_addralign :: u32
  sh_entsize :: u32

definition secthdr_bytes :: "Secthdr \<Rightarrow> u8 list" where
  "secthdr_bytes h = concat (map le32 [sh_name h, sh_type h, sh_flags h, sh_addr h, sh_offset h, sh_size h, sh_link h,
     sh_info h, sh_addralign h, sh_entsize h])"

definition ELF_PROG_LOAD :: u32 where "ELF_PROG_LOAD = 1"
definition ELF_SHN_UNDEF :: u32 where "ELF_SHN_UNDEF = 0"

text \<open>The flags of a program header.\<close>

datatype prog_flag = ELF_PROG_FLAG_EXEC | ELF_PROG_FLAG_WRITE | ELF_PROG_FLAG_READ

primrec prog_flag_mask :: "prog_flag \<Rightarrow> u32" where
  "prog_flag_mask ELF_PROG_FLAG_EXEC = 1"
| "prog_flag_mask ELF_PROG_FLAG_WRITE = 2"
| "prog_flag_mask ELF_PROG_FLAG_READ = 4"

text \<open>The types of sections.\<close>

datatype section_type = ELF_SHT_NULL | ELF_SHT_PROGBITS | ELF_SHT_SYMTAB | ELF_SHT_STRTAB

primrec section_type_code :: "section_type \<Rightarrow> u32" where
  "section_type_code ELF_SHT_NULL = 0"
| "section_type_code ELF_SHT_PROGBITS = 1"
| "section_type_code ELF_SHT_SYMTAB = 2"
| "section_type_code ELF_SHT_STRTAB = 3"

lemma secthdr_size: "length (secthdr_bytes h) = 40"
  by (simp add: secthdr_bytes_def)

lemma CMDBYTE_value: "CMDBYTE = 0x47"
  by (simp add: CMDBYTE_def)

section \<open>Properties\<close>

text \<open>
  (C32) The two macros \<^verbatim>\<open>SEG\<close>, for C and for the assembler, and the two macros \<^verbatim>\<open>SEG_NULL\<close>, lay out the
  same eight bytes: the global descriptor table that the boot loader writes in assembly is the
  one that the C macros describe, with privilege level 0.
\<close>

theorem seg_macros_agree:
  assumes "ty < 16"
  shows "segdesc_bytes (SEG ty base lim 0) = SEG_asm ty base lim \<and> segdesc_bytes SEG_NULL = SEG_NULL_asm"
proof -
  have ty: "bit ty n \<Longrightarrow> n < 4" for n
  proof -
    have "take_bit 4 ty = ty" using assms by (simp add: word_unat_eq_iff unsigned_take_bit_eq take_bit_nat_eq_self word_less_nat_alt)
    then show "bit ty n \<Longrightarrow> n < 4" by (metis bit_take_bit_iff)
  qed
  have x90: "(0x90 :: u32) = push_bit 4 1 OR push_bit 7 1" and xC0: "(0xC0 :: u32) = push_bit 6 1 OR push_bit 7 1"
    and xF: "(0xf :: u32) = mask 4" and xFF: "(0xff :: u32) = mask 8"
    by (simp_all add: mask_eq_exp_minus_1)
  have "ucast (ucast ty :: u4) OR (push_bit 4 1 OR push_bit 7 1) = (ucast (0x90 OR ty) :: u8)"
    unfolding x90 by (rule bit_word_eqI) (auto simp: bit_simps dest: ty)
  moreover have "ucast (ucast (drop_bit 28 lim) :: u4) OR (push_bit 6 1 OR push_bit 7 1)
      = (ucast (0xC0 OR (drop_bit 28 lim AND 0xf)) :: u8)"
    unfolding xC0 xF by (rule bit_word_eqI) (auto simp: bit_simps)
  moreover have "(ucast (drop_bit 24 base) :: u8) = ucast (drop_bit 24 base AND 0xff)"
    unfolding xFF by (rule bit_word_eqI) (auto simp: bit_simps)
  ultimately show ?thesis
    by (simp add: segdesc_bytes_def SEG_def SEG_asm_def SEG_NULL_def SEG_NULL_asm_def)
qed

theorem seg_macros_agree_witness:
  "segdesc_bytes (SEG (STA_X OR STA_R) 0 0xFFFFFFFF 0) = [0xFF, 0xFF, 0, 0, 0, 0x9A, 0xCF, 0]"
  using seg_macros_agree [of "STA_X OR STA_R" 0 "0xFFFFFFFF"] by (simp add: STA_X_def STA_R_def SEG_asm_def le16_def)

end
