(* ===== verification/JosBoot.thy ===== *)
theory JosBoot
  imports JosMachine
begin

text \<open>
  \<^verbatim>\<open>src/boot/main.c\<close> and \<^verbatim>\<open>src/inc/elf.h\<close>: the boot loader, which reads the kernel's ELF
  image from the disk by programmed input and jumps to its entry point. Waiting for the disk and
  the loop of \<^verbatim>\<open>readseg\<close> may run for ever and then have the result None.

  A disk is described by how its answers depend on the history of port accesses: it serves the
  words of a sector after a read command that was issued while it was ready, once it has been
  seen ready again. With such a disk the loader is shown to place every byte of every segment.
\<close>

section \<open>The model\<close>

definition ELF_MAGIC :: u32 where "ELF_MAGIC = 0x464C457F"

text \<open>The structures as they lie in memory, without padding.\<close>

record Elf =
  e_magic :: u32
  e_elf :: "u8 list"
  e_type :: u16
  e_machine :: u16
  e_version :: u32
  e_entry :: u32
  e_phoff :: u32
  e_shoff :: u32
  e_flags :: u32
  e_ehsize :: u16
  e_phentsize :: u16
  e_phnum :: u16
  e_shentsize :: u16
  e_shnum :: u16
  e_shstrndx :: u16

record Proghdr =
  p_type :: u32
  p_offset :: u32
  p_va :: u32
  p_pa :: u32
  p_filesz :: u32
  p_memsz :: u32
  p_flags :: u32
  p_align :: u32

definition ld_elf :: "mem \<Rightarrow> u32 \<Rightarrow> Elf" where
  "ld_elf m a = \<lparr>e_magic = ld32 m a, e_elf = map (\<lambda>i. m (a + 4 + of_nat i)) [0..<12], e_type = ld16 m (a + 16),
     e_machine = ld16 m (a + 18), e_version = ld32 m (a + 20), e_entry = ld32 m (a + 24), e_phoff = ld32 m (a + 28),
     e_shoff = ld32 m (a + 32), e_flags = ld32 m (a + 36), e_ehsize = ld16 m (a + 40), e_phentsize = ld16 m (a + 42),
     e_phnum = ld16 m (a + 44), e_shentsize = ld16 m (a + 46), e_shnum = ld16 m (a + 48), e_shstrndx = ld16 m (a + 50)\<rparr>"

definition ld_proghdr :: "mem \<Rightarrow> u32 \<Rightarrow> Proghdr" where
  "ld_proghdr m a = \<lparr>p_type = ld32 m a, p_offset = ld32 m (a + 4), p_va = ld32 m (a + 8), p_pa = ld32 m (a + 12),
     p_filesz = ld32 m (a + 16), p_memsz = ld32 m (a + 20), p_flags = ld32 m (a + 24), p_align = ld32 m (a + 28)\<rparr>"

definition SECTSIZE :: u32 where "SECTSIZE = 512"
definition ELFHDR :: u32 where "ELFHDR = 0x10000"

partial_function (option) waitdisk :: "devices \<Rightarrow> 'a machine_scheme \<Rightarrow> 'a machine_scheme option" where
  "waitdisk d s =
     (let (v, s) = inb d 0x1F7 s in
      if v AND 0xC0 \<noteq> 0x40 then waitdisk d s else Some s)"

definition readsect :: "devices \<Rightarrow> u32 \<Rightarrow> u32 \<Rightarrow> 'a machine_scheme \<Rightarrow> 'a machine_scheme option" where
  "readsect d dst offset s =
     do { s \<leftarrow> waitdisk d s;
          let s = outb 0x1F2 1 s;
          let s = outb 0x1F3 (ucast offset) s;
          let s = outb 0x1F4 (ucast (drop_bit 8 offset)) s;
          let s = outb 0x1F5 (ucast (drop_bit 16 offset)) s;
          let s = outb 0x1F6 (ucast (drop_bit 24 offset OR 0xE0)) s;
          let s = outb 0x1F7 0x20 s;
          s \<leftarrow> waitdisk d s;
          Some (insl d 0x1F0 dst (SECTSIZE div 4) s) }"

partial_function (option) readseg_loop ::
  "devices \<Rightarrow> u32 \<Rightarrow> u32 \<Rightarrow> u32 \<Rightarrow> 'a machine_scheme \<Rightarrow> 'a machine_scheme option" where
  "readseg_loop d end_pa pa offset s =
     (if pa < end_pa then
        do { s \<leftarrow> readsect d pa offset s;
             readseg_loop d end_pa (pa + SECTSIZE) (offset + 1) s }
      else Some s)"

definition readseg :: "devices \<Rightarrow> u32 \<Rightarrow> u32 \<Rightarrow> u32 \<Rightarrow> 'a machine_scheme \<Rightarrow> 'a machine_scheme option" where
  "readseg d pa count offset s =
     (let end_pa = pa + count;
          pa = pa AND NOT (SECTSIZE - 1);
          offset = offset div SECTSIZE + 1
      in readseg_loop d end_pa pa offset s)"

text \<open>
  The loop over the program headers, which are read from memory as it is when the loop gets to
  them.
\<close>

partial_function (option) load_segments :: "devices \<Rightarrow> u32 \<Rightarrow> u32 \<Rightarrow> 'a machine_scheme \<Rightarrow> 'a machine_scheme option" where
  "load_segments d ph eph s =
     (if ph < eph then
        do { let p = ld_proghdr (m_mem s) ph;
             s \<leftarrow> readseg d (p_pa p) (p_memsz p) (p_offset p) s;
             load_segments d (ph + 32) eph s }
      else Some s)"

text \<open>How the loader ends: in the kernel, at an address, or in the endless loop after \<^verbatim>\<open>bad\<close>.\<close>

datatype boot_end = Enter u32 | Bad

definition bootmain :: "devices \<Rightarrow> 'a machine_scheme \<Rightarrow> (boot_end \<times> 'a machine_scheme) option" where
  "bootmain d s =
     do { s \<leftarrow> readseg d ELFHDR (SECTSIZE * 8) 0 s;
          if e_magic (ld_elf (m_mem s) ELFHDR) \<noteq> ELF_MAGIC then
            (let s = outw 0x8A00 0x8A00 s;
                 s = outw 0x8A00 0x8E00 s
             in Some (Bad, s))
          else
            do { let ph = ELFHDR + e_phoff (ld_elf (m_mem s) ELFHDR);
                 let eph = ph + ucast (e_phnum (ld_elf (m_mem s) ELFHDR)) * 32;
                 s \<leftarrow> load_segments d ph eph s;
                 Some (Enter (e_entry (ld_elf (m_mem s) ELFHDR)), s) } }"

declare waitdisk.simps [code] readseg_loop.simps [code] load_segments.simps [code]

section \<open>The disk\<close>

text \<open>The last byte written to a port, and whether the last access of the status port saw the disk ready.\<close>

fun last_out :: "u16 \<Rightarrow> io_event list \<Rightarrow> u8" where
  "last_out p [] = 0"
| "last_out p (OutB q v # h) = (if q = p then v else last_out p h)"
| "last_out p (_ # h) = last_out p h"

fun seen_ready :: "io_event list \<Rightarrow> bool" where
  "seen_ready [] = False"
| "seen_ready (InB p v # h) = (if p = 0x1F7 then v AND 0xC0 = 0x40 else seen_ready h)"
| "seen_ready (OutB p v # h) = (p \<noteq> 0x1F7 \<and> seen_ready h)"
| "seen_ready (_ # h) = seen_ready h"

definition lba :: "io_event list \<Rightarrow> nat" where
  "lba h = unat (last_out 0x1F3 h) + 256 * unat (last_out 0x1F4 h) + 65536 * unat (last_out 0x1F5 h)
     + 16777216 * (unat (last_out 0x1F6 h) mod 16)"

text \<open>The sector being read and how many of its words have been taken.\<close>

fun reading :: "io_event list \<Rightarrow> (nat \<times> nat) option" where
  "reading [] = None"
| "reading (OutB p v # h) =
     (if p = 0x1F7 then
        (if v = 0x20 \<and> seen_ready h \<and> last_out 0x1F2 h = 1 \<and> last_out 0x1F6 h div 16 = 14 then Some (lba h, 0) else None)
      else reading h)"
| "reading (InL p v # h) = (if p = 0x1F0 then map_option (\<lambda>(l, k). (l, k + 1)) (reading h) else reading h)"
| "reading (_ # h) = reading h"

definition img32 :: "(nat \<Rightarrow> u8) \<Rightarrow> nat \<Rightarrow> u32" where
  "img32 img k = ucast (img k) OR push_bit 8 (ucast (img (k + 1)))
     OR push_bit 16 (ucast (img (k + 2))) OR push_bit 24 (ucast (img (k + 3)))"

text \<open>The histories that polling the status port leads to.\<close>

primrec polled :: "devices \<Rightarrow> nat \<Rightarrow> io_event list \<Rightarrow> io_event list" where
  "polled d 0 h = h"
| "polled d (Suc n) h = polled d n (InB 0x1F7 (dev_inb d h 0x1F7) # h)"

definition ide_disk :: "(nat \<Rightarrow> u8) \<Rightarrow> devices \<Rightarrow> bool" where
  "ide_disk img d \<longleftrightarrow>
     (\<forall>h. \<exists>n. dev_inb d (polled d n h) 0x1F7 AND 0xC0 = 0x40) \<and>
     (\<forall>h l k. reading h = Some (l, k) \<and> seen_ready h \<and> k < 128 \<longrightarrow> dev_inl d h 0x1F0 = img32 img (512 * l + 4 * k))"

section \<open>Memory loaded from the disk\<close>

definition load_region :: "mem \<Rightarrow> u32 \<Rightarrow> (nat \<Rightarrow> u8) \<Rightarrow> nat \<Rightarrow> nat \<Rightarrow> mem" where
  "load_region m d img k n = (\<lambda>a. if in_region d n a then img (k + unat (a - d)) else m a)"

lemma load_region_0 [simp]: "load_region m d img k 0 = m"
  by (simp add: load_region_def)

lemma load_region_append:
  assumes "j + n \<le> 4294967296"
  shows "load_region (load_region m d img k j) (d + of_nat j) img (k + j) n = load_region m d img k (j + n)"
proof
  fix a
  have s: "in_region d (j + n) a \<longleftrightarrow> in_region d j a \<or> in_region (d + of_nat j) n a"
    by (rule in_region_split [OF assms])
  show "load_region (load_region m d img k j) (d + of_nat j) img (k + j) n a = load_region m d img k (j + n) a"
  proof (cases "in_region (d + of_nat j) n a")
    case True
    then have nj: "\<not> in_region d j a" using in_region_split_disj [OF assms] by blast
    then have "j \<le> unat (a - d)" by (simp add: in_region_def)
    then have "unat (a - (d + of_nat j)) = unat (a - d) - j" by (simp add: diff_diff_eq [symmetric] unat_diff_of_nat)
    with True s \<open>j \<le> unat (a - d)\<close> show ?thesis by (simp add: load_region_def)
  next
    case False
    with s show ?thesis by (simp add: load_region_def)
  qed
qed

lemma st32_load: "st32 m d (img32 img k) = load_region m d img k 4"
proof -
  have b: "(ucast (img32 img k) :: u8) = img k" "(ucast (drop_bit 8 (img32 img k)) :: u8) = img (k + 1)"
    "(ucast (drop_bit 16 (img32 img k)) :: u8) = img (k + 2)" "(ucast (drop_bit 24 (img32 img k)) :: u8) = img (k + 3)"
    unfolding img32_def by (rule bit_word_eqI; auto simp: bit_simps dest: bit_imp_le_length)+
  have n: "d + 1 \<noteq> d" "d + 2 \<noteq> d" "d + 3 \<noteq> d" "d + 2 \<noteq> d + 1" "d + 3 \<noteq> d + 1" "d + 3 \<noteq> d + 2" by simp_all
  show ?thesis
    unfolding st32_def b load_region_def in_region_4 using n by (auto simp: fun_eq_iff)
qed


section \<open>Reading a sector\<close>

lemma waitdisk_polls:
  assumes "dev_inb d (polled d n (m_io s)) 0x1F7 AND 0xC0 = 0x40"
  shows "\<exists>io. waitdisk d s = Some (s\<lparr>m_io := io\<rparr>) \<and> reading io = reading (m_io s) \<and> seen_ready io
    \<and> (\<forall>p. last_out p io = last_out p (m_io s))"
  using assms
proof (induction n arbitrary: s)
  case 0
  then show ?case
    by (subst waitdisk.simps) (auto simp: inb_def log_io_def Let_def intro!: exI [of _ "InB 0x1F7 (dev_inb d (m_io s) 0x1F7) # m_io s"])
next
  case (Suc n)
  let ?v = "dev_inb d (m_io s) 0x1F7"
  let ?t = "s\<lparr>m_io := InB 0x1F7 ?v # m_io s\<rparr>"
  have w: "waitdisk d s = (if ?v AND 0xC0 \<noteq> 0x40 then waitdisk d ?t else Some ?t)"
    by (subst waitdisk.simps) (simp add: inb_def log_io_def Let_def)
  show ?case
  proof (cases "?v AND 0xC0 = 0x40")
    case True
    then show ?thesis unfolding w by (intro exI [of _ "m_io ?t"]) simp
  next
    case False
    obtain io where "waitdisk d ?t = Some (?t\<lparr>m_io := io\<rparr>)" "reading io = reading (m_io ?t)" "seen_ready io"
      "\<forall>p. last_out p io = last_out p (m_io ?t)"
      using Suc.IH [of ?t] Suc.prems by auto
    then show ?thesis using False unfolding w by (intro exI [of _ io]) simp
  qed
qed

lemma waitdisk_ready:
  assumes "ide_disk img d"
  obtains io where "waitdisk d s = Some (s\<lparr>m_io := io\<rparr>)" "reading io = reading (m_io s)" "seen_ready io"
    "\<And>p. last_out p io = last_out p (m_io s)"
  using assms waitdisk_polls [of d _ s] by (metis ide_disk_def)

lemma rep_insl_load:
  assumes d: "ide_disk img d"
  shows "reading (m_io s) = Some (l, k) \<Longrightarrow> seen_ready (m_io s) \<Longrightarrow> k + n \<le> 128 \<Longrightarrow>
    \<exists>io. rep_insl d 0x1F0 a n s = s\<lparr>m_mem := load_region (m_mem s) a img (512 * l + 4 * k) (4 * n), m_io := io\<rparr>"
proof (induction n arbitrary: s a k)
  case 0
  show ?case by (intro exI [of _ "m_io s"]) simp
next
  case (Suc n)
  let ?v = "img32 img (512 * l + 4 * k)"
  have v: "dev_inl d (m_io s) 0x1F0 = ?v" using d Suc.prems by (auto simp: ide_disk_def)
  let ?t = "s\<lparr>m_io := InL 0x1F0 ?v # m_io s, m_mem := st32 (m_mem s) a ?v\<rparr>"
  have r: "rep_insl d 0x1F0 a (Suc n) s = rep_insl d 0x1F0 (a + 4) n ?t"
    by (simp add: inl_def Let_def log_io_def v)
  obtain io where "rep_insl d 0x1F0 (a + 4) n ?t =
      ?t\<lparr>m_mem := load_region (m_mem ?t) (a + 4) img (512 * l + 4 * Suc k) (4 * n), m_io := io\<rparr>"
    using Suc.IH [of ?t "Suc k" "a + 4"] Suc.prems by auto
  moreover have "load_region (st32 (m_mem s) a ?v) (a + 4) img (512 * l + 4 * Suc k) (4 * n)
      = load_region (m_mem s) a img (512 * l + 4 * k) (4 * Suc n)"
    using load_region_append [of 4 "4 * n" "m_mem s" a img "512 * l + 4 * k"] Suc.prems
    by (simp add: st32_load ac_simps)
  ultimately show ?case unfolding r by (intro exI [of _ io]) simp
qed

text \<open>The sector number survives its passage through the four registers.\<close>

lemma lba_registers:
  assumes "off < 0x10000000"
  shows "unat (ucast off :: u8) + 256 * unat (ucast (drop_bit 8 off) :: u8) + 65536 * unat (ucast (drop_bit 16 off) :: u8)
     + 16777216 * (unat (ucast (drop_bit 24 off OR 0xE0) :: u8) mod 16) = unat (off :: u32)"
    and "(ucast (drop_bit 24 off OR 0xE0) :: u8) div 16 = 14"
proof -
  let ?h = "drop_bit 24 off"
  have small: "list_all (\<lambda>n. unat (ucast (of_nat n OR 0xE0 :: u32) :: u8) mod 16 = n \<and>
      (ucast (of_nat n OR 0xE0 :: u32) :: u8) div 16 = 14) [0..<16]"
    by code_simp
  have h: "unat ?h = unat off div 16777216" by (simp add: drop_bit_eq_div unat_div)
  have o: "unat off < 268435456" using assms by (simp add: word_less_nat_alt)
  have "unat ?h < 16" using h o by linarith
  moreover have "?h = of_nat (unat ?h)" by simp
  ultimately have r: "unat (ucast (?h OR 0xE0) :: u8) mod 16 = unat ?h \<and> (ucast (?h OR 0xE0) :: u8) div 16 = 14"
    using small unfolding list_all_iff by (metis atLeastLessThan_iff atLeastLessThan_upt zero_le)
  then show "(ucast (?h OR 0xE0) :: u8) div 16 = 14" by simp
  have u8: "unat (ucast x :: u8) = unat x mod 256" for x :: u32
    by (simp add: unsigned_ucast_eq take_bit_eq_mod)
  have sh: "unat (drop_bit 8 off) = unat off div 256" "unat (drop_bit 16 off) = unat off div 65536"
    by (simp_all add: drop_bit_eq_div unat_div)
  define N where "N = unat off"
  have "N mod 256 + 256 * (N div 256 mod 256) + 65536 * (N div 65536 mod 256) + 16777216 * (N div 16777216) = N"
  proof -
    have "N div 65536 = N div 256 div 256" "N div 16777216 = N div 65536 div 256" by (simp_all flip: div_mult2_eq)
    then show ?thesis
      using div_mult_mod_eq [of N 256] div_mult_mod_eq [of "N div 256" 256] div_mult_mod_eq [of "N div 65536" 256]
      by linarith
  qed
  then show "unat (ucast off :: u8) + 256 * unat (ucast (drop_bit 8 off) :: u8)
      + 65536 * unat (ucast (drop_bit 16 off) :: u8) + 16777216 * (unat (ucast (?h OR 0xE0) :: u8) mod 16) = unat off"
    using r h by (simp only: u8 sh N_def)
qed

lemma readsect_loads:
  assumes d: "ide_disk img d" and off: "off < 0x10000000"
  shows "\<exists>io. readsect d dst off s = Some (s\<lparr>m_mem := load_region (m_mem s) dst img (512 * unat off) 512, m_io := io\<rparr>)"
proof -
  obtain io1 where w1: "waitdisk d s = Some (s\<lparr>m_io := io1\<rparr>)" "seen_ready io1"
    by (rule waitdisk_ready [OF d])
  define io2 where "io2 = OutB 0x1F7 0x20 # OutB 0x1F6 (ucast (drop_bit 24 off OR 0xE0)) # OutB 0x1F5 (ucast (drop_bit 16 off))
      # OutB 0x1F4 (ucast (drop_bit 8 off)) # OutB 0x1F3 (ucast off) # OutB 0x1F2 1 # io1"
  have rd: "reading io2 = Some (unat off, 0)"
    using lba_registers [OF off] w1(2) by (simp add: io2_def lba_def)
  obtain io3 where w2: "waitdisk d (s\<lparr>m_io := io2\<rparr>) = Some (s\<lparr>m_io := io3\<rparr>)" "reading io3 = Some (unat off, 0)" "seen_ready io3"
    using waitdisk_ready [OF d, of "s\<lparr>m_io := io2\<rparr>"] rd by auto
  obtain io4 where i: "rep_insl d 0x1F0 dst 128 (s\<lparr>m_io := io3\<rparr>) =
      s\<lparr>m_mem := load_region (m_mem s) dst img (512 * unat off) 512, m_io := io4\<rparr>"
    using rep_insl_load [OF d, of "s\<lparr>m_io := io3\<rparr>" "unat off" 0 128 dst] w2(2,3) by auto
  have "readsect d dst off s = Some (insl d 0x1F0 dst (SECTSIZE div 4) (s\<lparr>m_io := io3\<rparr>))"
    using w1(1) w2(1) by (simp add: readsect_def Let_def outb_def log_io_def io2_def)
  moreover have "unat (SECTSIZE div 4) = 128" by (simp add: SECTSIZE_def)
  ultimately show ?thesis using i by (auto simp: insl_def)
qed


section \<open>Reading a segment\<close>

definition sector_base :: "u32 \<Rightarrow> u32" where
  "sector_base pa = pa - of_nat (unat pa mod 512)"

definition sectors :: "u32 \<Rightarrow> u32 \<Rightarrow> nat" where
  "sectors pa count = (unat pa mod 512 + unat count + 511) div 512"

lemma mask_sector: "pa AND NOT (SECTSIZE - 1) = sector_base pa"
proof -
  have m: "SECTSIZE - 1 = mask 9" by (simp add: SECTSIZE_def mask_eq_exp_minus_1)
  have "(pa AND NOT (mask 9)) + (pa AND mask 9) = (pa AND NOT (mask 9)) OR (pa AND mask 9)"
    by (rule disjunctive_add) (auto simp: bit_simps)
  also have "\<dots> = pa" by (rule bit_word_eqI) (auto simp: bit_simps)
  finally have "pa AND NOT (mask 9) = pa - take_bit 9 pa" by (simp add: take_bit_eq_mask eq_diff_eq)
  moreover have "unat (take_bit 9 pa) = unat pa mod 512" by (simp add: take_bit_eq_mod unat_mod)
  then have "take_bit 9 pa = of_nat (unat pa mod 512)" using word_eq_of_nat_unat [of "take_bit 9 pa"] by simp
  ultimately show ?thesis by (simp add: m sector_base_def)
qed

lemma unat_sector_base: "unat (sector_base pa) = unat pa - unat pa mod 512"
  by (simp add: sector_base_def unat_diff_of_nat)

lemma readseg_loop_loads:
  assumes d: "ide_disk img d"
  shows "unat pa + 512 * n < 4294967296 \<Longrightarrow> unat e \<le> unat pa + 512 * n \<Longrightarrow> (0 < n \<Longrightarrow> unat pa + 512 * (n - 1) < unat e) \<Longrightarrow>
    unat off + n \<le> 268435456 \<Longrightarrow>
    \<exists>io. readseg_loop d e pa off s = Some (s\<lparr>m_mem := load_region (m_mem s) pa img (512 * unat off) (512 * n), m_io := io\<rparr>)"
proof (induction n arbitrary: pa off s)
  case 0
  then have "\<not> pa < e" by (simp add: word_less_nat_alt)
  then show ?case by (intro exI [of _ "m_io s"]) (subst readseg_loop.simps, simp)
next
  case (Suc n)
  have lt: "pa < e" using Suc.prems(3) by (simp add: word_less_nat_alt)
  have "off < 0x10000000" using Suc.prems(4) by (simp add: word_less_nat_alt)
  then obtain io where r: "readsect d pa off s = Some (s\<lparr>m_mem := load_region (m_mem s) pa img (512 * unat off) 512, m_io := io\<rparr>)"
    (is "_ = Some ?t") using readsect_loads [OF d] by blast
  have pa: "unat (pa + SECTSIZE) = unat pa + 512"
    using Suc.prems(1) unat_add_of_nat [of pa 512] by (simp add: SECTSIZE_def)
  have of: "unat (off + 1) = unat off + 1"
    using Suc.prems(4) unat_add_of_nat [of off 1] by simp
  obtain io' where l: "readseg_loop d e (pa + SECTSIZE) (off + 1) ?t =
      Some (?t\<lparr>m_mem := load_region (m_mem ?t) (pa + SECTSIZE) img (512 * unat (off + 1)) (512 * n), m_io := io'\<rparr>)"
    using Suc.IH [of "pa + SECTSIZE" "off + 1" ?t] Suc.prems pa of by (cases n) auto
  have "load_region (load_region (m_mem s) pa img (512 * unat off) 512) (pa + SECTSIZE) img (512 * unat (off + 1)) (512 * n)
      = load_region (m_mem s) pa img (512 * unat off) (512 * Suc n)"
    using load_region_append [of 512 "512 * n" "m_mem s" pa img "512 * unat off"] Suc.prems(1) of
    by (simp add: SECTSIZE_def ac_simps)
  then show ?case
    using lt r l by (intro exI [of _ io']) (subst readseg_loop.simps, simp)
qed

lemma readseg_region:
  assumes d: "ide_disk img d" and fits: "unat pa + unat count \<le> 4294966784"
  shows "\<exists>io. readseg d pa count off s = Some (s\<lparr>m_mem := load_region (m_mem s) (sector_base pa) img
    (512 * (unat off div 512 + 1)) (512 * sectors pa count), m_io := io\<rparr>)"
proof -
  define r where "r = unat pa mod 512"
  define n where "n = sectors pa count"
  have r: "r \<le> unat pa" "r < 512" by (simp_all add: r_def)
  have b: "unat (sector_base pa) = unat pa - r" by (simp add: unat_sector_base r_def)
  have e: "unat (pa + count) = unat pa + unat count" using fits by (simp add: unat_word_ariths)
  have n: "n = (r + unat count + 511) div 512" by (simp add: n_def sectors_def r_def)
  then have n1: "512 * n < r + unat count + 512" "r + unat count \<le> 512 * n"
    using div_mult_mod_eq [of "r + unat count + 511" 512] mod_less_divisor [of 512 "r + unat count + 511"] by linarith+
  have top: "unat pa - r + 512 * n < 4294967296" using n1(1) fits r by linarith
  have o: "unat (off div SECTSIZE + 1) = unat off div 512 + 1"
  proof -
    have "unat off div 512 + 1 < 4294967296" using unat_u32_lt [of off] by linarith
    then show ?thesis using unat_add_of_nat [of "off div SECTSIZE" 1] by (simp add: SECTSIZE_def unat_div)
  qed
  have small: "unat off div 512 + 1 + n \<le> 268435456" using n1(1) fits r unat_u32_lt [of off] by linarith
  have low: "unat (sector_base pa) + 512 * (n - 1) < unat (pa + count)" if "0 < n"
    using n1(1) r that by (simp add: b e)
  show ?thesis
    using readseg_loop_loads [OF d, of "sector_base pa" n "pa + count" "off div SECTSIZE + 1" s] top low n1(2) r small
    by (simp add: readseg_def Let_def mask_sector b e o n_def [symmetric])
qed


text \<open>When the address and the offset have the same place in a sector, the bytes come to their place.\<close>

lemma sector_bytes:
  assumes "unat pa + unat count \<le> 4294966784" "unat pa mod 512 = unat off mod 512" "i < unat count"
  shows "load_region m (sector_base pa) img (512 * (unat off div 512 + 1)) (512 * sectors pa count) (pa + of_nat i)
    = img (512 + unat off + i)"
proof -
  define r where "r = unat pa mod 512"
  have r: "r < 512" by (simp add: r_def)
  have n: "r + unat count \<le> 512 * sectors pa count"
    using div_mult_mod_eq [of "r + unat count + 511" 512] mod_less_divisor [of 512 "r + unat count + 511"]
    unfolding sectors_def r_def [symmetric] by linarith
  have ri: "r + i < 4294967296" using r assms(1,3) by linarith
  have a: "pa + of_nat i = sector_base pa + of_nat (r + i)" by (simp add: sector_base_def r_def)
  have u: "unat (pa + of_nat i - sector_base pa) = r + i" using ri unfolding a by (simp add: unat_of_nat_u32 del: of_nat_add)
  have "unat off = 512 * (unat off div 512) + r" using assms(2) by (simp add: r_def)
  then have v: "512 * (unat off div 512 + 1) + (r + i) = 512 + unat off + i" by (simp add: distrib_left)
  have "load_region m (sector_base pa) img (512 * (unat off div 512 + 1)) (512 * sectors pa count) (pa + of_nat i)
      = img (512 * (unat off div 512 + 1) + unat (pa + of_nat i - sector_base pa))"
    using u n assms(3) by (simp add: load_region_def in_region_def)
  then show ?thesis by (simp only: u v)
qed

text \<open>(C38) With a disk on the controller, \<^verbatim>\<open>readseg\<close> returns, provided that the region ends below the
  last sector of the address space. When the address and the offset have the same place in a
  sector, the bytes asked for are then those at the offset in the kernel's image, which starts at
  the second sector; only whole sectors around the region have been overwritten.\<close>

theorem readseg_loads:
  assumes "ide_disk img d" "unat pa + unat count \<le> 4294966784"
  shows "\<exists>s'. readseg d pa count off s = Some s'
    \<and> (unat pa mod 512 = unat off mod 512 \<longrightarrow>
        (\<forall>i < unat count. m_mem s' (pa + of_nat i) = img (512 + unat off + i)))
    \<and> (\<forall>a. \<not> in_region (sector_base pa) (512 * sectors pa count) a \<longrightarrow> m_mem s' a = m_mem s a)"
proof -
  let ?m = "load_region (m_mem s) (sector_base pa) img (512 * (unat off div 512 + 1)) (512 * sectors pa count)"
  obtain io where "readseg d pa count off s = Some (s\<lparr>m_mem := ?m, m_io := io\<rparr>)"
    using readseg_region [OF assms] by blast
  moreover have "?m (pa + of_nat i) = img (512 + unat off + i)"
    if "unat pa mod 512 = unat off mod 512" "i < unat count" for i
    using sector_bytes [OF assms(2) that] .
  moreover have "?m a = m_mem s a" if "\<not> in_region (sector_base pa) (512 * sectors pa count) a" for a
    using that by (simp add: load_region_def)
  ultimately show ?thesis
    by (intro exI [of _ "s\<lparr>m_mem := ?m, m_io := _\<rparr>"] conjI) (assumption | simp)+
qed

section \<open>Loading a kernel\<close>

definition seg_mem :: "(nat \<Rightarrow> u8) \<Rightarrow> Proghdr \<Rightarrow> mem \<Rightarrow> mem" where
  "seg_mem img p m = load_region m (sector_base (p_pa p)) img (512 * (unat (p_offset p) div 512 + 1))
     (512 * sectors (p_pa p) (p_memsz p))"

text \<open>What of the memory a segment may overwrite, and the page that the headers are read to.\<close>

definition seg_touches :: "Proghdr \<Rightarrow> u32 \<Rightarrow> bool" where
  "seg_touches p a \<longleftrightarrow> in_region (sector_base (p_pa p)) (512 * sectors (p_pa p) (p_memsz p)) a"

definition seg_fits :: "Proghdr \<Rightarrow> bool" where
  "seg_fits p \<longleftrightarrow> unat (p_pa p) + unat (p_memsz p) \<le> 4294966784
     \<and> (\<forall>a. in_region ELFHDR 4096 a \<longrightarrow> \<not> seg_touches p a)"

lemma seg_mem_other: "\<not> seg_touches p a \<Longrightarrow> seg_mem img p m a = m a"
  by (simp add: seg_mem_def seg_touches_def load_region_def)

lemma readseg_segment:
  assumes "ide_disk img d" "seg_fits p"
  shows "\<exists>io. readseg d (p_pa p) (p_memsz p) (p_offset p) s = Some (s\<lparr>m_mem := seg_mem img p (m_mem s), m_io := io\<rparr>)"
  unfolding seg_mem_def by (rule readseg_region [OF assms(1)]) (use assms(2) in \<open>simp add: seg_fits_def\<close>)

lemma ld32_cong:
  assumes "\<And>i. i < 4 \<Longrightarrow> m' (a + of_nat i) = m (b + of_nat i)"
  shows "ld32 m' a = ld32 m b"
  using assms [of 0] assms [of 1] assms [of 2] assms [of 3] by (simp add: ld32_def)

lemma ld16_cong: "m' a = m b \<Longrightarrow> m' (a + 1) = m (b + 1) \<Longrightarrow> ld16 m' a = ld16 m b"
  by (simp add: ld16_def)


text \<open>The kernel's image as a memory, its headers, and the page of memory that holds them.\<close>

definition imgmem :: "(nat \<Rightarrow> u8) \<Rightarrow> mem" where
  "imgmem img = (\<lambda>a. img (512 + unat a))"

definition kernel_headers :: "(nat \<Rightarrow> u8) \<Rightarrow> Proghdr list" where
  "kernel_headers img =
     (let e = ld_elf (imgmem img) 0
      in map (\<lambda>i. ld_proghdr (imgmem img) (e_phoff e + 32 * of_nat i)) [0..<unat (e_phnum e)])"

definition header_page :: "(nat \<Rightarrow> u8) \<Rightarrow> mem \<Rightarrow> bool" where
  "header_page img m \<longleftrightarrow> (\<forall>x. unat x < 4096 \<longrightarrow> m (ELFHDR + x) = imgmem img x)"

lemma header_page_ld:
  assumes "header_page img m"
  shows "unat x + 4 \<le> 4096 \<Longrightarrow> ld32 m (ELFHDR + x) = ld32 (imgmem img) x"
    and "unat x + 2 \<le> 4096 \<Longrightarrow> ld16 m (ELFHDR + x) = ld16 (imgmem img) x"
proof -
  have at: "m (ELFHDR + x + of_nat i) = imgmem img (x + of_nat i)" if "unat x + i < 4096" for i
    using assms unat_add_of_nat [of x i] that by (simp add: header_page_def add.assoc)
  show "unat x + 4 \<le> 4096 \<Longrightarrow> ld32 m (ELFHDR + x) = ld32 (imgmem img) x" by (intro ld32_cong at) linarith
  show "unat x + 2 \<le> 4096 \<Longrightarrow> ld16 m (ELFHDR + x) = ld16 (imgmem img) x"
    using at [of 0] at [of 1] by (intro ld16_cong) simp_all
qed

lemma header_page_proghdr:
  assumes "header_page img m" "unat x + 32 \<le> 4096"
  shows "ld_proghdr m (ELFHDR + x) = ld_proghdr (imgmem img) x"
proof -
  have "ld32 m (ELFHDR + x + of_nat i) = ld32 (imgmem img) (x + of_nat i)" if "i \<le> 28" for i
    using header_page_ld(1) [OF assms(1), of "x + of_nat i"] unat_add_of_nat [of x i] that assms(2)
    by (simp add: add.assoc)
  from this [of 0] this [of 4] this [of 8] this [of 12] this [of 16] this [of 20] this [of 24] this [of 28]
  show ?thesis by (simp add: ld_proghdr_def)
qed

lemma header_page_elf:
  assumes "header_page img m"
  shows "e_magic (ld_elf m ELFHDR) = e_magic (ld_elf (imgmem img) 0)"
    "e_phoff (ld_elf m ELFHDR) = e_phoff (ld_elf (imgmem img) 0)"
    "e_phnum (ld_elf m ELFHDR) = e_phnum (ld_elf (imgmem img) 0)"
    "e_entry (ld_elf m ELFHDR) = e_entry (ld_elf (imgmem img) 0)"
  using header_page_ld(1) [OF assms, of 0] header_page_ld(1) [OF assms, of 24] header_page_ld(1) [OF assms, of 28]
    header_page_ld(2) [OF assms, of 44]
  by (simp_all add: ld_elf_def)

lemma header_page_segment:
  assumes "header_page img m" "seg_fits p"
  shows "header_page img (seg_mem img p m)"
proof -
  have "seg_mem img p m (ELFHDR + x) = m (ELFHDR + x)" if "unat x < 4096" for x
    using assms(2) that by (intro seg_mem_other) (auto simp: seg_fits_def in_region_def)
  then show ?thesis using assms(1) by (simp add: header_page_def)
qed

lemma load_segments_loads:
  assumes d: "ide_disk img d"
  shows "header_page img (m_mem s) \<Longrightarrow> \<forall>p \<in> set ps. seg_fits p \<Longrightarrow> unat x + 32 * length ps \<le> 4096 \<Longrightarrow>
    (\<And>i. i < length ps \<Longrightarrow> ld_proghdr (imgmem img) (x + 32 * of_nat i) = ps ! i) \<Longrightarrow>
    \<exists>io. load_segments d (ELFHDR + x) (ELFHDR + x + 32 * of_nat (length ps)) s =
      Some (s\<lparr>m_mem := fold (seg_mem img) ps (m_mem s), m_io := io\<rparr>)"
proof (induction ps arbitrary: x s)
  case Nil
  then show ?case by (intro exI [of _ "m_io s"]) (subst load_segments.simps, simp)
next
  case (Cons p ps)
  let ?e = "ELFHDR + x + 32 * of_nat (length (p # ps))"
  have b: "unat (ELFHDR + x) = 65536 + unat x" "unat ?e = 65536 + unat x + 32 * length (p # ps)"
    using Cons.prems(3) unat_add_of_nat [of x 65536] unat_add_of_nat [of x "65536 + 32 * length (p # ps)"]
    by (simp_all add: ELFHDR_def ac_simps)
  then have lt: "ELFHDR + x < ?e" by (simp add: word_less_nat_alt)
  have p: "ld_proghdr (m_mem s) (ELFHDR + x) = p"
    using header_page_proghdr [OF Cons.prems(1), of x] Cons.prems(3) Cons.prems(4) [of 0] by simp
  obtain io where r: "readseg d (p_pa p) (p_memsz p) (p_offset p) s = Some (s\<lparr>m_mem := seg_mem img p (m_mem s), m_io := io\<rparr>)"
    (is "_ = Some ?t") using readseg_segment [OF d] Cons.prems(2) by fastforce
  have x: "unat (x + 32) = unat x + 32" using Cons.prems(3) unat_add_of_nat [of x 32] by simp
  have nx: "ld_proghdr (imgmem img) (x + 32 + 32 * of_nat i) = ps ! i" if "i < length ps" for i
    using Cons.prems(4) [of "Suc i"] that by (simp add: algebra_simps)
  obtain io' where l: "load_segments d (ELFHDR + (x + 32)) (ELFHDR + (x + 32) + 32 * of_nat (length ps)) ?t =
      Some (?t\<lparr>m_mem := fold (seg_mem img) ps (m_mem ?t), m_io := io'\<rparr>)"
    using Cons.IH [of ?t "x + 32"] header_page_segment [OF Cons.prems(1)] Cons.prems(2,3) nx x by auto
  have "ELFHDR + (x + 32) + 32 * of_nat (length ps) = ?e" by (simp add: algebra_simps)
  then show ?case using lt p r l by (intro exI [of _ io']) (subst load_segments.simps, simp add: add.assoc)
qed

text \<open>The bytes of a segment that the later ones leave alone.\<close>

definition keeps_segment :: "Proghdr \<Rightarrow> Proghdr \<Rightarrow> bool" where
  "keeps_segment p q \<longleftrightarrow> (\<forall>i < unat (p_memsz p). \<not> seg_touches q (p_pa p + of_nat i))"

definition seg_aligned :: "Proghdr \<Rightarrow> bool" where
  "seg_aligned p \<longleftrightarrow> unat (p_pa p) mod 512 = unat (p_offset p) mod 512"

lemma fold_seg_mem_other: "\<forall>p \<in> set ps. \<not> seg_touches p a \<Longrightarrow> fold (seg_mem img) ps m a = m a"
  by (induction ps arbitrary: m) (simp_all add: seg_mem_other)

lemma fold_seg_mem_bytes:
  assumes "sorted_wrt keeps_segment ps" "\<forall>p \<in> set ps. seg_fits p \<and> seg_aligned p" "p \<in> set ps" "i < unat (p_memsz p)"
  shows "fold (seg_mem img) ps m (p_pa p + of_nat i) = img (512 + unat (p_offset p) + i)"
  using assms
proof (induction ps arbitrary: m)
  case (Cons q ps)
  show ?case
  proof (cases "p \<in> set ps")
    case False
    then have q: "p = q" using Cons.prems(3) by simp
    then have "fold (seg_mem img) ps (seg_mem img p m) (p_pa p + of_nat i) = seg_mem img p m (p_pa p + of_nat i)"
      using Cons.prems(1,4) by (intro fold_seg_mem_other) (auto simp: keeps_segment_def)
    also have "\<dots> = img (512 + unat (p_offset p) + i)"
      using Cons.prems(2-4) unfolding seg_mem_def by (intro sector_bytes) (auto simp: seg_fits_def seg_aligned_def)
    finally show ?thesis using q by simp
  qed (use Cons in simp)
qed simp


definition bootable :: "(nat \<Rightarrow> u8) \<Rightarrow> bool" where
  "bootable img \<longleftrightarrow>
     (let e = ld_elf (imgmem img) 0
      in e_magic e = ELF_MAGIC \<and> unat (e_phoff e) + 32 * unat (e_phnum e) \<le> 4096) \<and>
     (\<forall>p \<in> set (kernel_headers img). seg_fits p \<and> seg_aligned p) \<and> sorted_wrt keeps_segment (kernel_headers img)"

text \<open>Reading the headers.\<close>

lemma boot_reads_headers:
  assumes "ide_disk img d"
  shows "\<exists>m io. readseg d ELFHDR (SECTSIZE * 8) 0 s = Some (s\<lparr>m_mem := m, m_io := io\<rparr>) \<and> header_page img m
    \<and> (\<forall>a. \<not> in_region ELFHDR 4096 a \<longrightarrow> m a = m_mem s a)"
proof -
  let ?m = "load_region (m_mem s) ELFHDR img 512 4096"
  have "sector_base ELFHDR = ELFHDR" "sectors ELFHDR (SECTSIZE * 8) = 8"
    by (simp_all add: sector_base_def sectors_def ELFHDR_def SECTSIZE_def)
  then obtain io where "readseg d ELFHDR (SECTSIZE * 8) 0 s = Some (s\<lparr>m_mem := ?m, m_io := io\<rparr>)"
    using readseg_region [OF assms, of ELFHDR "SECTSIZE * 8" 0 s] by (auto simp: ELFHDR_def SECTSIZE_def)
  moreover have "header_page img ?m"
    by (auto simp: header_page_def load_region_def in_region_def imgmem_def)
  moreover have "?m a = m_mem s a" if "\<not> in_region ELFHDR 4096 a" for a using that by (simp add: load_region_def)
  ultimately show ?thesis by blast
qed

section \<open>A sample disk\<close>

definition sample_img :: "nat \<Rightarrow> u8" where
  "sample_img = (\<lambda>_. 0)(512 := 0x7F, 513 := 0x45, 514 := 0x4C, 515 := 0x46, 536 := 0x0C, 538 := 0x10, 540 := 52, 556 := 1,
     569 := 0x10, 578 := 0x10, 585 := 6, 4608 := 0xAB)"

definition disk_devices :: "(nat \<Rightarrow> u8) \<Rightarrow> devices" where
  "disk_devices img = \<lparr>dev_inb = \<lambda>h p. 0x40, dev_inw = \<lambda>h p. 0,
     dev_inl = \<lambda>h p. (case reading h of Some (l, k) \<Rightarrow> img32 img (512 * l + 4 * k) | None \<Rightarrow> 0),
     dev_cga = None, dev_cpuid = \<lambda>i. (0, 0, 0, 0), dev_tsc = \<lambda>h. 0\<rparr>"

lemma ide_disk_devices: "ide_disk img (disk_devices img)"
  by (auto simp: ide_disk_def disk_devices_def)

definition blank_machine :: machine where
  "blank_machine = \<lparr>m_mem = \<lambda>_. 0, m_io = [], m_cr0 = 0, m_cr2 = 0, m_cr3 = 0, m_cr4 = 0, m_eflags = 0, m_ebp = 0, m_esp = 0\<rparr>"

lemma sample_headers:
  "e_magic (ld_elf (imgmem sample_img) 0) = ELF_MAGIC" "e_entry (ld_elf (imgmem sample_img) 0) = 0x10000C"
  "e_phoff (ld_elf (imgmem sample_img) 0) = 52" "e_phnum (ld_elf (imgmem sample_img) 0) = 1"
  "kernel_headers sample_img = [\<lparr>p_type = 0, p_offset = 0x1000, p_va = 0, p_pa = 0x100000, p_filesz = 0, p_memsz = 0x600,
     p_flags = 0, p_align = 0\<rparr>]"
  by (simp_all add: kernel_headers_def ld_elf_def ld_proghdr_def ld32_def ld16_def imgmem_def sample_img_def ELF_MAGIC_def)

lemma sample_byte: "sample_img 4608 = 0xAB"
  by (simp add: sample_img_def)

lemma bootable_sample: "bootable sample_img"
proof -
  let ?p = "\<lparr>p_type = 0, p_offset = 0x1000, p_va = 0, p_pa = 0x100000, p_filesz = 0, p_memsz = 0x600, p_flags = 0, p_align = 0\<rparr>"
  have "\<not> seg_touches ?p a" if r: "in_region 0x10000 4096 a" for a
  proof -
    obtain i where i: "i < 4096" "a = 0x10000 + of_nat i" using r unfolding in_region_iff by blast
    then have "unat (a - 0x100000) = 0xFFF10000 + i" by (simp add: unat_sub_if' unat_word_ariths unat_of_nat)
    then show ?thesis by (simp add: seg_touches_def sector_base_def sectors_def in_region_def)
  qed
  then have "seg_fits ?p" by (simp add: seg_fits_def ELFHDR_def)
  then show ?thesis by (simp add: bootable_def sample_headers seg_aligned_def)
qed

lemma readseg_loads_witness:
  "\<exists>s'. readseg (disk_devices sample_img) 0x100000 0x600 0x1000 blank_machine = Some s' \<and> m_mem s' 0x100000 = 0xAB"
  using readseg_loads [OF ide_disk_devices [of sample_img], of "0x100000" "0x600" "0x1000" blank_machine]
  by (fastforce simp: sample_byte dest: spec [of _ "0 :: nat"])

text \<open>(C5) From a disk with a kernel whose headers lie in the first page of its image, whose segments
  are placed like their offsets within a sector, apart from the headers and from one another, the
  loader returns control at the entry point of the ELF header, with every byte of every segment at
  its physical address and nothing else changed but the header page and whole sectors around the
  segments.\<close>

theorem bootmain_loads:
  assumes d: "ide_disk img d" and img: "bootable img"
  shows "\<exists>s'. bootmain d s = Some (Enter (e_entry (ld_elf (imgmem img) 0)), s')
    \<and> (\<forall>p \<in> set (kernel_headers img). \<forall>i < unat (p_memsz p).
        m_mem s' (p_pa p + of_nat i) = img (512 + unat (p_offset p) + i))
    \<and> (\<forall>a. \<not> in_region ELFHDR 4096 a \<longrightarrow> (\<forall>p \<in> set (kernel_headers img). \<not> seg_touches p a) \<longrightarrow> m_mem s' a = m_mem s a)"
proof -
  let ?e = "ld_elf (imgmem img) 0" and ?ps = "kernel_headers img"
  have e: "e_magic ?e = ELF_MAGIC" "unat (e_phoff ?e) + 32 * unat (e_phnum ?e) \<le> 4096"
    and ps: "\<forall>p \<in> set ?ps. seg_fits p \<and> seg_aligned p" "sorted_wrt keeps_segment ?ps"
    using img by (simp_all add: bootable_def Let_def)
  obtain m io where r: "readseg d ELFHDR (SECTSIZE * 8) 0 s = Some (s\<lparr>m_mem := m, m_io := io\<rparr>)" (is "_ = Some ?t")
    and m: "header_page img m" "\<And>a. \<not> in_region ELFHDR 4096 a \<Longrightarrow> m a = m_mem s a"
    using boot_reads_headers [OF d, of s] by blast
  have len: "length ?ps = unat (e_phnum ?e)" by (simp add: kernel_headers_def Let_def)
  have hd: "ld_proghdr (imgmem img) (e_phoff ?e + 32 * of_nat i) = ?ps ! i" if "i < length ?ps" for i
    using that by (simp add: kernel_headers_def Let_def)
  obtain io' where l: "load_segments d (ELFHDR + e_phoff ?e) (ELFHDR + e_phoff ?e + 32 * of_nat (length ?ps)) ?t =
      Some (?t\<lparr>m_mem := fold (seg_mem img) ?ps m, m_io := io'\<rparr>)" (is "_ = Some ?u")
    using load_segments_loads [OF d, of ?t ?ps "e_phoff ?e"] m(1) ps(1) e(2) hd len by auto
  have "header_page img (fold (seg_mem img) qs m)" if "set qs \<subseteq> set ?ps" for qs
    using that m(1) ps(1) by (induction qs arbitrary: m) (auto intro: header_page_segment)
  then have h: "header_page img (m_mem ?u)" by simp
  have "(ucast (e_phnum ?e) :: u32) = of_nat (length ?ps)" by (simp add: len of_nat_unat)
  then have "bootmain d s = Some (Enter (e_entry ?e), ?u)"
    using r l e(1) header_page_elf [OF m(1)] header_page_elf(4) [OF h] by (simp add: bootmain_def Let_def mult.commute)
  moreover have "m_mem ?u (p_pa p + of_nat i) = img (512 + unat (p_offset p) + i)"
    if "p \<in> set ?ps" "i < unat (p_memsz p)" for p i
    using fold_seg_mem_bytes [OF ps(2,1) that] by simp
  moreover have "m_mem ?u a = m_mem s a" if "\<not> in_region ELFHDR 4096 a" "\<forall>p \<in> set ?ps. \<not> seg_touches p a" for a
    using m(2) [OF that(1)] fold_seg_mem_other [OF that(2)] by simp
  ultimately show ?thesis by blast
qed

lemma bootmain_loads_witness:
  "\<exists>s'. bootmain (disk_devices sample_img) blank_machine = Some (Enter 0x10000C, s') \<and> m_mem s' 0x100000 = 0xAB"
  using bootmain_loads [OF ide_disk_devices bootable_sample, of blank_machine]
  by (fastforce simp: sample_headers sample_byte dest: spec [of _ "0 :: nat"])

text \<open>(C39) An image without the magic number is not started: the loader writes its two codes to the
  debug port and stays in the endless loop, and no memory outside the header page has changed.\<close>

theorem bootmain_rejects:
  assumes "ide_disk img d" "e_magic (ld_elf (imgmem img) 0) \<noteq> ELF_MAGIC"
  shows "\<exists>s' io. bootmain d s = Some (Bad, s') \<and> m_io s' = OutW 0x8A00 0x8E00 # OutW 0x8A00 0x8A00 # io
    \<and> (\<forall>a. \<not> in_region ELFHDR 4096 a \<longrightarrow> m_mem s' a = m_mem s a)"
proof -
  obtain m io where "readseg d ELFHDR (SECTSIZE * 8) 0 s = Some (s\<lparr>m_mem := m, m_io := io\<rparr>)" "header_page img m"
    "\<And>a. \<not> in_region ELFHDR 4096 a \<Longrightarrow> m a = m_mem s a"
    using boot_reads_headers [OF assms(1), of s] by blast
  then show ?thesis using assms(2) by (auto simp: bootmain_def Let_def header_page_elf outw_def log_io_def)
qed

lemma bootmain_rejects_witness:
  "\<exists>s' io. bootmain (disk_devices (\<lambda>_. 0)) blank_machine = Some (Bad, s') \<and> m_io s' = OutW 0x8A00 0x8E00 # OutW 0x8A00 0x8A00 # io"
proof -
  have "e_magic (ld_elf (imgmem (\<lambda>_. 0)) 0) \<noteq> ELF_MAGIC" by (simp add: ld_elf_def ld32_def imgmem_def ELF_MAGIC_def)
  then show ?thesis using bootmain_rejects [OF ide_disk_devices, of "\<lambda>_. 0" blank_machine] by blast
qed

end
