(* ===== verification/JosConsole.thy ===== *)
theory JosConsole
  imports JosMachine JosString
begin

text \<open>
  The output half of \<^verbatim>\<open>src/kern/console.c\<close>: the serial port, the parallel port and the
  text screen. The static variables of the file are the fields of the record \<open>console\<close>, which
  extends the machine; the screen memory is part of the machine's memory, so that the scrolling
  is the kernel's own \<^verbatim>\<open>memmove\<close> on it.

  The screen is then abstracted to a list of cells and a cursor, and \<^verbatim>\<open>cons_putc\<close> is shown
  to refine the operations of that abstract screen and to send its characters on the two ports.
\<close>

section \<open>The model\<close>

record console = machine +
  serial_exists :: bool
  addr_6845 :: u32
  crt_buf :: u32
  crt_pos :: u16
  kbd_shift :: u32
  cons_buf :: "u8 list"
  cons_rpos :: u32
  cons_wpos :: u32

definition COM1 :: u32 where "COM1 = 0x3F8"
definition COM_RX :: u32 where "COM_RX = 0"
definition COM_TX :: u32 where "COM_TX = 0"
definition COM_DLL :: u32 where "COM_DLL = 0"
definition COM_DLM :: u32 where "COM_DLM = 1"
definition COM_IER :: u32 where "COM_IER = 1"
definition COM_IIR :: u32 where "COM_IIR = 2"
definition COM_FCR :: u32 where "COM_FCR = 2"
definition COM_LCR :: u32 where "COM_LCR = 3"
definition COM_MCR :: u32 where "COM_MCR = 4"
definition COM_LSR :: u32 where "COM_LSR = 5"
definition COM_LSR_DATA :: u8 where "COM_LSR_DATA = 0x01"
definition COM_LSR_TXRDY :: u8 where "COM_LSR_TXRDY = 0x20"
definition COM_LCR_DLAB :: u8 where "COM_LCR_DLAB = 0x80"
definition COM_LCR_WLEN8 :: u8 where "COM_LCR_WLEN8 = 0x03"
definition COM_MCR_RTS :: u8 where "COM_MCR_RTS = 0x02"
definition COM_MCR_DTR :: u8 where "COM_MCR_DTR = 0x01"
definition COM_MCR_OUT2 :: u8 where "COM_MCR_OUT2 = 0x08"
definition COM_LSR_TSRE :: u8 where "COM_LSR_TSRE = 0x40"
definition COM_IER_RDI :: u8 where "COM_IER_RDI = 0x01"

lemmas com_defs = COM1_def COM_RX_def COM_TX_def COM_DLL_def COM_DLM_def COM_IER_def COM_IIR_def
  COM_FCR_def COM_LCR_def COM_MCR_def COM_LSR_def COM_LSR_DATA_def COM_LSR_TXRDY_def
  COM_LCR_DLAB_def COM_LCR_WLEN8_def COM_IER_RDI_def

definition MONO_BASE :: u32 where "MONO_BASE = 0x3B4"
definition MONO_BUF :: u32 where "MONO_BUF = 0xB0000"
definition CGA_BASE :: u32 where "CGA_BASE = 0x3D4"
definition CGA_BUF :: u32 where "CGA_BUF = 0xB8000"
definition CRT_ROWS :: nat where "CRT_ROWS = 25"
definition CRT_COLS :: nat where "CRT_COLS = 80"
definition CRT_SIZE :: nat where "CRT_SIZE = CRT_ROWS * CRT_COLS"

lemmas crt_defs = CRT_ROWS_def CRT_COLS_def CRT_SIZE_def

definition delay :: "devices \<Rightarrow> console \<Rightarrow> console" where
  "delay d s =
     (let (_, s) = inb d 0x84 s;
          (_, s) = inb d 0x84 s;
          (_, s) = inb d 0x84 s;
          (_, s) = inb d 0x84 s
      in s)"

subsection \<open>Serial port\<close>

function serial_wait :: "devices \<Rightarrow> nat \<Rightarrow> console \<Rightarrow> console" where
  "serial_wait d i s =
     (let (v, s) = inb d (COM1 + COM_LSR) s in
      if v AND COM_LSR_TXRDY = 0 \<and> i < 12800 then serial_wait d (i + 1) (delay d s) else s)"
  by auto
termination by (relation "measure (\<lambda>(d, i, s). 12800 - i)") auto

declare serial_wait.simps [simp del]

definition serial_putc :: "devices \<Rightarrow> u32 \<Rightarrow> console \<Rightarrow> console" where
  "serial_putc d c s = (let s = serial_wait d 0 s in outb (COM1 + COM_TX) (ucast c) s)"

definition serial_init :: "devices \<Rightarrow> console \<Rightarrow> console" where
  "serial_init d s =
     (let s = outb (COM1 + COM_FCR) 0 s;
          s = outb (COM1 + COM_LCR) COM_LCR_DLAB s;
          s = outb (COM1 + COM_DLL) (of_int (115200 div 9600)) s;
          s = outb (COM1 + COM_DLM) 0 s;
          s = outb (COM1 + COM_LCR) (COM_LCR_WLEN8 AND NOT COM_LCR_DLAB) s;
          s = outb (COM1 + COM_MCR) 0 s;
          s = outb (COM1 + COM_IER) COM_IER_RDI s;
          (v, s) = inb d (COM1 + COM_LSR) s;
          s = s\<lparr>serial_exists := (v \<noteq> 0xFF)\<rparr>;
          (_, s) = inb d (COM1 + COM_IIR) s;
          (_, s) = inb d (COM1 + COM_RX) s
      in s)"

subsection \<open>Parallel port\<close>

function lpt_wait :: "devices \<Rightarrow> nat \<Rightarrow> console \<Rightarrow> console" where
  "lpt_wait d i s =
     (let (v, s) = inb d (0x378 + 1) s in
      if v AND 0x80 = 0 \<and> i < 12800 then lpt_wait d (i + 1) (delay d s) else s)"
  by auto
termination by (relation "measure (\<lambda>(d, i, s). 12800 - i)") auto

declare lpt_wait.simps [simp del]

definition lpt_putc :: "devices \<Rightarrow> u32 \<Rightarrow> console \<Rightarrow> console" where
  "lpt_putc d c s =
     (let s = lpt_wait d 0 s;
          s = outb (0x378 + 0) (ucast c) s;
          s = outb (0x378 + 2) (0x08 OR 0x04 OR 0x01) s
      in outb (0x378 + 2) 0x08 s)"

subsection \<open>Screen\<close>

text \<open>
  A 16-bit access to the CGA window: memory when the adapter is there, and otherwise a write
  is lost and a read returns what the bus holds.
\<close>

definition cga_read :: "devices \<Rightarrow> u32 \<Rightarrow> console \<Rightarrow> u16" where
  "cga_read d cp s = (case dev_cga d of None \<Rightarrow> ld16 (m_mem s) cp | Some v \<Rightarrow> v)"

definition cga_write :: "devices \<Rightarrow> u32 \<Rightarrow> u16 \<Rightarrow> console \<Rightarrow> console" where
  "cga_write d cp w s = (case dev_cga d of None \<Rightarrow> s\<lparr>m_mem := st16 (m_mem s) cp w\<rparr> | Some v \<Rightarrow> s)"

definition cga_init :: "devices \<Rightarrow> console \<Rightarrow> console" where
  "cga_init d s =
     (let cp = KERNBASE + CGA_BUF;
          was = cga_read d cp s;
          s = cga_write d cp 0xA55A s;
          (cp, s) =
            (if cga_read d cp s \<noteq> 0xA55A
             then (KERNBASE + MONO_BUF, s\<lparr>addr_6845 := MONO_BASE\<rparr>)
             else (cp, (cga_write d cp was s)\<lparr>addr_6845 := CGA_BASE\<rparr>));
          s = outb (addr_6845 s) 14 s;
          (hi, s) = inb d (addr_6845 s + 1) s;
          pos = push_bit 8 (ucast hi :: u32);
          s = outb (addr_6845 s) 15 s;
          (lo, s) = inb d (addr_6845 s + 1) s;
          pos = pos OR ucast lo
      in s\<lparr>crt_buf := cp, crt_pos := ucast pos\<rparr>)"

definition crt_write :: "nat \<Rightarrow> u16 \<Rightarrow> console \<Rightarrow> console" where
  "crt_write i v s = s\<lparr>m_mem := st16 (m_mem s) (crt_buf s + 2 * of_nat i) v\<rparr>"

definition blank_cells :: "nat \<Rightarrow> nat \<Rightarrow> console \<Rightarrow> console" where
  "blank_cells i j s = fold (\<lambda>k. crt_write k (0x0700 OR 32)) [i..<j] s"

definition cga_scroll :: "console \<Rightarrow> console" where
  "cga_scroll s =
     (if unat (crt_pos s) \<ge> CRT_SIZE then
        let s = s\<lparr>m_mem := memmove (m_mem s) (crt_buf s) (crt_buf s + 2 * of_nat CRT_COLS)
                     (of_nat ((CRT_SIZE - CRT_COLS) * 2))\<rparr>;
            s = blank_cells (CRT_SIZE - CRT_COLS) CRT_SIZE s
        in s\<lparr>crt_pos := crt_pos s - of_nat CRT_COLS\<rparr>
      else s)"

definition cga_cursor :: "console \<Rightarrow> console" where
  "cga_cursor s =
     (let s = outb (addr_6845 s) 14 s;
          s = outb (addr_6845 s + 1) (ucast (drop_bit 8 (crt_pos s))) s;
          s = outb (addr_6845 s) 15 s
      in outb (addr_6845 s + 1) (ucast (crt_pos s)) s)"

lemma attr_low [simp]: "(if c AND - 256 = 0 then c OR 1792 else c) AND 255 = (c :: u32) AND 255"
  by (simp add: bit.conj_disj_distrib2)

function cga_putc :: "devices \<Rightarrow> u32 \<Rightarrow> console \<Rightarrow> console"
  and cons_putc :: "devices \<Rightarrow> u32 \<Rightarrow> console \<Rightarrow> console" where
  "cga_putc d c s =
     (let c = (if c AND NOT 0xFF = 0 then c OR 0x0700 else c);
          s = (if c AND 0xFF = 8 then
                 if crt_pos s > 0 then
                   let s = s\<lparr>crt_pos := crt_pos s - 1\<rparr>
                   in crt_write (unat (crt_pos s)) (ucast ((c AND NOT 0xFF) OR 32)) s
                 else s
               else if c AND 0xFF = 10 then
                 let s = s\<lparr>crt_pos := crt_pos s + of_nat CRT_COLS\<rparr>
                 in s\<lparr>crt_pos := crt_pos s - crt_pos s mod of_nat CRT_COLS\<rparr>
               else if c AND 0xFF = 13 then
                 s\<lparr>crt_pos := crt_pos s - crt_pos s mod of_nat CRT_COLS\<rparr>
               else if c AND 0xFF = 9 then
                 let s = cons_putc d 32 s;
                     s = cons_putc d 32 s;
                     s = cons_putc d 32 s;
                     s = cons_putc d 32 s
                 in cons_putc d 32 s
               else
                 (crt_write (unat (crt_pos s)) (ucast c) s)\<lparr>crt_pos := crt_pos s + 1\<rparr>);
          s = cga_scroll s
      in cga_cursor s)"
| "cons_putc d c s =
     (let s = serial_putc d c s;
          s = lpt_putc d c s
      in cga_putc d c s)"
  by pat_completeness auto
termination
  by (relation "measure (case_sum (\<lambda>(d, c, s). if c AND 0xFF = 9 then 2 else 0)
    (\<lambda>(d, c, s). if c AND 0xFF = 9 then 3 else 1))") simp_all

declare cga_putc.simps [simp del] cons_putc.simps [simp del]

definition cputchar :: "devices \<Rightarrow> u32 \<Rightarrow> console \<Rightarrow> console" where
  "cputchar d c s = cons_putc d c s"

section \<open>What the screen memory shows\<close>

definition screen_cells :: "mem \<Rightarrow> u32 \<Rightarrow> nat \<Rightarrow> u16 list" where
  "screen_cells m b n = map (\<lambda>i. ld16 m (b + 2 * of_nat i)) [0..<n]"

lemma length_screen_cells [simp]: "length (screen_cells m b n) = n"
  by (simp add: screen_cells_def)

lemma nth_screen_cells [simp]: "i < n \<Longrightarrow> screen_cells m b n ! i = ld16 m (b + 2 * of_nat i)"
  by (simp add: screen_cells_def)

lemma ld16_st16_same: "ld16 (st16 m a w) a = w"
proof -
  have "ucast (ucast w :: u8) OR push_bit 8 (ucast (ucast (drop_bit 8 w) :: u8)) = w"
    by (rule bit_word_eqI) (auto simp: bit_simps)
  then show ?thesis by (simp add: ld16_def st16_def)
qed

lemma cell_addr_eq:
  "i < 1073741824 \<Longrightarrow> j < 1073741824 \<Longrightarrow> p < 2 \<Longrightarrow> q < 2 \<Longrightarrow>
   ((b :: u32) + 2 * of_nat i + of_nat p = b + 2 * of_nat j + of_nat q) = (i = j \<and> p = q)"
proof -
  assume a: "i < 1073741824" "j < 1073741824" "p < 2" "q < 2"
  have "(b + 2 * of_nat i + of_nat p = b + 2 * of_nat j + of_nat q) =
      ((of_nat (2 * i + p) :: u32) = of_nat (2 * j + q))" by (simp add: add.assoc)
  also have "\<dots> = (2 * i + p = 2 * j + q)" using a by (simp add: word_unat_eq_iff unat_of_nat del: of_nat_add of_nat_mult)
  also have "\<dots> = (i = j \<and> p = q)" using a by presburger
  finally show ?thesis .
qed

lemma ld16_st16:
  assumes "i < 1073741824" "j < 1073741824"
  shows "ld16 (st16 m (b + 2 * of_nat i) v) (b + 2 * of_nat j) =
    (if i = j then v else ld16 m (b + 2 * of_nat j))"
proof (cases "i = j")
  case False
  have ne: "b + 2 * of_nat j + of_nat p \<noteq> b + 2 * of_nat i + of_nat q" if "p < 2" "q < 2" for p q
    using cell_addr_eq [OF assms(2,1) that, of b] False by simp
  show ?thesis
    using False ne [of 0 0] ne [of 0 1] ne [of 1 0] ne [of 1 1] by (simp add: ld16_def st16_def)
qed (simp add: ld16_st16_same)

lemma screen_cells_st16:
  assumes "i < 1073741824" "n < 1073741824"
  shows "screen_cells (st16 m (b + 2 * of_nat i) v) b n = (screen_cells m b n)[i := v]"
  using assms by (intro nth_equalityI) (auto simp: ld16_st16 nth_list_update)

lemma in_region_cell:
  assumes "p < 2" "2 * i + p < 4294967296"
  shows "in_region b n (b + 2 * of_nat i + of_nat p) \<longleftrightarrow> 2 * i + p < n"
  using in_region_offset [OF assms(2), of b n] by (simp add: add.assoc)

lemma st16_outside:
  assumes "2 * i + 1 < n" "n < 4294967296" "\<not> in_region b n a"
  shows "st16 m (b + 2 * of_nat i) v a = m a"
  using assms in_region_cell [of 0 i b n] in_region_cell [of 1 i b n] by (auto simp: st16_def)

lemma screen_cells_copy:
  assumes "k \<le> n" "n < 1073741824"
  shows "screen_cells (copy_region m b (b + 2 * of_nat k) (2 * (n - k))) b n =
    drop k (screen_cells m b n) @ drop (n - k) (screen_cells m b n)"
proof (rule nth_equalityI)
  fix i
  assume "i < length (screen_cells (copy_region m b (b + 2 * of_nat k) (2 * (n - k))) b n)"
  then have i: "i < n" by simp
  have r: "copy_region m b (b + 2 * of_nat k) (2 * (n - k)) (b + 2 * of_nat i + of_nat p) =
      (if i < n - k then m (b + 2 * of_nat (k + i) + of_nat p) else m (b + 2 * of_nat i + of_nat p))"
    if "p < 2" for p
    using in_region_cell [OF that, of i b "2 * (n - k)"] i assms that
    by (auto simp: copy_region_def algebra_simps)
  have "ld16 (copy_region m b (b + 2 * of_nat k) (2 * (n - k))) (b + 2 * of_nat i) =
      (if i < n - k then ld16 m (b + 2 * of_nat (k + i)) else ld16 m (b + 2 * of_nat i))"
    using r [of 0] r [of 1] by (simp add: ld16_def)
  then show "screen_cells (copy_region m b (b + 2 * of_nat k) (2 * (n - k))) b n ! i =
      (drop k (screen_cells m b n) @ drop (n - k) (screen_cells m b n)) ! i"
    using i assms by (auto simp: nth_append)
qed (use assms in simp)

section \<open>What the ports carry\<close>

text \<open>The bytes written to a port, oldest first.\<close>

fun port_out :: "u16 \<Rightarrow> io_event list \<Rightarrow> u8 list" where
  "port_out p [] = []"
| "port_out p (OutB q v # es) = port_out p es @ (if q = p then [v] else [])"
| "port_out p (_ # es) = port_out p es"

text \<open>The number of bytes read from a port.\<close>

fun port_in :: "u16 \<Rightarrow> io_event list \<Rightarrow> nat" where
  "port_in p [] = 0"
| "port_in p (InB q v # es) = port_in p es + (if q = p then 1 else 0)"
| "port_in p (_ # es) = port_in p es"

text \<open>
  The status ports that output polls, and a step that reads none but these, writes no port
  and changes nothing but the history.
\<close>

definition status_ports :: "u16 set" where
  "status_ports = {0x84, 0x3FD, 0x379}"

definition reads_only :: "console \<Rightarrow> console \<Rightarrow> bool" where
  "reads_only s s' \<longleftrightarrow> (\<exists>io. s' = s\<lparr>m_io := io\<rparr> \<and> (\<forall>p. port_out p io = port_out p (m_io s))
     \<and> (\<forall>p. p \<notin> status_ports \<longrightarrow> port_in p io = port_in p (m_io s)))"

lemma reads_only_refl [intro]: "reads_only s s"
  unfolding reads_only_def by (rule exI [of _ "m_io s"]) simp

lemma reads_only_trans: "reads_only s t \<Longrightarrow> reads_only t u \<Longrightarrow> reads_only s u"
  by (auto simp: reads_only_def)

lemma reads_only_inb: "ucast p \<in> status_ports \<Longrightarrow> reads_only s (snd (inb d p s))"
  unfolding reads_only_def inb_def Let_def log_io_def by auto

lemma reads_only_delay: "reads_only s (delay d s)"
  unfolding delay_def Let_def split_beta
  by (intro reads_only_trans [OF reads_only_inb reads_only_trans [OF reads_only_inb
        reads_only_trans [OF reads_only_inb reads_only_inb]]]) (simp_all add: status_ports_def)

lemma reads_only_serial_wait: "reads_only s (serial_wait d i s)"
proof (induction d i s rule: serial_wait.induct)
  case (1 d i s)
  have r: "reads_only s (snd (inb d (COM1 + COM_LSR) s))"
    by (rule reads_only_inb) (simp add: status_ports_def com_defs)
  show ?case
  proof (cases "fst (inb d (COM1 + COM_LSR) s) AND COM_LSR_TXRDY = 0 \<and> i < 12800")
    case True
    then have "reads_only (delay d (snd (inb d (COM1 + COM_LSR) s))) (serial_wait d i s)"
      using 1 [OF refl prod.collapse] by (subst serial_wait.simps) (simp add: split_beta)
    with r show ?thesis by (blast intro: reads_only_trans reads_only_delay)
  next
    case False
    then have "serial_wait d i s = snd (inb d (COM1 + COM_LSR) s)"
      by (subst serial_wait.simps) (auto simp: split_beta)
    with r show ?thesis by simp
  qed
qed

lemma reads_only_lpt_wait: "reads_only s (lpt_wait d i s)"
proof (induction d i s rule: lpt_wait.induct)
  case (1 d i s)
  have r: "reads_only s (snd (inb d (0x378 + 1) s))"
    by (rule reads_only_inb) (simp add: status_ports_def com_defs)
  show ?case
  proof (cases "fst (inb d (0x378 + 1) s) AND 0x80 = 0 \<and> i < 12800")
    case True
    then have "reads_only (delay d (snd (inb d (0x378 + 1) s))) (lpt_wait d i s)"
      using 1 [OF refl prod.collapse] by (subst lpt_wait.simps) (simp add: split_beta)
    with r show ?thesis by (blast intro: reads_only_trans reads_only_delay)
  next
    case False
    then have "lpt_wait d i s = snd (inb d (0x378 + 1) s)"
      by (subst lpt_wait.simps) (auto simp: split_beta)
    with r show ?thesis by simp
  qed
qed

text \<open>Sending a character on both ports leaves the rest of the console as it was.\<close>

lemma ports_frame:
  obtains io where "lpt_putc d c (serial_putc d c s) = s\<lparr>m_io := io\<rparr>"
    and "port_out 0x3F8 io = port_out 0x3F8 (m_io s) @ [ucast c]"
    and "port_out 0x378 io = port_out 0x378 (m_io s) @ [ucast c]"
    and "\<And>p. p \<notin> status_ports \<Longrightarrow> port_in p io = port_in p (m_io s)"
proof -
  obtain i where i: "serial_wait d 0 s = s\<lparr>m_io := i\<rparr>" "\<And>p. port_out p i = port_out p (m_io s)"
    "\<And>p. p \<notin> status_ports \<Longrightarrow> port_in p i = port_in p (m_io s)"
    using reads_only_serial_wait [of s d 0] by (auto simp: reads_only_def)
  let ?u = "s\<lparr>m_io := OutB 0x3F8 (ucast c) # i\<rparr>"
  obtain j where j: "lpt_wait d 0 ?u = ?u\<lparr>m_io := j\<rparr>" "\<And>p. port_out p j = port_out p (m_io ?u)"
    "\<And>p. p \<notin> status_ports \<Longrightarrow> port_in p j = port_in p (m_io ?u)"
    using reads_only_lpt_wait [of ?u d 0] by (auto simp: reads_only_def)
  have "serial_putc d c s = ?u" by (simp add: serial_putc_def i outb_def log_io_def com_defs)
  with i j show ?thesis
    by (intro that [of "OutB 0x37A 0x08 # OutB 0x37A 0x0D # OutB 0x378 (ucast c) # j"])
      (simp_all add: lpt_putc_def outb_def log_io_def)
qed

section \<open>The abstract screen\<close>

record screen =
  cells :: "u16 list"
  cursor :: nat

definition scroll_screen :: "screen \<Rightarrow> screen" where
  "scroll_screen sc =
     (if 2000 \<le> cursor sc
      then \<lparr>cells = drop 80 (cells sc) @ replicate 80 0x0720, cursor = cursor sc - 80\<rparr> else sc)"

text \<open>The attribute of a character without one is grey on black.\<close>

definition with_attr :: "u32 \<Rightarrow> u32" where
  "with_attr c = (if c AND NOT 0xFF = 0 then c OR 0x0700 else c)"

definition screen_char :: "u32 \<Rightarrow> screen \<Rightarrow> screen" where
  "screen_char c sc =
     (let n = cursor sc in scroll_screen
       (if c AND 0xFF = 8 then
          if n = 0 then sc
          else \<lparr>cells = (cells sc)[n - 1 := ucast ((with_attr c AND NOT 0xFF) OR 32)], cursor = n - 1\<rparr>
        else if c AND 0xFF = 10 then sc\<lparr>cursor := (n div 80 + 1) * 80\<rparr>
        else if c AND 0xFF = 13 then sc\<lparr>cursor := n div 80 * 80\<rparr>
        else \<lparr>cells = (cells sc)[n := ucast (with_attr c)], cursor = n + 1\<rparr>))"

definition screen_putc :: "u32 \<Rightarrow> screen \<Rightarrow> screen" where
  "screen_putc c sc = (if c AND 0xFF = 9 then fold screen_char (replicate 5 32) sc else screen_char c sc)"

definition screen_of :: "console \<Rightarrow> screen" where
  "screen_of s = \<lparr>cells = screen_cells (m_mem s) (crt_buf s) CRT_SIZE, cursor = unat (crt_pos s)\<rparr>"

text \<open>The invariant of the output half, and the part of the memory that it may change.\<close>

definition crt_ok :: "u32 \<Rightarrow> console \<Rightarrow> bool" where
  "crt_ok b s \<longleftrightarrow> crt_buf s = b \<and> unat b + 4000 < 4294967296
     \<and> addr_6845 s \<in> {MONO_BASE, CGA_BASE} \<and> unat (crt_pos s) < CRT_SIZE"

text \<open>The effect of one step on the screen memory.\<close>

definition screen_step :: "u32 \<Rightarrow> mem \<Rightarrow> mem \<Rightarrow> bool" where
  "screen_step b m m' \<longleftrightarrow> (\<forall>a. \<not> in_region b 4000 a \<longrightarrow> m' a = m a)"

lemma screen_step_refl [simp]: "screen_step b m m"
  by (simp add: screen_step_def)

lemma screen_step_trans: "screen_step b m m' \<Longrightarrow> screen_step b m' m'' \<Longrightarrow> screen_step b m m''"
  by (simp add: screen_step_def)

lemma screen_step_st16: "i < 2000 \<Longrightarrow> screen_step b m (st16 m (b + 2 * of_nat i) v)"
  using st16_outside [of i 4000 b _ m v] by (simp add: screen_step_def)

lemma blank_cells_effect:
  assumes "i \<le> j" "j \<le> 2000"
  obtains m' where "blank_cells i j s = s\<lparr>m_mem := m'\<rparr>" "screen_step (crt_buf s) (m_mem s) m'"
    and "screen_cells m' (crt_buf s) 2000 =
      (let cs = screen_cells (m_mem s) (crt_buf s) 2000 in take i cs @ replicate (j - i) 0x0720 @ drop j cs)"
  using assms
proof (induction "j - i" arbitrary: j thesis)
  case 0
  then show ?case by (intro "0.prems"(1) [of "m_mem s"]) (simp_all add: blank_cells_def)
next
  case (Suc n)
  define k where "k = j - 1"
  have j: "j = Suc k" "i \<le> k" "n = k - i" using Suc.hyps(2) unfolding k_def by linarith+
  obtain m' where m': "blank_cells i k s = s\<lparr>m_mem := m'\<rparr>" "screen_step (crt_buf s) (m_mem s) m'"
    "screen_cells m' (crt_buf s) 2000 = (let cs = screen_cells (m_mem s) (crt_buf s) 2000 in
       take i cs @ replicate (k - i) 0x0720 @ drop k cs)"
    using Suc.hyps(1) [OF j(3)] j Suc.prems by auto
  let ?cs = "screen_cells (m_mem s) (crt_buf s) 2000"
  let ?m = "st16 m' (crt_buf s + 2 * of_nat k) 0x0720"
  have "(take i ?cs @ replicate (k - i) 0x0720 @ drop k ?cs)[k := 0x0720] =
      take i ?cs @ replicate (Suc k - i) 0x0720 @ drop (Suc k) ?cs"
    using j Suc.prems(3) by (intro nth_equalityI) (auto simp: nth_append nth_list_update)
  then have "screen_cells ?m (crt_buf s) 2000 =
      take i ?cs @ replicate (j - i) 0x0720 @ drop j ?cs"
    using j Suc.prems(3) m'(3) by (subst screen_cells_st16) (simp_all add: Let_def)
  moreover have "blank_cells i j s = s\<lparr>m_mem := ?m\<rparr>"
    using m'(1) j by (simp add: blank_cells_def crt_write_def)
  moreover have "screen_step (crt_buf s) (m_mem s) ?m"
    using m'(2) j Suc.prems(3) by (intro screen_step_trans [OF m'(2)] screen_step_st16) simp
  ultimately show ?case using Suc.prems(1) by (simp add: Let_def)
qed

text \<open>Scrolling: all rows move up by one, and the last one is blank.\<close>

lemma cga_scroll_effect:
  assumes "unat (crt_buf s) + 4000 < 4294967296"
  obtains m' p' where "cga_scroll s = s\<lparr>m_mem := m', crt_pos := p'\<rparr>"
    and "screen_step (crt_buf s) (m_mem s) m'"
    and "\<lparr>cells = screen_cells m' (crt_buf s) CRT_SIZE, cursor = unat p'\<rparr> = scroll_screen (screen_of s)"
proof (cases "unat (crt_pos s) \<ge> 2000")
  case False
  then show ?thesis
    by (intro that [where m' = "m_mem s" and p' = "crt_pos s"]) (simp_all add: cga_scroll_def scroll_screen_def screen_of_def crt_defs)
next
  case True
  let ?b = "crt_buf s" and ?n = "2000 :: nat"
  let ?cs = "screen_cells (m_mem s) ?b ?n"
  let ?m1 = "copy_region (m_mem s) ?b (?b + 160) 3840"
  have u: "unat (?b + 160) = unat ?b + 160" using assms by (subst unat_word_ariths) simp
  have mv: "memmove (m_mem s) ?b (?b + 160) 3840 = ?m1"
    using assms u by (subst memmove_region) simp_all
  have st1: "screen_step ?b (m_mem s) ?m1"
    by (auto simp: screen_step_def copy_region_def dest: in_region_mono [of _ 3840 _ 4000])
  have c1: "screen_cells ?m1 ?b ?n = drop 80 ?cs @ drop 1920 ?cs"
    using screen_cells_copy [of 80 ?n "m_mem s" ?b] by simp
  obtain m' where m': "blank_cells 1920 2000 (s\<lparr>m_mem := ?m1\<rparr>) = s\<lparr>m_mem := m'\<rparr>"
      "screen_step ?b ?m1 m'" "screen_cells m' ?b ?n = take 1920 (drop 80 ?cs @ drop 1920 ?cs) @ replicate 80 0x0720"
    using blank_cells_effect [of 1920 2000 "s\<lparr>m_mem := ?m1\<rparr>"] c1 by (auto simp: Let_def)
  have "cga_scroll s = s\<lparr>m_mem := m', crt_pos := crt_pos s - 80\<rparr>"
    using True m'(1) mv by (simp add: cga_scroll_def crt_defs)
  moreover have "unat (crt_pos s - 80) = unat (crt_pos s) - 80"
    using True by (subst unat_sub) (simp_all add: word_le_nat_alt)
  ultimately show ?thesis
    using True m' st1 by (intro that [where m' = m' and p' = "crt_pos s - 80"])
      (auto simp: scroll_screen_def screen_of_def crt_defs intro: screen_step_trans)
qed

text \<open>The switch on the character, for any character but the tabulator.\<close>

definition crt_step :: "u32 \<Rightarrow> console \<Rightarrow> console" where
  "crt_step c s =
     (if c AND 0xFF = 8 then
        if crt_pos s > 0 then crt_write (unat (crt_pos s - 1)) (ucast ((with_attr c AND NOT 0xFF) OR 32))
            (s\<lparr>crt_pos := crt_pos s - 1\<rparr>)
        else s
      else if c AND 0xFF = 10 then
        s\<lparr>crt_pos := (crt_pos s + 80) - (crt_pos s + 80) mod 80\<rparr>
      else if c AND 0xFF = 13 then s\<lparr>crt_pos := crt_pos s - crt_pos s mod 80\<rparr>
      else (crt_write (unat (crt_pos s)) (ucast (with_attr c)) s)\<lparr>crt_pos := crt_pos s + 1\<rparr>)"

lemma cga_putc_step: "c AND 0xFF \<noteq> 9 \<Longrightarrow> cga_putc d c s = cga_cursor (cga_scroll (crt_step c s))"
  by (subst cga_putc.simps) (simp add: crt_step_def with_attr_def Let_def crt_defs)

lemma unat_line:
  assumes "unat (p :: u16) < 65536 - 80"
  shows "unat (p + 80 - (p + 80) mod 80) = (unat p div 80 + 1) * 80" "unat (p - p mod 80) = unat p div 80 * 80"
proof -
  have *: "unat (q - q mod 80) = unat q div 80 * 80" for q :: u16
    by (subst unat_sub) (simp_all add: word_le_nat_alt unat_mod minus_mod_eq_div_mult)
  have "unat (p + 80) = unat p + 80" using assms by (subst unat_word_ariths) simp
  moreover have "(unat p + 80) div 80 = unat p div 80 + 1" by presburger
  ultimately show "unat (p + 80 - (p + 80) mod 80) = (unat p div 80 + 1) * 80" by (simp add: *)
  show "unat (p - p mod 80) = unat p div 80 * 80" by (rule *)
qed

lemma crt_step_effect:
  assumes "crt_ok b s"
  obtains m' p' where "crt_step c s = s\<lparr>m_mem := m', crt_pos := p'\<rparr>" "screen_step b (m_mem s) m'"
    and "scroll_screen \<lparr>cells = screen_cells m' b CRT_SIZE, cursor = unat p'\<rparr> = screen_char c (screen_of s)"
proof -
  have b: "crt_buf s = b" and p: "unat (crt_pos s) < 2000" using assms by (simp_all add: crt_ok_def crt_defs)
  consider (bs) "c AND 0xFF = 8" "crt_pos s > 0" | (bs0) "c AND 0xFF = 8" "\<not> crt_pos s > 0"
    | (nl) "c AND 0xFF = 10" | (cr) "c AND 0xFF = 13" | (char) "c AND 0xFF \<notin> {8, 10, 13}" by blast
  then show ?thesis
  proof cases
    case bs
    let ?v = "ucast ((with_attr c AND NOT 0xFF) OR 32) :: u16"
    have u: "unat (crt_pos s - 1) = unat (crt_pos s) - 1" and nz: "crt_pos s \<noteq> 0"
      using bs(2) by (auto simp: unat_minus_one)
    show ?thesis
      using bs b p u nz screen_cells_st16 [of "unat (crt_pos s) - 1" 2000 "m_mem s" b ?v]
      by (intro that [where p' = "crt_pos s - 1" and m' = "st16 (m_mem s) (b + 2 * of_nat (unat (crt_pos s) - 1)) ?v"])
        (auto simp: crt_step_def crt_write_def screen_char_def screen_of_def crt_defs Let_def unat_eq_zero
          intro!: screen_step_st16)
  next
    case bs0
    then have "crt_pos s = 0" by (simp add: word_gt_0)
    with bs0 b show ?thesis
      by (intro that [where p' = "crt_pos s" and m' = "m_mem s"])
        (simp_all add: crt_step_def screen_char_def screen_of_def Let_def)
  next
    case nl
    then show ?thesis using b p unat_line(1) [of "crt_pos s"]
      by (intro that [where p' = "crt_pos s + 80 - (crt_pos s + 80) mod 80" and m' = "m_mem s"])
        (simp_all add: crt_step_def screen_char_def screen_of_def Let_def)
  next
    case cr
    then show ?thesis using b p unat_line(2) [of "crt_pos s"]
      by (intro that [where p' = "crt_pos s - crt_pos s mod 80" and m' = "m_mem s"])
        (simp_all add: crt_step_def screen_char_def screen_of_def Let_def)
  next
    case char
    let ?v = "ucast (with_attr c) :: u16"
    have u: "unat (crt_pos s + 1) = unat (crt_pos s) + 1" using p by (subst unat_word_ariths) simp
    show ?thesis
      using char b p u screen_cells_st16 [of "unat (crt_pos s)" 2000 "m_mem s" b ?v]
        screen_step_st16 [of "unat (crt_pos s)" b "m_mem s" ?v]
      by (intro that [where p' = "crt_pos s + 1" and m' = "st16 (m_mem s) (b + 2 * of_nat (unat (crt_pos s))) ?v"])
        (simp_all add: crt_step_def crt_write_def screen_char_def screen_of_def crt_defs Let_def)
  qed
qed

lemma screen_char_cursor: "cursor sc < 2000 \<Longrightarrow> cursor (screen_char c sc) < 2000"
proof -
  assume c: "cursor sc < 2000"
  then have "cursor sc div 80 < 25" by (intro less_mult_imp_div_less) simp
  moreover have "cursor sc div 80 * 80 \<le> cursor sc" by simp
  ultimately show ?thesis using c by (auto simp: screen_char_def scroll_screen_def Let_def)
qed

text \<open>
  One step of the console: the screen becomes \<open>sc\<close>, the bytes \<open>out\<close> go to the serial and
  to the parallel port, and nothing else changes.
\<close>

definition emits :: "u32 \<Rightarrow> console \<Rightarrow> u8 list \<Rightarrow> screen \<Rightarrow> console \<Rightarrow> bool" where
  "emits b s out sc s' \<longleftrightarrow>
     (\<exists>m' p' io. s' = s\<lparr>m_mem := m', crt_pos := p', m_io := io\<rparr> \<and> screen_step b (m_mem s) m')
     \<and> crt_ok b s' \<and> screen_of s' = sc
     \<and> port_out 0x3F8 (m_io s') = port_out 0x3F8 (m_io s) @ out
     \<and> port_out 0x378 (m_io s') = port_out 0x378 (m_io s) @ out
     \<and> (\<forall>p. p \<notin> status_ports \<longrightarrow> port_in p (m_io s') = port_in p (m_io s))"

lemma emitsI:
  assumes "s' = s\<lparr>m_mem := m', crt_pos := p', m_io := io\<rparr>" "screen_step b (m_mem s) m'" "crt_ok b s'"
    and "screen_of s' = sc" "port_out 0x3F8 io = port_out 0x3F8 (m_io s) @ out"
    and "port_out 0x378 io = port_out 0x378 (m_io s) @ out"
    and "\<And>p. p \<notin> status_ports \<Longrightarrow> port_in p io = port_in p (m_io s)"
  shows "emits b s out sc s'"
  using assms unfolding emits_def by auto

lemma emits_trans:
  assumes "emits b s out sc s'" "emits b s' out' sc' s''"
  shows "emits b s (out @ out') sc' s''"
proof -
  obtain m1 p1 i1 where 1: "s' = s\<lparr>m_mem := m1, crt_pos := p1, m_io := i1\<rparr>" "screen_step b (m_mem s) m1"
    using assms(1) by (auto simp: emits_def)
  obtain m2 p2 i2 where 2: "s'' = s'\<lparr>m_mem := m2, crt_pos := p2, m_io := i2\<rparr>" "screen_step b (m_mem s') m2"
    using assms(2) by (auto simp: emits_def)
  show ?thesis
  proof (rule emitsI)
    show "s'' = s\<lparr>m_mem := m2, crt_pos := p2, m_io := i2\<rparr>" using 1 2 by simp
    show "screen_step b (m_mem s) m2" using 1 2 by (auto intro: screen_step_trans)
  qed (use assms 1 2 in \<open>auto simp: emits_def\<close>)
qed

lemma emits_cga_putc:
  assumes "crt_ok b s" "c AND 0xFF \<noteq> 9"
  shows "emits b s [] (screen_char c (screen_of s)) (cga_putc d c s)"
proof -
  have b: "crt_buf s = b" "unat b + 4000 < 4294967296" using assms(1) by (simp_all add: crt_ok_def)
  obtain m1 p1 where s1: "crt_step c s = s\<lparr>m_mem := m1, crt_pos := p1\<rparr>" "screen_step b (m_mem s) m1"
    "scroll_screen \<lparr>cells = screen_cells m1 b CRT_SIZE, cursor = unat p1\<rparr> = screen_char c (screen_of s)"
    using crt_step_effect [OF assms(1)] .
  have "unat (crt_buf (crt_step c s)) + 4000 < 4294967296" using b by (simp add: s1(1))
  then obtain m2 p2 where t: "cga_scroll (crt_step c s) = (crt_step c s)\<lparr>m_mem := m2, crt_pos := p2\<rparr>"
    "screen_step (crt_buf (crt_step c s)) (m_mem (crt_step c s)) m2"
    "\<lparr>cells = screen_cells m2 (crt_buf (crt_step c s)) CRT_SIZE, cursor = unat p2\<rparr> =
     scroll_screen (screen_of (crt_step c s))"
    by (rule cga_scroll_effect)
  have s2: "cga_scroll (crt_step c s) = s\<lparr>m_mem := m2, crt_pos := p2\<rparr>" "screen_step b m1 m2"
    "\<lparr>cells = screen_cells m2 b CRT_SIZE, cursor = unat p2\<rparr> = screen_char c (screen_of s)"
    using t b s1(3) by (simp_all add: s1(1) screen_of_def)
  have "cursor (screen_char c (screen_of s)) < 2000"
    using assms(1) by (intro screen_char_cursor) (simp add: screen_of_def crt_ok_def crt_defs)
  then have p2: "unat p2 < CRT_SIZE" by (simp add: crt_defs flip: s2(3))
  let ?a = "addr_6845 s"
  let ?io = "OutB (ucast (?a + 1)) (ucast p2) # OutB (ucast ?a) 15 # OutB (ucast (?a + 1)) (ucast (drop_bit 8 p2)) #
    OutB (ucast ?a) 14 # m_io s"
  have e: "cga_putc d c s = s\<lparr>m_mem := m2, crt_pos := p2, m_io := ?io\<rparr>"
    by (simp add: cga_putc_step [OF assms(2)] s2(1) cga_cursor_def Let_def outb_def log_io_def)
  have "?a \<in> {MONO_BASE, CGA_BASE}" using assms(1) by (simp add: crt_ok_def)
  then have io: "port_out 0x3F8 ?io = port_out 0x3F8 (m_io s)" "port_out 0x378 ?io = port_out 0x378 (m_io s)"
    by (auto simp: MONO_BASE_def CGA_BASE_def)
  from e screen_step_trans [OF s1(2) s2(2)] show ?thesis
    by (rule emitsI) (use assms(1) b p2 s2(3) io in \<open>simp_all add: e screen_of_def crt_ok_def\<close>)
qed

lemma emits_ports: "crt_ok b s \<Longrightarrow> emits b s [ucast c] (screen_of s) (lpt_putc d c (serial_putc d c s))"
proof -
  assume "crt_ok b s"
  obtain io where io: "lpt_putc d c (serial_putc d c s) = s\<lparr>m_io := io\<rparr>"
    "port_out 0x3F8 io = port_out 0x3F8 (m_io s) @ [ucast c]"
    "port_out 0x378 io = port_out 0x378 (m_io s) @ [ucast c]"
    "\<And>p. p \<notin> status_ports \<Longrightarrow> port_in p io = port_in p (m_io s)" by (rule ports_frame) blast
  with \<open>crt_ok b s\<close> show ?thesis
    by (intro emitsI [where m' = "m_mem s" and p' = "crt_pos s" and io = io])
      (simp_all add: crt_ok_def screen_of_def)
qed

text \<open>The bytes a character puts on the ports: the tabulator is followed by its five blanks.\<close>

definition cons_bytes :: "u32 \<Rightarrow> u8 list" where
  "cons_bytes c = ucast c # (if c AND 0xFF = 9 then replicate 5 32 else [])"

lemma emits_crt_ok: "emits b s out sc s' \<Longrightarrow> crt_ok b s'"
  and emits_screen: "emits b s out sc s' \<Longrightarrow> screen_of s' = sc"
  by (simp_all add: emits_def)

lemma emits_cons_putc_char:
  assumes "crt_ok b s" "c AND 0xFF \<noteq> 9"
  shows "emits b s [ucast c] (screen_char c (screen_of s)) (cons_putc d c s)"
proof -
  note p = emits_ports [OF assms(1), of c d]
  note q = emits_cga_putc [OF emits_crt_ok [OF p] assms(2), of d]
  show ?thesis
    using emits_trans [OF p q] by (simp add: cons_putc.simps emits_screen [OF p])
qed

lemma emits_blanks:
  assumes "crt_ok b s"
  shows "emits b s (replicate n 32) ((screen_char 32 ^^ n) (screen_of s)) ((cons_putc d 32 ^^ n) s)"
proof (induction n)
  case 0
  show ?case using assms by (intro emitsI [where m' = "m_mem s" and p' = "crt_pos s" and io = "m_io s"]) simp_all
next
  case (Suc n)
  have "emits b ((cons_putc d 32 ^^ n) s) [32] (screen_char 32 (screen_of ((cons_putc d 32 ^^ n) s)))
      (cons_putc d 32 ((cons_putc d 32 ^^ n) s))"
    using emits_cons_putc_char [OF emits_crt_ok [OF Suc], of 32 d] by simp
  from emits_trans [OF Suc this] show ?case
    by (simp add: emits_screen [OF Suc] replicate_append_same)
qed

lemma funpow_5: "(f ^^ 5) x = f (f (f (f (f x))))"
  by (simp add: numeral_eq_Suc)

lemma cga_putc_tab:
  assumes "c AND 0xFF = 9"
  shows "cga_putc d c s = cga_cursor (cga_scroll ((cons_putc d 32 ^^ 5) s))"
  using assms by (subst cga_putc.simps) (simp add: Let_def funpow_5)

lemma emits_cursor: "crt_ok b s \<Longrightarrow> emits b s [] (screen_of s) (cga_cursor (cga_scroll s))"
proof -
  assume ok: "crt_ok b s"
  then have a: "addr_6845 s \<in> {MONO_BASE, CGA_BASE}" and "cga_scroll s = s"
    by (simp_all add: crt_ok_def cga_scroll_def)
  let ?io = "m_io (cga_cursor s)"
  have "cga_cursor (cga_scroll s) = s\<lparr>m_mem := m_mem s, crt_pos := crt_pos s, m_io := ?io\<rparr>"
    by (simp add: \<open>cga_scroll s = s\<close> cga_cursor_def Let_def outb_def log_io_def)
  then show ?thesis
    by (rule emitsI) (use a ok in \<open>auto simp: \<open>cga_scroll s = s\<close> cga_cursor_def Let_def crt_ok_def screen_of_def
        outb_def log_io_def MONO_BASE_def CGA_BASE_def\<close>)
qed

lemma emits_cons_putc:
  assumes "crt_ok b s"
  shows "emits b s (cons_bytes c) (screen_putc c (screen_of s)) (cons_putc d c s)"
proof (cases "c AND 0xFF = 9")
  case False
  with assms show ?thesis
    using emits_cons_putc_char by (simp add: cons_bytes_def screen_putc_def)
next
  case True
  note p = emits_ports [OF assms, of c d]
  note q = emits_blanks [OF emits_crt_ok [OF p], of 5 d]
  note r = emits_cursor [OF emits_crt_ok [OF q]]
  have "cons_putc d c s = cga_cursor (cga_scroll ((cons_putc d 32 ^^ 5) (lpt_putc d c (serial_putc d c s))))"
    using True by (simp add: cons_putc.simps [of d c] cga_putc_tab)
  with emits_trans [OF emits_trans [OF p q] r] show ?thesis
    by (simp only: cons_bytes_def screen_putc_def True if_True emits_screen [OF p] emits_screen [OF q]
        append_Nil2 append_Cons append_Nil fold_replicate simp_thms)
qed

text \<open>A sequence of characters.\<close>

lemma emits_fold:
  assumes "crt_ok b s"
  shows "emits b s (concat (map cons_bytes cs)) (fold screen_putc cs (screen_of s)) (fold (cputchar d) cs s)"
  using assms
proof (induction cs arbitrary: s)
  case Nil
  then show ?case by (intro emitsI [where m' = "m_mem s" and p' = "crt_pos s" and io = "m_io s"]) simp_all
next
  case (Cons c cs)
  note p = emits_cons_putc [OF Cons.prems, of c d]
  show ?case
    using emits_trans [OF p Cons.IH [OF emits_crt_ok [OF p]]] by (simp add: cputchar_def emits_screen [OF p])
qed

section \<open>Finding the screen\<close>

lemma st16_ld16: "st16 m a (ld16 m a) = m"
proof -
  have "ucast (ucast x OR push_bit 8 (ucast y :: u16)) = x"
    and "ucast (drop_bit 8 (ucast x OR push_bit 8 (ucast y :: u16))) = y" for x y :: u8
    by (rule bit_word_eqI; auto simp: bit_simps dest: bit_imp_le_length)+
  then show ?thesis by (simp add: st16_def ld16_def)
qed

lemma st16_st16: "st16 (st16 m a v) a w = st16 m a w"
  by (simp add: st16_def fun_eq_iff)

text \<open>
  \<^verbatim>\<open>cga_init\<close> probes for the adapter, leaves the memory as it found it, and takes the cursor
  from the hardware. The 6845 is asked by writing the register number first.
\<close>

definition hw_cursor :: "devices \<Rightarrow> u32 \<Rightarrow> io_event list \<Rightarrow> nat" where
  "hw_cursor d a io =
     (let hi = dev_inb d (OutB (ucast a) 14 # io) (ucast (a + 1));
          lo = dev_inb d (OutB (ucast a) 15 # InB (ucast (a + 1)) hi # OutB (ucast a) 14 # io) (ucast (a + 1))
      in unat hi * 256 + unat lo)"

lemma unat_ucast_u8_u16: "unat (ucast (x :: u8) :: u16) = unat x"
proof -
  have "unat x < 2 ^ 8" using unsigned_less [of x, where ?'a = nat] by simp
  then have "unat x < 2 ^ 16" by simp
  then show ?thesis by (simp add: unsigned_ucast_eq take_bit_nat_eq_self)
qed

lemma unat_bytes16: "unat (ucast (push_bit 8 (ucast hi :: u32) OR ucast (lo :: u8)) :: u16) = unat (hi :: u8) * 256 + unat lo"
proof -
  have "(ucast (push_bit 8 (ucast hi :: u32) OR ucast lo) :: u16) = push_bit 8 (ucast hi) OR ucast lo"
    by (rule bit_word_eqI) (auto simp: bit_simps)
  also have "\<dots> = push_bit 8 (ucast hi) + ucast lo"
    by (rule disjunctive_add [symmetric]) (auto simp: bit_simps dest: bit_imp_le_length)
  finally show ?thesis
    using unsigned_less [of hi, where ?'a = nat] unsigned_less [of lo, where ?'a = nat]
    by (simp add: push_bit_eq_mult unat_word_ariths unat_ucast_u8_u16)
qed

lemma cga_init_effect:
  assumes "a = (if dev_cga d \<in> {None, Some 0xA55A} then CGA_BASE else MONO_BASE)"
    and "b = (if dev_cga d \<in> {None, Some 0xA55A} then KERNBASE + CGA_BUF else KERNBASE + MONO_BUF)"
  shows "crt_buf (cga_init d s) = b" "addr_6845 (cga_init d s) = a" "m_mem (cga_init d s) = m_mem s"
    "unat (crt_pos (cga_init d s)) = hw_cursor d a (m_io s)"
proof -
  have w: "cga_write d p w s = s \<and> cga_read d p s = v" if "dev_cga d = Some v" for p w v s
    using that by (simp add: cga_write_def cga_read_def)
  show "crt_buf (cga_init d s) = b" "addr_6845 (cga_init d s) = a" "m_mem (cga_init d s) = m_mem s"
    "unat (crt_pos (cga_init d s)) = hw_cursor d a (m_io s)"
    using assms w
    by (cases "dev_cga d"; simp add: cga_init_def cga_read_def cga_write_def Let_def split_beta
        ld16_st16_same st16_st16 st16_ld16 inb_def outb_def log_io_def unat_bytes16 hw_cursor_def)+
qed

section \<open>Properties\<close>

text \<open>A concrete machine: both ports are always ready, the screen is blank.\<close>

definition ready_devices :: devices where
  "ready_devices = \<lparr>dev_inb = (\<lambda>io p. if p = 0x3FD then 0x20 else if p = 0x379 then 0x80 else 0),
     dev_inw = (\<lambda>io p. 0), dev_inl = (\<lambda>io p. 0), dev_cga = None,
     dev_cpuid = (\<lambda>i. (0, 0, 0, 0)), dev_tsc = (\<lambda>io. 0)\<rparr>"

definition blank_console :: console where
  "blank_console = \<lparr>m_mem = (\<lambda>_. 0), m_io = [], m_cr0 = 0, m_cr2 = 0, m_cr3 = 0, m_cr4 = 0, m_eflags = 0,
     m_ebp = 0, m_esp = 0, serial_exists = True, addr_6845 = CGA_BASE, crt_buf = KERNBASE + CGA_BUF, crt_pos = 0,
     kbd_shift = 0, cons_buf = replicate 512 0, cons_rpos = 0, cons_wpos = 0\<rparr>"

lemma blank_simps [simp]:
  "m_mem blank_console = (\<lambda>_. 0)" "m_io blank_console = []" "addr_6845 blank_console = CGA_BASE"
  "crt_buf blank_console = KERNBASE + CGA_BUF" "crt_pos blank_console = 0" "serial_exists blank_console"
  "cons_buf blank_console = replicate 512 0" "cons_rpos blank_console = 0" "cons_wpos blank_console = 0"
  "kbd_shift blank_console = 0"
  by (simp_all add: blank_console_def)

lemma crt_ok_blank: "crt_ok (KERNBASE + CGA_BUF) blank_console"
  by (simp add: crt_ok_def KERNBASE_def CGA_BUF_def crt_defs)

text \<open>
  (C9) \<^verbatim>\<open>cons_putc\<close> refines the abstract screen: from a state where the cursor is on the
  screen, the cells and the cursor after it, scrolling included, are those of the abstract
  operation, the cursor is on the screen again, and no memory outside the screen has changed.
\<close>

theorem cons_putc_refines:
  assumes "crt_ok b s"
  shows "screen_of (cons_putc d c s) = screen_putc c (screen_of s) \<and> crt_ok b (cons_putc d c s)
    \<and> (\<forall>a. \<not> in_region b 4000 a \<longrightarrow> m_mem (cons_putc d c s) a = m_mem s a)"
  using emits_cons_putc [OF assms, of c d] by (auto simp: emits_def screen_step_def)

theorem cons_putc_refines_witness:
  "screen_of (cons_putc ready_devices 65 blank_console) = screen_putc 65 (screen_of blank_console)
   \<and> cursor (screen_of (cons_putc ready_devices 65 blank_console)) = 1"
  using cons_putc_refines [OF crt_ok_blank, of ready_devices 65]
  by (simp add: screen_putc_def screen_char_def scroll_screen_def screen_of_def)

text \<open>
  (C16) Whatever the devices answer, \<^verbatim>\<open>cons_putc\<close> ends and sends its character on the serial
  and on the parallel port, once each, and for a tabulator five blanks after it.
\<close>

theorem cons_putc_ports:
  assumes "crt_ok b s"
  shows "port_out 0x3F8 (m_io (cons_putc d c s)) = port_out 0x3F8 (m_io s) @ cons_bytes c
    \<and> port_out 0x378 (m_io (cons_putc d c s)) = port_out 0x378 (m_io s) @ cons_bytes c"
  using emits_cons_putc [OF assms, of c d] by (simp add: emits_def)

theorem cons_putc_ports_witness:
  "port_out 0x3F8 (m_io (cons_putc ready_devices 9 blank_console)) = 9 # replicate 5 32"
  using cons_putc_ports [OF crt_ok_blank, of ready_devices 9]
  by (simp add: cons_bytes_def)

text \<open>
  (C23) \<^verbatim>\<open>cga_init\<close> finds the adapter that is there, restores the word it probed with, and
  establishes the invariant of the screen when the hardware's cursor is on it.
\<close>

theorem cga_init_establishes:
  assumes "a = (if dev_cga d \<in> {None, Some 0xA55A} then CGA_BASE else MONO_BASE)"
    and "b = (if dev_cga d \<in> {None, Some 0xA55A} then KERNBASE + CGA_BUF else KERNBASE + MONO_BUF)"
    and "hw_cursor d a (m_io s) < CRT_SIZE"
  shows "crt_ok b (cga_init d s) \<and> m_mem (cga_init d s) = m_mem s
    \<and> unat (crt_pos (cga_init d s)) = hw_cursor d a (m_io s)"
proof -
  have "unat b + 4000 < 4294967296" using assms(2) by (simp add: KERNBASE_def CGA_BUF_def MONO_BUF_def)
  then show ?thesis
    using cga_init_effect [OF assms(1,2), of s] assms(1,3) by (auto simp: crt_ok_def)
qed

theorem cga_init_establishes_witness:
  "crt_ok (KERNBASE + CGA_BUF) (cga_init ready_devices blank_console) \<and>
   m_mem (cga_init ready_devices blank_console) = (\<lambda>_. 0)"
  using cga_init_establishes [of CGA_BASE ready_devices "KERNBASE + CGA_BUF" blank_console]
  by (simp add: ready_devices_def hw_cursor_def CGA_BASE_def crt_defs Let_def)

end
