(* ===== verification/JosCprintf.thy ===== *)
theory JosCprintf
  imports JosConsole JosPrinter JosCallback
begin

text \<open>
  \<^verbatim>\<open>src/kern/printf.c\<close>: formatted output on the console. The console is an instance of
  the printer interface of \<open>JosPrinter\<close>, with the memory outside the screen as what a format
  and its arguments may lie in.
\<close>

section \<open>The model\<close>

text \<open>
  The callback's state is the console and the counter its second argument points to. The
  expression \<^verbatim>\<open>*cnt++\<close> advances the local pointer and leaves the counter.
\<close>

definition putch :: "devices \<Rightarrow> u32 \<Rightarrow> console \<times> int \<Rightarrow> console \<times> int" where
  "putch d ch = (\<lambda>(s, cnt). (cputchar d ch s, cnt))"

definition vcprintf :: "devices \<Rightarrow> cptr \<Rightarrow> slot list \<Rightarrow> console \<Rightarrow> (int \<times> console) option" where
  "vcprintf d fmt ap s =
     do { (s, cnt) \<leftarrow> vprintfmt (putch d) (\<lambda>(s, cnt). m_mem s) fmt ap (s, 0);
          Some (cnt, s) }"

definition cprintf :: "devices \<Rightarrow> cptr \<Rightarrow> slot list \<Rightarrow> console \<Rightarrow> (int \<times> console) option" where
  "cprintf d fmt ap s = vcprintf d fmt ap s"

section \<open>Formatted output reaches the ports and the screen\<close>

lemma crt_ok_cputchar: "crt_ok b s \<Longrightarrow> crt_ok b (cputchar d c s)"
  unfolding cputchar_def by (rule emits_crt_ok [OF emits_cons_putc])

lemma mem_cputchar: "crt_ok b s \<Longrightarrow> \<not> in_region b 4000 a \<Longrightarrow> m_mem (cputchar d c s) a = m_mem s a"
  using emits_cons_putc [of b s c d] by (auto simp: emits_def cputchar_def screen_step_def)

interpretation con: printer "putch d" "\<lambda>(s, cnt). m_mem s" "\<lambda>(s, cnt). crt_ok b s" "\<lambda>a. \<not> in_region b 4000 a"
  for d b
  by unfold_locales (auto simp: putch_def crt_ok_cputchar mem_cputchar)

lemma fold_putch: "fold (putch d) cs (s, n) = (fold (cputchar d) cs s, n)"
  by (induction cs arbitrary: s) (simp_all add: putch_def)

lemma cprintf_run:
  assumes "render f xs = Some out" "crt_ok b s"
    and "readable_str (m_mem s) (\<lambda>a. \<not> in_region b 4000 a) fmt f"
    and "args_ok (m_mem s) (\<lambda>a. \<not> in_region b 4000 a) ap xs"
  shows "cprintf d fmt ap s = Some (0, fold (cputchar d) out s)"
proof -
  have "vprintfmt (putch d) (\<lambda>(s, cnt). m_mem s) fmt ap (s, 0) = Some (fold (putch d) out (s, 0))"
    unfolding vprintfmt_def by (rule con.vprintfmt_loop_render [OF assms(1), where b = b]) (use assms in simp_all)
  then show ?thesis by (simp add: cprintf_def vcprintf_def fold_putch)
qed

text \<open>The same for a format that is a string literal of the source.\<close>

lemma cprintf_lit:
  assumes "render (bytes l) xs = Some out" "crt_ok b s" "CHR 0x00 \<notin> set l" "length l < 4294967296"
    and "args_ok (m_mem s) (\<lambda>a. \<not> in_region b 4000 a) ap xs"
  shows "cprintf d (Lit l 0) ap s = Some (0, fold (cputchar d) out s)"
  using assms readable_str_Lit by (intro cprintf_run) auto

lemma cprintf_text:
  assumes "crt_ok b s" "CHR 0x00 \<notin> set l" "37 \<notin> set (bytes l)" "length l < 4294967296"
  shows "cprintf d (Lit l 0) [] s = Some (0, fold (cputchar d) (map ucast (bytes l)) s)"
  using assms by (intro cprintf_lit [where xs = "[]"] render_plain) auto

text \<open>Whatever the format, \<^verbatim>\<open>cprintf\<close> prints some characters and returns 0.\<close>

lemma cprintf_calls:
  assumes "cprintf d fmt ap s = Some (r, t)"
  shows "r = 0 \<and> (\<exists>out. t = fold (cputchar d) out s)"
proof -
  have p: "vprintfmt (putch d) (\<lambda>(s, cnt). m_mem s) fmt ap (s, 0) = Some (t, r)"
    using assms by (auto simp: cprintf_def vcprintf_def bind_eq_Some_conv)
  then obtain out where "(t, r) = fold (putch d) out (s, 0)" by (rule vprintfmt_calls)
  then show ?thesis by (auto simp: fold_putch)
qed

section \<open>Properties\<close>

text \<open>
  (C3) \<^verbatim>\<open>cprintf\<close> with a format and arguments that have a meaning returns, and the rendered
  characters have then gone, in order, to the serial port, to the parallel port and to the
  screen. Its result is 0, not the number of characters.
\<close>

theorem cprintf_correct:
  assumes "render f xs = Some out" "crt_ok b s"
    and "readable_str (m_mem s) (\<lambda>a. \<not> in_region b 4000 a) fmt f"
    and "args_ok (m_mem s) (\<lambda>a. \<not> in_region b 4000 a) ap xs"
  shows "\<exists>s'. cprintf d fmt ap s = Some (0, s') \<and> crt_ok b s'
    \<and> screen_of s' = fold screen_putc out (screen_of s)
    \<and> port_out 0x3F8 (m_io s') = port_out 0x3F8 (m_io s) @ concat (map cons_bytes out)
    \<and> port_out 0x378 (m_io s') = port_out 0x378 (m_io s) @ concat (map cons_bytes out)"
  using cprintf_run [OF assms] emits_fold [OF assms(2), of out d] by (auto simp: emits_def)

theorem cprintf_correct_witness:
  "\<exists>s'. cprintf ready_devices (Lit ''%d/%x'' 0) [Word 10, Word 255] blank_console = Some (0, s')
    \<and> port_out 0x3F8 (m_io s') = bytes ''10/ff''"
proof -
  have "render (bytes ''%d/%x'') [SInt 10, SInt 255] = Some (map ucast (bytes ''10/ff''))" by code_simp
  from cprintf_correct [OF this crt_ok_blank, of "Lit ''%d/%x'' 0" "[Word 10, Word 255]" ready_devices]
  have "\<exists>s'. cprintf ready_devices (Lit ''%d/%x'' 0) [Word 10, Word 255] blank_console = Some (0, s')
    \<and> port_out 0x3F8 (m_io s') = port_out 0x3F8 (m_io blank_console) @ concat (map cons_bytes (map ucast (bytes ''10/ff'')))"
    by (auto simp: readable_str_Lit)
  then show ?thesis by (simp add: bytes_def cons_bytes_def)
qed

text \<open>
  (C17) Whatever the format and the arguments, malformed ones included, \<^verbatim>\<open>cprintf\<close> does nothing but
  print: when it returns, the screen is still well-formed, memory outside it is unchanged, and
  the screen and the two ports have received the same sequence of characters.
\<close>

theorem cprintf_safe:
  assumes "crt_ok b s" "cprintf d fmt ap s = Some (r, t)"
  shows "r = 0 \<and> crt_ok b t \<and> (\<forall>a. \<not> in_region b 4000 a \<longrightarrow> m_mem t a = m_mem s a)
    \<and> (\<exists>out. screen_of t = fold screen_putc out (screen_of s)
       \<and> port_out 0x3F8 (m_io t) = port_out 0x3F8 (m_io s) @ concat (map cons_bytes out)
       \<and> port_out 0x378 (m_io t) = port_out 0x378 (m_io s) @ concat (map cons_bytes out))"
proof -
  obtain out where t: "t = fold (cputchar d) out s" "r = 0" using cprintf_calls [OF assms(2)] by blast
  show ?thesis using emits_fold [OF assms(1), of out d] unfolding t emits_def screen_step_def by auto
qed

theorem cprintf_safe_witness:
  "\<exists>t. cprintf ready_devices (Lit ''%y'' 0) [] blank_console = Some (0, t) \<and> crt_ok (KERNBASE + CGA_BUF) t"
proof -
  have "\<exists>t. vprintfmt_loop pr None (Lit ''%y'' 0) [] s = Some t" for pr :: "(console \<times> int) out_dev" and s
    by (subst vprintfmt_loop.simps, simp, subst vprintfmt_loop.simps, simp add: fmt_switch_def is_digit_def init_flags_def,
      subst rewind_fmt.simps, simp, subst vprintfmt_loop.simps, simp, subst vprintfmt_loop.simps, simp)
  then obtain p where "vprintfmt (putch ready_devices) (\<lambda>(s, cnt). m_mem s) (Lit ''%y'' 0) [] (blank_console, 0) = Some p"
    unfolding vprintfmt_def by blast
  then obtain r t where t: "cprintf ready_devices (Lit ''%y'' 0) [] blank_console = Some (r, t)"
    by (cases p) (simp add: cprintf_def vcprintf_def)
  then show ?thesis using cprintf_safe [OF crt_ok_blank t] by auto
qed

end
