(* ===== verification/JosRender.thy ===== *)
theory JosRender
  imports JosCprintf
begin

text \<open>
  The meaning of a format, conversion by conversion: rules for \<open>render\<close> on text followed by
  one of the conversions that the kernel uses, so that the meaning of a whole format is computed by
  rewriting, for arguments that are variables. They are collected in \<open>render_steps\<close>.
\<close>

named_theorems render_steps

section \<open>Conversions\<close>

lemma render_text: "37 \<notin> set f \<Longrightarrow> render (f @ cs) xs = map_option (\<lambda>r. map ucast f @ r) (render cs xs)"
proof (induction f)
  case Nil
  then show ?case by (cases "render cs xs") simp_all
next
  case (Cons c f)
  then show ?case by (cases "render cs xs") (simp_all add: render.simps)
qed

lemma render_nil [render_steps]: "render [] xs = Some []"
  by (simp add: render.simps)

lemma render_char [render_steps]: "c \<noteq> 37 \<Longrightarrow> render (c # cs) xs = map_option (\<lambda>r. ucast c # r) (render cs xs)"
  by (simp add: render.simps)

text \<open>\<^verbatim>\<open>%s\<close>, \<^verbatim>\<open>%d\<close>, \<^verbatim>\<open>%08x\<close>, \<^verbatim>\<open>%o\<close> and \<^verbatim>\<open>%.*s\<close>.\<close>

definition plain_str :: "u8 list \<Rightarrow> u32 list" where
  "plain_str bs = map (show_char False) bs"

definition dec :: "u32 \<Rightarrow> u32 list" where
  "dec w = (if sint w < 0 then 45 # map hexchar (digits 10 (nat (- sint w))) else map hexchar (digits 10 (nat (sint w))))"

definition hex8 :: "u32 \<Rightarrow> u32 list" where
  "hex8 w = (let ds = digits 16 (unat w) in replicate (8 - length ds) 48 @ map hexchar ds)"

definition cut_str :: "u32 \<Rightarrow> u8 list \<Rightarrow> u32 list" where
  "cut_str n bs = plain_str (if sint n < 0 then bs else take (nat (sint n)) bs)"

lemma render_s [render_steps]:
  "render (37 # 115 # cs) (SStr bs # xs) = map_option (\<lambda>r. plain_str bs @ r) (render cs xs)"
  by (simp add: render.simps parse_esc.simps is_digit_def convert_def show_string_def init_flags_def plain_str_def)

lemma sint_scast_u64: "sint (scast (w :: u32) :: u64) = sint w"
  by (rule sint_up_scast) (simp add: is_up)

lemma unat_of_int_u64: "0 \<le> z \<Longrightarrow> z \<le> 2147483648 \<Longrightarrow> unat (word_of_int z :: u64) = nat z"
  by (simp add: unsigned_of_int take_bit_int_eq_self)

lemma unat_scast_u64:
  "0 \<le> sint w \<Longrightarrow> unat (scast (w :: u32) :: u64) = nat (sint w)"
  "sint w < 0 \<Longrightarrow> unat (- (scast (w :: u32) :: u64)) = nat (- sint w)"
proof -
  have s: "scast w = (word_of_int (sint w) :: u64)" "- scast w = (word_of_int (- sint w) :: u64)"
    by (rule scast_eq) (simp only: scast_eq of_int_minus)
  show "0 \<le> sint w \<Longrightarrow> unat (scast w :: u64) = nat (sint w)"
    unfolding s(1) by (intro unat_of_int_u64) (use sint_u32_range [of w] in linarith)+
  show "sint w < 0 \<Longrightarrow> unat (- (scast w :: u64)) = nat (- sint w)"
    unfolding s(2) by (intro unat_of_int_u64) (use sint_u32_range [of w] in linarith)+
qed

lemma render_d [render_steps]:
  "render (37 # 100 # cs) (SInt w # xs) = map_option (\<lambda>r. dec w @ r) (render cs xs)"
proof -
  have "convert init_flags 100 (SInt w # xs) = Some (Some (dec w, xs))"
    by (simp add: convert_def init_flags_def sarg_num_def show_number_def dec_def sint_scast_u64 unat_scast_u64)
  then show ?thesis by (simp add: render.simps parse_esc.simps is_digit_def)
qed

lemma render_x8 [render_steps]:
  "render (37 # 48 # 56 # 120 # cs) (SInt w # xs) = map_option (\<lambda>r. hex8 w @ r) (render cs xs)"
proof -
  have "convert (init_flags\<lparr>padc := 48, width := 8\<rparr>) 120 (SInt w # xs) = Some (Some (hex8 w, xs))"
    by (simp add: convert_def init_flags_def sarg_num_def show_number_def hex8_def unat_ucast_u32_u64 Let_def nat_diff_distrib)
  moreover have "process_precision (init_flags\<lparr>padc := 48\<rparr>) (wrap32 8) = init_flags\<lparr>padc := 48, width := 8\<rparr>"
    by (simp add: process_precision_def init_flags_def wrap32_id)
  ultimately show ?thesis by (simp add: render.simps parse_esc.simps is_digit_def)
qed

definition oct :: "u32 \<Rightarrow> u32 list" where
  "oct w = map hexchar (digits 8 (unat w))"

lemma render_o [render_steps]:
  "render (37 # 111 # cs) (SInt w # xs) = map_option (\<lambda>r. oct w @ r) (render cs xs)"
proof -
  have "convert init_flags 111 (SInt w # xs) = Some (Some (oct w, xs))"
    by (simp add: convert_def init_flags_def sarg_num_def show_number_def oct_def unat_ucast_u32_u64)
  then show ?thesis by (simp add: render.simps parse_esc.simps is_digit_def)
qed

lemma render_x [render_steps]:
  "render (37 # 120 # cs) (SInt w # xs) = map_option (\<lambda>r. map hexchar (digits 16 (unat w)) @ r) (render cs xs)"
proof -
  have "convert init_flags 120 (SInt w # xs) = Some (Some (map hexchar (digits 16 (unat w)), xs))"
    by (simp add: convert_def init_flags_def sarg_num_def show_number_def unat_ucast_u32_u64)
  then show ?thesis by (simp add: render.simps parse_esc.simps is_digit_def)
qed

lemma render_ps [render_steps]:
  "render (37 # 46 # 42 # 115 # cs) (SInt n # SStr bs # xs) = map_option (\<lambda>r. cut_str n bs @ r) (render cs xs)"
  by (simp add: render.simps parse_esc.simps is_digit_def convert_def show_string_def init_flags_def cut_str_def
      plain_str_def process_precision_def)

end
