(* ===== verification/JosInput.thy ===== *)
theory JosInput
  imports JosCprintf
begin

text \<open>
  The input half of \<^verbatim>\<open>src/kern/console.c\<close>: the keyboard driver with its scan code tables
  and its shift state, the serial receiver, the circular buffer of 512 bytes that the interrupt
  routines fill and \<^verbatim>\<open>cons_getc\<close> empties, and the initialisation of the console.

  The circular buffer is shown to be a bounded first-in first-out queue, through the interface
  \<open>bounded_queue\<close>; the keyboard driver to be a state machine that never leaves its seven shift
  bits and that always ends the interrupt routine's loop when its device has no data.
\<close>

section \<open>The keyboard\<close>

definition KBSTATP :: u32 where "KBSTATP = 0x64"
definition KBS_DIB :: u8 where "KBS_DIB = 0x01"
definition KBDATAP :: u32 where "KBDATAP = 0x60"

definition SHIFT :: u32 where "SHIFT = 1"
definition CTL :: u32 where "CTL = 2"
definition ALT :: u32 where "ALT = 4"
definition CAPSLOCK :: u32 where "CAPSLOCK = 8"
definition NUMLOCK :: u32 where "NUMLOCK = 16"
definition SCROLLLOCK :: u32 where "SCROLLLOCK = 32"
definition E0ESC :: u32 where "E0ESC = 64"

lemmas kbd_defs = KBSTATP_def KBS_DIB_def KBDATAP_def
lemmas shift_defs = SHIFT_def CTL_def ALT_def CAPSLOCK_def NUMLOCK_def SCROLLLOCK_def E0ESC_def

definition KEY_HOME :: u8 where "KEY_HOME = 0xE0"
definition KEY_END :: u8 where "KEY_END = 0xE1"
definition KEY_UP :: u8 where "KEY_UP = 0xE2"
definition KEY_DN :: u8 where "KEY_DN = 0xE3"
definition KEY_LF :: u8 where "KEY_LF = 0xE4"
definition KEY_RT :: u8 where "KEY_RT = 0xE5"
definition KEY_PGUP :: u8 where "KEY_PGUP = 0xE6"
definition KEY_PGDN :: u8 where "KEY_PGDN = 0xE7"
definition KEY_INS :: u8 where "KEY_INS = 0xE8"
definition KEY_DEL :: u8 where "KEY_DEL = 0xE9"

lemmas key_defs = KEY_HOME_def KEY_END_def KEY_UP_def KEY_DN_def KEY_LF_def KEY_RT_def KEY_PGUP_def
  KEY_PGDN_def KEY_INS_def KEY_DEL_def

text \<open>A table of 256 bytes: its first entries, the designated ones, and 0 elsewhere.\<close>

definition table :: "u8 list \<Rightarrow> (u8 \<times> u8) list \<Rightarrow> u8 \<Rightarrow> u8" where
  "table xs kvs i =
     (case map_of kvs i of Some v \<Rightarrow> v | None \<Rightarrow> if unat i < length xs then xs ! unat i else 0)"

definition shiftcode :: "u8 \<Rightarrow> u8" where
  "shiftcode = table [] [(0x1D, ucast CTL), (0x2A, ucast SHIFT), (0x36, ucast SHIFT), (0x38, ucast ALT),
     (0x9D, ucast CTL), (0xB8, ucast ALT)]"

definition togglecode :: "u8 \<Rightarrow> u8" where
  "togglecode = table [] [(0x3A, ucast CAPSLOCK), (0x45, ucast NUMLOCK), (0x46, ucast SCROLLLOCK)]"

definition normalmap :: "u8 \<Rightarrow> u8" where
  "normalmap = table
     ([0, 0x1B] @ bytes ''123456'' @ bytes ''7890-='' @ [8, 9] @
      bytes ''qwertyui'' @ bytes ''op[]'' @ [10, 0] @ bytes ''as'' @
      bytes ''dfghjkl;'' @ [39, 96, 0, 92] @ bytes ''zxcv'' @
      bytes ''bnm,./'' @ [0] @ bytes ''*'' @ [0] @ bytes '' '' @ [0, 0, 0, 0, 0, 0] @
      [0, 0, 0, 0, 0, 0, 0] @ bytes ''7'' @ bytes ''89-456+1'' @ bytes ''230.'' @ [0, 0, 0, 0])
     [(0xC7, KEY_HOME), (0x9C, 10), (0xB5, 47), (0xC8, KEY_UP), (0xC9, KEY_PGUP), (0xCB, KEY_LF),
      (0xCD, KEY_RT), (0xCF, KEY_END), (0xD0, KEY_DN), (0xD1, KEY_PGDN), (0xD2, KEY_INS), (0xD3, KEY_DEL)]"

definition shiftmap :: "u8 \<Rightarrow> u8" where
  "shiftmap = table
     ([0, 27] @ bytes ''!@#$%^'' @ bytes ''&*()_+'' @ [8, 9] @
      bytes ''QWERTYUI'' @ bytes ''OP{}'' @ [10, 0] @ bytes ''AS'' @
      bytes ''DFGHJKL:'' @ [34, 126, 0, 124] @ bytes ''ZXCV'' @
      bytes ''BNM<>?'' @ [0] @ bytes ''*'' @ [0] @ bytes '' '' @ [0, 0, 0, 0, 0, 0] @
      [0, 0, 0, 0, 0, 0, 0] @ bytes ''7'' @ bytes ''89-456+1'' @ bytes ''230.'' @ [0, 0, 0, 0])
     [(0xC7, KEY_HOME), (0x9C, 10), (0xB5, 47), (0xC8, KEY_UP), (0xC9, KEY_PGUP), (0xCB, KEY_LF),
      (0xCD, KEY_RT), (0xCF, KEY_END), (0xD0, KEY_DN), (0xD1, KEY_PGDN), (0xD2, KEY_INS), (0xD3, KEY_DEL)]"

definition C :: "string \<Rightarrow> u8 list" where
  "C cs = map (\<lambda>x. x - 64) (bytes cs)"

definition ctlmap :: "u8 \<Rightarrow> u8" where
  "ctlmap = table
     (replicate 16 0 @
      C ''QWERTYUI'' @ C ''OP'' @ [0, 0, 13, 0] @ C ''AS'' @
      C ''DFGHJKL'' @ [0] @ [0, 0, 0] @ [92 - 64] @ C ''ZXCV'' @
      C ''BNM'' @ [0, 0] @ C ''/'' @ [0, 0])
     [(0x97, KEY_HOME), (0xB5, 47 - 64), (0xC8, KEY_UP), (0xC9, KEY_PGUP), (0xCB, KEY_LF),
      (0xCD, KEY_RT), (0xCF, KEY_END), (0xD0, KEY_DN), (0xD1, KEY_PGDN), (0xD2, KEY_INS), (0xD3, KEY_DEL)]"

definition charcode :: "u32 \<Rightarrow> u8 \<Rightarrow> u8" where
  "charcode i = [normalmap, shiftmap, ctlmap, ctlmap] ! unat i"

text \<open>The driver's handling of one scan code: the new shift state and the character, if any.\<close>

definition caps_fold :: "u32 \<Rightarrow> u32" where
  "caps_fold c =
     (if 97 \<le> c \<and> c \<le> 122 then c + (65 - 97) else if 65 \<le> c \<and> c \<le> 90 then c + (97 - 65) else c)"

definition kbd_code :: "u32 \<Rightarrow> u8 \<Rightarrow> u32 \<times> u32" where
  "kbd_code shift data =
     (if data = 0xE0 then (shift OR E0ESC, 0)
      else if data AND 0x80 \<noteq> 0 then
        let data = (if shift AND E0ESC \<noteq> 0 then data else data AND 0x7F)
        in (shift AND NOT (ucast (shiftcode data) OR E0ESC), 0)
      else
        let (shift, data) =
              (if shift AND E0ESC \<noteq> 0 then (shift AND NOT E0ESC, data OR 0x80) else (shift, data));
            shift = shift OR ucast (shiftcode data);
            shift = shift XOR ucast (togglecode data);
            c = ucast (charcode (shift AND (CTL OR SHIFT)) data);
            c = (if shift AND CAPSLOCK \<noteq> 0 then caps_fold c else c)
        in (shift, c))"

definition kbd_proc_data :: "devices \<Rightarrow> console \<Rightarrow> (u32 \<times> console) option" where
  "kbd_proc_data d s =
     (let (st, s) = inb d KBSTATP s in
      if st AND KBS_DIB = 0 then Some (- 1, s)
      else
        let (data, s) = inb d KBDATAP s;
            pressed = \<not> (data = 0xE0 \<or> data AND 0x80 \<noteq> 0);
            (shift, c) = kbd_code (kbd_shift s) data;
            s = s\<lparr>kbd_shift := shift\<rparr>
        in if pressed \<and> NOT shift AND (CTL OR ALT) = 0 \<and> c = ucast KEY_DEL
           then do { (_, s) \<leftarrow> cprintf d (Lit (''Rebooting!'' @ [CHR 0x0A]) 0) [] s;
                     Some (c, outb 0x92 0x3 s) }
           else Some (c, s))"

definition kbd_init :: "console \<Rightarrow> console" where
  "kbd_init s = s"

section \<open>The serial receiver\<close>

definition serial_proc_data :: "devices \<Rightarrow> console \<Rightarrow> (u32 \<times> console) option" where
  "serial_proc_data d s =
     (let (st, s) = inb d (COM1 + COM_LSR) s in
      if st AND COM_LSR_DATA = 0 then Some (- 1, s)
      else let (v, s) = inb d (COM1 + COM_RX) s in Some (ucast v, s))"

section \<open>The circular buffer\<close>

definition CONSBUFSIZE :: nat where "CONSBUFSIZE = 512"

text \<open>Storing and fetching one byte; an index outside the array is an error.\<close>

definition cons_store :: "u8 \<Rightarrow> console \<Rightarrow> console option" where
  "cons_store c s =
     (if unat (cons_wpos s) < length (cons_buf s) then
        let s = s\<lparr>cons_buf := (cons_buf s)[unat (cons_wpos s) := c], cons_wpos := cons_wpos s + 1\<rparr>
        in Some (if cons_wpos s = of_nat CONSBUFSIZE then s\<lparr>cons_wpos := 0\<rparr> else s)
      else None)"

definition cons_fetch :: "console \<Rightarrow> (u8 \<times> console) option" where
  "cons_fetch s =
     (if cons_rpos s \<noteq> cons_wpos s then
        if unat (cons_rpos s) < length (cons_buf s) then
          let c = cons_buf s ! unat (cons_rpos s);
              s = s\<lparr>cons_rpos := cons_rpos s + 1\<rparr>
          in Some (c, if cons_rpos s = of_nat CONSBUFSIZE then s\<lparr>cons_rpos := 0\<rparr> else s)
        else None
      else Some (0, s))"

partial_function (option) cons_intr ::
  "(console \<Rightarrow> (u32 \<times> console) option) \<Rightarrow> console \<Rightarrow> console option" where
  "cons_intr proc s =
     do { (c, s) \<leftarrow> proc s;
          if c = - 1 then Some s
          else if c = 0 then cons_intr proc s
          else do { s \<leftarrow> cons_store (ucast c) s; cons_intr proc s } }"

declare cons_intr.simps [code]

definition serial_intr :: "devices \<Rightarrow> console \<Rightarrow> console option" where
  "serial_intr d s = (if serial_exists s then cons_intr (serial_proc_data d) s else Some s)"

definition kbd_intr :: "devices \<Rightarrow> console \<Rightarrow> console option" where
  "kbd_intr d s = cons_intr (kbd_proc_data d) s"

definition cons_getc :: "devices \<Rightarrow> console \<Rightarrow> (u32 \<times> console) option" where
  "cons_getc d s =
     do { s \<leftarrow> serial_intr d s;
          s \<leftarrow> kbd_intr d s;
          (c, s) \<leftarrow> cons_fetch s;
          Some (ucast c, s) }"

definition cons_init :: "devices \<Rightarrow> console \<Rightarrow> console option" where
  "cons_init d s =
     (let s = cga_init d s;
          s = kbd_init s;
          s = serial_init d s
      in if \<not> serial_exists s
         then do { (_, s) \<leftarrow> cprintf d (Lit (''Serial port does not exist!'' @ [CHR 0x0A]) 0) [] s; Some s }
         else Some s)"

partial_function (option) getchar :: "devices \<Rightarrow> console \<Rightarrow> (u32 \<times> console) option" where
  "getchar d s =
     do { (c, s) \<leftarrow> cons_getc d s;
          if c = 0 then getchar d s else Some (c, s) }"

declare getchar.simps [code]

definition iscons :: "int \<Rightarrow> int" where
  "iscons fdnum = 1"

section \<open>The circular buffer is a bounded queue\<close>

primrec enq_all :: "('c \<Rightarrow> 's \<Rightarrow> 's option) \<Rightarrow> 'c list \<Rightarrow> 's \<Rightarrow> 's option" where
  "enq_all enq [] s = Some s"
| "enq_all enq (c # cs) s = do { s \<leftarrow> enq c s; enq_all enq cs s }"

primrec deq_all :: "('s \<Rightarrow> ('c \<times> 's) option) \<Rightarrow> nat \<Rightarrow> 's \<Rightarrow> ('c list \<times> 's) option" where
  "deq_all deq 0 s = Some ([], s)"
| "deq_all deq (Suc n) s = do { (c, s) \<leftarrow> deq s; (cs, s) \<leftarrow> deq_all deq n s; Some (c # cs, s) }"

locale bounded_queue =
  fixes inv :: "'s \<Rightarrow> bool"
    and abs :: "'s \<Rightarrow> 'c list"
    and cap :: nat
    and enq :: "'c \<Rightarrow> 's \<Rightarrow> 's option"
    and deq :: "'s \<Rightarrow> ('c \<times> 's) option"
  assumes enq_ok: "inv s \<Longrightarrow> length (abs s) < cap \<Longrightarrow> \<exists>s'. enq c s = Some s' \<and> inv s' \<and> abs s' = abs s @ [c]"
    and deq_ok: "inv s \<Longrightarrow> abs s = c # cs \<Longrightarrow> \<exists>s'. deq s = Some (c, s') \<and> inv s' \<and> abs s' = cs"
begin

lemma enq_all_ok:
  "inv s \<Longrightarrow> length (abs s) + length cs \<le> cap \<Longrightarrow>
   \<exists>s'. enq_all enq cs s = Some s' \<and> inv s' \<and> abs s' = abs s @ cs"
proof (induction cs arbitrary: s)
  case (Cons c cs)
  then obtain t where "enq c s = Some t" "inv t" "abs t = abs s @ [c]" using enq_ok [of s c] by auto
  then show ?case using Cons.IH [of t] Cons.prems by auto
qed simp

lemma deq_all_ok:
  "inv s \<Longrightarrow> abs s = cs @ ds \<Longrightarrow> \<exists>s'. deq_all deq (length cs) s = Some (cs, s') \<and> inv s' \<and> abs s' = ds"
proof (induction cs arbitrary: s)
  case (Cons c cs)
  then obtain t where t: "deq s = Some (c, t)" "inv t" "abs t = cs @ ds" using deq_ok [of s c "cs @ ds"] by auto
  with Cons.IH [of t] show ?case by force
qed auto

text \<open>First in, first out: what was queued comes out after what was there, in order.\<close>

theorem fifo:
  assumes "inv s" "length (abs s) + length cs \<le> cap"
  shows "\<exists>t u. enq_all enq cs s = Some t \<and>
    deq_all deq (length (abs s @ cs)) t = Some (abs s @ cs, u) \<and> inv u \<and> abs u = []"
  using enq_all_ok [OF assms] deq_all_ok [of _ "abs s @ cs" "[]"] by fastforce

end

definition ring_ok :: "console \<Rightarrow> bool" where
  "ring_ok s \<longleftrightarrow> length (cons_buf s) = CONSBUFSIZE \<and> unat (cons_rpos s) < CONSBUFSIZE \<and> unat (cons_wpos s) < CONSBUFSIZE"

definition ring_slice :: "nat \<Rightarrow> nat \<Rightarrow> 'a list \<Rightarrow> 'a list" where
  "ring_slice r w xs = (if r \<le> w then take (w - r) (drop r xs) else drop r xs @ take w xs)"

definition pending :: "console \<Rightarrow> u8 list" where
  "pending s = ring_slice (unat (cons_rpos s)) (unat (cons_wpos s)) (cons_buf s)"

definition ring_next :: "nat \<Rightarrow> nat" where
  "ring_next i = (if i + 1 = CONSBUFSIZE then 0 else i + 1)"

lemma take_drop_update:
  assumes "r \<le> w" "w < length xs"
  shows "take (Suc w - r) (drop r (xs[w := c])) = take (w - r) (drop r xs) @ [c]"
  using assms by (simp add: drop_update_swap Suc_diff_le take_Suc_conv_app_nth)

lemma ring_slice_store:
  assumes "length xs = 512" "r < 512" "w < 512" "length (ring_slice r w xs) < 511"
  shows "ring_slice r (ring_next w) (xs[w := c]) = ring_slice r w xs @ [c]"
proof (cases "r \<le> w")
  case True
  note td = take_drop_update [of r w xs c]
  show ?thesis
  proof (cases "w = 511")
    case w: True
    with True assms have "0 < r" by (auto simp: ring_slice_def)
    with w True td assms show ?thesis by (simp add: ring_slice_def ring_next_def CONSBUFSIZE_def)
  next
    case False
    with True td assms show ?thesis by (simp add: ring_slice_def ring_next_def CONSBUFSIZE_def)
  qed
next
  case False
  with assms have "Suc w < r" by (auto simp: ring_slice_def)
  with False assms show ?thesis
    by (simp add: ring_slice_def ring_next_def CONSBUFSIZE_def take_Suc_conv_app_nth)
qed

lemma ring_slice_full:
  assumes "length xs = 512" "r < 512" "w < 512" "length (ring_slice r w xs) = 511"
  shows "ring_next w = r"
  using assms by (auto simp: ring_slice_def ring_next_def CONSBUFSIZE_def split: if_splits)

lemma ring_slice_fetch:
  assumes "length xs = 512" "r < 512" "w < 512" "r \<noteq> w"
  shows "ring_slice r w xs = xs ! r # ring_slice (ring_next r) w xs"
proof -
  have d: "drop r xs = xs ! r # drop (Suc r) xs" using assms by (simp add: Cons_nth_drop_Suc)
  consider "r < w" | "w < r" "r < 511" | "w < r" "r = 511" using assms by linarith
  then show ?thesis
  proof cases
    case 1
    then have "w - r = Suc (w - Suc r)" by simp
    with 1 assms d show ?thesis by (simp add: ring_slice_def ring_next_def CONSBUFSIZE_def)
  next
    case 2
    with assms d show ?thesis by (simp add: ring_slice_def ring_next_def CONSBUFSIZE_def)
  next
    case 3
    with assms d show ?thesis by (simp add: ring_slice_def ring_next_def CONSBUFSIZE_def)
  qed
qed

lemma unat_ring_next:
  assumes "unat (w :: u32) < 512"
  shows "unat (if w + 1 = of_nat CONSBUFSIZE then 0 else w + 1) = ring_next (unat w)"
proof -
  have "unat (w + 1) = unat w + 1" using assms by (subst unat_word_ariths) simp
  then show ?thesis by (auto simp: ring_next_def CONSBUFSIZE_def word_unat_eq_iff)
qed

lemma ring_next_less: "i < CONSBUFSIZE \<Longrightarrow> ring_next i < CONSBUFSIZE"
  by (simp add: ring_next_def CONSBUFSIZE_def)

lemma cons_store_effect:
  assumes "ring_ok s"
  obtains w where "cons_store c s = Some (s\<lparr>cons_buf := (cons_buf s)[unat (cons_wpos s) := c], cons_wpos := w\<rparr>)"
    and "unat w = ring_next (unat (cons_wpos s))"
proof
  let ?w = "if cons_wpos s + 1 = of_nat CONSBUFSIZE then 0 else cons_wpos s + 1"
  show "cons_store c s = Some (s\<lparr>cons_buf := (cons_buf s)[unat (cons_wpos s) := c], cons_wpos := ?w\<rparr>)"
    using assms by (simp add: cons_store_def ring_ok_def Let_def)
  show "unat ?w = ring_next (unat (cons_wpos s))"
    using assms by (intro unat_ring_next) (simp add: ring_ok_def CONSBUFSIZE_def)
qed

lemma cons_fetch_effect:
  assumes "ring_ok s" "pending s = c # cs"
  obtains r where "cons_fetch s = Some (c, s\<lparr>cons_rpos := r\<rparr>)" "unat r = ring_next (unat (cons_rpos s))"
    "ring_slice (unat r) (unat (cons_wpos s)) (cons_buf s) = cs"
proof
  let ?r = "if cons_rpos s + 1 = of_nat CONSBUFSIZE then 0 else cons_rpos s + 1"
  have ne: "unat (cons_rpos s) \<noteq> unat (cons_wpos s)"
    using assms by (auto simp: pending_def ring_slice_def)
  show u: "unat ?r = ring_next (unat (cons_rpos s))"
    using assms by (intro unat_ring_next) (simp add: ring_ok_def CONSBUFSIZE_def)
  have eq: "c # cs = cons_buf s ! unat (cons_rpos s) #
      ring_slice (ring_next (unat (cons_rpos s))) (unat (cons_wpos s)) (cons_buf s)"
    using assms ne ring_slice_fetch [of "cons_buf s"] by (simp add: pending_def ring_ok_def CONSBUFSIZE_def)
  then have c: "cons_buf s ! unat (cons_rpos s) = c" by simp
  have "cons_rpos s \<noteq> cons_wpos s" "unat (cons_rpos s) < length (cons_buf s)"
    using assms(1) ne by (auto simp: ring_ok_def)
  then show "cons_fetch s = Some (c, s\<lparr>cons_rpos := ?r\<rparr>)" by (simp add: cons_fetch_def c Let_def)
  show "ring_slice (unat ?r) (unat (cons_wpos s)) (cons_buf s) = cs" using eq u by simp
qed

interpretation ring: bounded_queue ring_ok pending 511 cons_store cons_fetch
proof
  fix s c
  assume s: "ring_ok s" and room: "length (pending s) < 511"
  obtain w where w: "cons_store c s = Some (s\<lparr>cons_buf := (cons_buf s)[unat (cons_wpos s) := c], cons_wpos := w\<rparr>)"
    "unat w = ring_next (unat (cons_wpos s))" using s by (rule cons_store_effect)
  then show "\<exists>s'. cons_store c s = Some s' \<and> ring_ok s' \<and> pending s' = pending s @ [c]"
    using s room ring_next_less ring_slice_store [of "cons_buf s"]
    by (simp add: ring_ok_def pending_def CONSBUFSIZE_def)
next
  fix s c cs
  assume s: "ring_ok s" and p: "pending s = c # cs"
  then obtain r where "cons_fetch s = Some (c, s\<lparr>cons_rpos := r\<rparr>)" "unat r = ring_next (unat (cons_rpos s))"
    "ring_slice (unat r) (unat (cons_wpos s)) (cons_buf s) = cs" by (rule cons_fetch_effect)
  then show "\<exists>s'. cons_fetch s = Some (c, s') \<and> ring_ok s' \<and> pending s' = cs"
    using s ring_next_less by (simp add: ring_ok_def pending_def)
qed

section \<open>The interrupt routine\<close>

text \<open>
  A run of the loop of \<^verbatim>\<open>cons_intr\<close> as a relation: the device routine is called until it
  has no data, and \<open>cs\<close> are the bytes stored.
\<close>

inductive feeds :: "(console \<Rightarrow> (u32 \<times> console) option) \<Rightarrow> console \<Rightarrow> u8 list \<Rightarrow> console \<Rightarrow> bool"
  for proc where
  feeds_none: "proc s = Some (- 1, t) \<Longrightarrow> feeds proc s [] t"
| feeds_zero: "proc s = Some (0, t) \<Longrightarrow> feeds proc t cs u \<Longrightarrow> feeds proc s cs u"
| feeds_byte: "proc s = Some (c, t) \<Longrightarrow> c \<noteq> 0 \<Longrightarrow> c \<noteq> - 1 \<Longrightarrow> cons_store (ucast c) t = Some v \<Longrightarrow>
    feeds proc v cs u \<Longrightarrow> feeds proc s (ucast c # cs) u"

lemma feeds_cons_intr: "feeds proc s cs u \<Longrightarrow> cons_intr proc s = Some u"
  by (induction rule: feeds.induct) (subst cons_intr.simps; simp)+

lemma cons_intr_feeds: "cons_intr proc s = Some u \<Longrightarrow> \<exists>cs. feeds proc s cs u"
proof (erule cons_intr.raw_induct [where P = "\<lambda>proc s u. \<exists>cs. feeds proc s cs u", rotated])
  fix loop :: "(console \<Rightarrow> (u32 \<times> console) option) \<Rightarrow> console \<Rightarrow> console option" and proc s u
  assume ih: "\<And>proc s u. loop proc s = Some u \<Longrightarrow> \<exists>cs. feeds proc s cs u"
    and run: "do { (c, s) \<leftarrow> proc s;
        if c = - 1 then Some s
        else if c = 0 then loop proc s
        else do { s \<leftarrow> cons_store (ucast c) s; loop proc s } } = Some u"
  then obtain c t where p: "proc s = Some (c, t)" by (auto split: bind_splits)
  consider "c = - 1" "u = t" | "c = 0" "loop proc t = Some u"
    | v where "c \<noteq> - 1" "c \<noteq> 0" "cons_store (ucast c) t = Some v" "loop proc v = Some u"
    using run p by (auto split: bind_splits if_splits)
  then show "\<exists>cs. feeds proc s cs u"
    by cases (use p ih in \<open>blast intro: feeds_none feeds_zero feeds_byte\<close>)+
qed

text \<open>A device routine that leaves the buffer alone.\<close>

definition same_ring :: "console \<Rightarrow> console \<Rightarrow> bool" where
  "same_ring s t \<longleftrightarrow> cons_buf t = cons_buf s \<and> cons_rpos t = cons_rpos s \<and> cons_wpos t = cons_wpos s"

lemma same_ring_pending: "same_ring s t \<Longrightarrow> pending t = pending s \<and> ring_ok t = ring_ok s"
  by (simp add: same_ring_def pending_def ring_ok_def)

text \<open>
  The buffer holds 511 bytes, and the next one makes it appear empty. So of any number of bytes those
  are left that come after the last full 512.
\<close>

definition survivors :: "'a list \<Rightarrow> 'a list" where
  "survivors xs = drop (512 * (length xs div 512)) xs"

lemma survivors_id: "length xs \<le> 511 \<Longrightarrow> survivors xs = xs"
  by (simp add: survivors_def)

lemma length_survivors: "length (survivors xs) = length xs mod 512"
  by (simp add: survivors_def minus_mult_div_eq_mod)

lemma survivors_append: "survivors (survivors xs @ ys) = survivors (xs @ ys)"
proof -
  let ?q = "length xs div 512"
  have le: "512 * ?q \<le> length xs" by simp
  then have e: "survivors xs @ ys = drop (512 * ?q) (xs @ ys)" by (simp add: survivors_def)
  have "length (xs @ ys) = 512 * ?q + length (survivors xs @ ys)" using le unfolding e by simp
  then have "length (xs @ ys) div 512 = ?q + length (survivors xs @ ys) div 512" by simp
  then show ?thesis unfolding survivors_def [of "xs @ ys"] unfolding survivors_def [of "survivors xs @ ys"]
    by (simp only: e drop_drop distrib_left add.commute)
qed

lemma ring_ok_pending: "ring_ok s \<Longrightarrow> length (pending s) \<le> 511"
  by (auto simp: ring_ok_def pending_def ring_slice_def CONSBUFSIZE_def)

lemma cons_store_full:
  assumes "ring_ok s" "length (pending s) = 511"
  shows "\<exists>t. cons_store c s = Some t \<and> ring_ok t \<and> pending t = []"
proof -
  obtain w where "cons_store c s = Some (s\<lparr>cons_buf := (cons_buf s)[unat (cons_wpos s) := c], cons_wpos := w\<rparr>)"
    "unat w = ring_next (unat (cons_wpos s))" using assms(1) by (rule cons_store_effect)
  moreover have "ring_next (unat (cons_wpos s)) = unat (cons_rpos s)"
    using assms by (intro ring_slice_full [of "cons_buf s"]) (simp_all add: ring_ok_def pending_def CONSBUFSIZE_def)
  ultimately show ?thesis using assms(1) by (simp add: ring_ok_def pending_def ring_slice_def)
qed

lemma cons_store_survivors:
  assumes "ring_ok s" "cons_store c s = Some t"
  shows "ring_ok t \<and> pending t = survivors (pending s @ [c])"
proof (cases "length (pending s) = 511")
  case True
  then show ?thesis using cons_store_full [OF assms(1), of c] assms(2) by (auto simp: survivors_def)
next
  case False
  then have "length (pending s) < 511" using ring_ok_pending [OF assms(1)] by linarith
  then show ?thesis using ring.enq_ok [OF assms(1), of c] assms(2) by (auto simp: survivors_id)
qed

lemma feeds_pending:
  assumes "feeds proc s cs u" "\<And>s c t. proc s = Some (c, t) \<Longrightarrow> same_ring s t" "ring_ok s"
  shows "ring_ok u \<and> pending u = survivors (pending s @ cs)"
  using assms
proof (induction rule: feeds.induct)
  case (feeds_none s t)
  then show ?case using same_ring_pending [of s t] ring_ok_pending [of s] by (simp add: survivors_id)
next
  case (feeds_zero s t cs u)
  then show ?case using same_ring_pending [of s t] by simp
next
  case (feeds_byte s c t v cs u)
  have t: "ring_ok t" "pending t = pending s"
    using feeds_byte.prems feeds_byte.hyps(1) same_ring_pending [of s t] by auto
  then have "ring_ok v" "pending v = survivors (pending s @ [ucast c])"
    using cons_store_survivors [OF t(1) feeds_byte.hyps(4)] by simp_all
  then show ?case using feeds_byte.IH feeds_byte.prems survivors_append [of "pending s @ [ucast c]" cs] by simp
qed

text \<open>Whatever the number of bytes, the positions stay inside the array.\<close>

lemma cons_store_ring_ok:
  assumes "ring_ok s" "cons_store c s = Some t"
  shows "ring_ok t"
proof -
  obtain w where "cons_store c s = Some (s\<lparr>cons_buf := (cons_buf s)[unat (cons_wpos s) := c], cons_wpos := w\<rparr>)"
    "unat w = ring_next (unat (cons_wpos s))" using assms(1) by (rule cons_store_effect)
  with assms ring_next_less [of "unat (cons_wpos s)"] show ?thesis by (auto simp: ring_ok_def)
qed

lemma feeds_ring_ok:
  assumes "feeds proc s cs u" "\<And>s c t. proc s = Some (c, t) \<Longrightarrow> same_ring s t" "ring_ok s"
  shows "ring_ok u"
  using assms
proof (induction rule: feeds.induct)
  case (feeds_byte s c t v cs u)
  then show ?case using same_ring_pending [of s t] cons_store_ring_ok [of t] by blast
next
  case (feeds_none s t)
  then show ?case using same_ring_pending [of s t] by blast
next
  case (feeds_zero s t cs u)
  then show ?case using same_ring_pending [of s t] by blast
qed

lemma same_ring_serial: "serial_proc_data d s = Some (c, t) \<Longrightarrow> same_ring s t"
  by (auto simp: serial_proc_data_def same_ring_def inb_def log_io_def Let_def split: if_splits)

section \<open>A serial line\<close>

text \<open>
  What the receiver relies on: the data bit of the line status tells whether a byte is
  waiting, and each read of the data port takes the next one. \<open>waiting\<close> are the bytes not
  yet taken.
\<close>

definition uart :: "u8 list \<Rightarrow> devices \<Rightarrow> bool" where
  "uart input d \<longleftrightarrow>
     (\<forall>io. (dev_inb d io 0x3FD AND 1 = 0) = (length input \<le> port_in 0x3F8 io)) \<and>
     (\<forall>io. port_in 0x3F8 io < length input \<longrightarrow> dev_inb d io 0x3F8 = input ! port_in 0x3F8 io)"

definition waiting :: "u8 list \<Rightarrow> console \<Rightarrow> u8 list" where
  "waiting input s = drop (port_in 0x3F8 (m_io s)) input"

definition quiet_kbd :: "devices \<Rightarrow> bool" where
  "quiet_kbd d \<longleftrightarrow> (\<forall>io. dev_inb d io 0x64 AND 1 = 0)"

text \<open>The steps of input change the buffer and the history, and write no port.\<close>

definition input_step :: "console \<Rightarrow> console \<Rightarrow> bool" where
  "input_step s u \<longleftrightarrow> (\<exists>io buf r w. u = s\<lparr>m_io := io, cons_buf := buf, cons_rpos := r, cons_wpos := w\<rparr>
     \<and> (\<forall>p. port_out p io = port_out p (m_io s)))"

lemma input_stepI:
  assumes "u = s\<lparr>m_io := m_io u, cons_buf := cons_buf u, cons_rpos := cons_rpos u, cons_wpos := cons_wpos u\<rparr>"
    and "\<And>p. port_out p (m_io u) = port_out p (m_io s)"
  shows "input_step s u"
  using assms unfolding input_step_def by blast

lemma input_step_refl: "input_step s s"
  by (rule input_stepI) simp_all

lemma input_step_trans: "input_step s t \<Longrightarrow> input_step t u \<Longrightarrow> input_step s u"
  unfolding input_step_def by (elim exE conjE) (intro exI conjI; simp)

lemma input_step_frame:
  "input_step s u \<Longrightarrow> m_mem u = m_mem s \<and> serial_exists u = serial_exists s \<and> crt_buf u = crt_buf s
     \<and> crt_pos u = crt_pos s \<and> addr_6845 u = addr_6845 s \<and> port_out p (m_io u) = port_out p (m_io s)"
  by (auto simp: input_step_def)

lemma input_step_store: "cons_store c s = Some t \<Longrightarrow> input_step s t \<and> m_io t = m_io s"
  by (auto simp: cons_store_def Let_def intro!: input_stepI split: if_splits)

lemma serial_poll_none:
  assumes "uart input d" "waiting input s = []"
  shows "\<exists>t. serial_proc_data d s = Some (- 1, t) \<and> input_step s t \<and> same_ring s t \<and> waiting input t = []"
proof -
  have "dev_inb d (m_io s) 0x3FD AND 1 = 0" using assms by (simp add: uart_def waiting_def)
  moreover have "input_step s (log_io (InB 0x3FD v) s)" for v
    by (rule input_stepI) (simp_all add: log_io_def)
  ultimately show ?thesis
    using assms(2) by (auto simp: serial_proc_data_def inb_def com_defs Let_def same_ring_def waiting_def log_io_def)
qed

lemma serial_poll_byte:
  assumes "uart input d" "waiting input s = c # cs"
  shows "\<exists>t. serial_proc_data d s = Some (ucast c, t) \<and> input_step s t \<and> same_ring s t \<and> waiting input t = cs"
proof -
  let ?n = "port_in 0x3F8 (m_io s)"
  have n: "?n < length input" and c: "input ! ?n = c" and cs: "drop (Suc ?n) input = cs"
    using assms(2) nth_via_drop [of ?n input c cs] drop_Suc [of ?n input] tl_drop [of ?n input]
    by (auto simp: waiting_def not_le [symmetric])
  have st: "dev_inb d (m_io s) 0x3FD AND 1 \<noteq> 0" using assms(1) n by (simp add: uart_def)
  let ?io = "InB 0x3FD (dev_inb d (m_io s) 0x3FD) # m_io s"
  have v: "dev_inb d ?io 0x3F8 = c" using assms(1) n c by (simp add: uart_def)
  have "input_step s (s\<lparr>m_io := InB 0x3F8 c # ?io\<rparr>)"
    by (rule input_stepI) simp_all
  then show ?thesis
    using st v cs by (auto simp: serial_proc_data_def inb_def com_defs Let_def same_ring_def waiting_def log_io_def)
qed

lemma input_step_waiting_store: "cons_store c s = Some t \<Longrightarrow> waiting input t = waiting input s"
  using input_step_store by (simp add: waiting_def)

lemma unat_ucast_u8_u32: "unat (ucast (c :: u8) :: u32) = unat c"
proof -
  have "unat c < 2 ^ 8" using unsigned_less [of c, where ?'a = nat] by simp
  then have "unat c < 2 ^ 32" by simp
  then show ?thesis by (simp add: unsigned_ucast_eq take_bit_nat_eq_self)
qed

lemma ucast_u8_u32: "(ucast (c :: u8) :: u32) = 0 \<longleftrightarrow> c = 0" "(ucast c :: u32) \<noteq> - 1" "ucast (ucast c :: u32) = c"
proof -
  show "(ucast c :: u32) = 0 \<longleftrightarrow> c = 0" by (simp add: word_unat_eq_iff unat_ucast_u8_u32)
  have "unat c < 256" using unsigned_less [of c, where ?'a = nat] by simp
  moreover have "unat (- 1 :: u32) = 4294967295" by (simp add: unsigned_minus_1_eq_mask mask_eq_exp_minus_1)
  ultimately show "(ucast c :: u32) \<noteq> - 1" unfolding word_unat_eq_iff unat_ucast_u8_u32 by linarith
  show "ucast (ucast c :: u32) = c" by (rule bit_word_eqI) (auto simp: bit_simps)
qed

text \<open>The routine takes all the bytes that wait, and stores those that are not 0.\<close>

lemma serial_feeds:
  assumes "uart input d" "ring_ok s"
  shows "\<exists>u. feeds (serial_proc_data d) s (filter (\<lambda>c. c \<noteq> 0) (waiting input s)) u
    \<and> input_step s u \<and> waiting input u = []"
  using assms(2)
proof (induction "waiting input s" arbitrary: s)
  case Nil
  then obtain t where "serial_proc_data d s = Some (- 1, t)" "input_step s t" "waiting input t = []"
    using serial_poll_none [OF assms(1), of s] by auto
  with Nil.hyps show ?case by (auto intro: feeds_none)
next
  case (Cons c cs)
  then obtain t where t: "serial_proc_data d s = Some (ucast c, t)" "input_step s t" "same_ring s t"
      "waiting input t = cs"
    using serial_poll_byte [OF assms(1), of s c cs] by auto
  have rt: "ring_ok t" using t(3) Cons.prems same_ring_pending by blast
  show ?case
  proof (cases "c = 0")
    case True
    obtain u where "feeds (serial_proc_data d) t (filter (\<lambda>c. c \<noteq> 0) cs) u" "input_step t u" "waiting input u = []"
      using Cons.hyps(1) [of t] t(4) rt by auto
    with t True Cons.hyps(2) [symmetric] show ?thesis
      by (auto intro!: exI [of _ u] intro: feeds_zero input_step_trans)
  next
    case False
    obtain v where v: "cons_store c t = Some v" using cons_store_effect [OF rt, of c] by blast
    have rv: "ring_ok v" using cons_store_ring_ok [OF rt v] .
    have wv: "waiting input v = cs" using input_step_waiting_store [OF v] t(4) by simp
    obtain u where u: "feeds (serial_proc_data d) v (filter (\<lambda>c. c \<noteq> 0) cs) u" "input_step v u" "waiting input u = []"
      using Cons.hyps(1) [of v] wv rv by auto
    have c: "(ucast c :: u32) \<noteq> 0" "(ucast c :: u32) \<noteq> - 1" "ucast (ucast c :: u32) = c"
      using False ucast_u8_u32 by simp_all
    have "feeds (serial_proc_data d) s (ucast (ucast c :: u32) # filter (\<lambda>c. c \<noteq> 0) cs) u"
      using t(1) c v u(1) by (intro feeds_byte) simp_all
    moreover have "input_step s u"
      using input_step_trans [OF input_step_trans [OF t(2) conjunct1 [OF input_step_store [OF v]]] u(2)] .
    ultimately show ?thesis using False u(3) Cons.hyps(2) [symmetric] by (auto simp: c(3))
  qed
qed

lemma kbd_poll_none: "quiet_kbd d \<Longrightarrow> \<exists>t. kbd_intr d s = Some t \<and> input_step s t \<and> same_ring s t \<and> waiting input t = waiting input s"
proof -
  assume q: "quiet_kbd d"
  let ?t = "s\<lparr>m_io := InB 0x64 (dev_inb d (m_io s) 0x64) # m_io s\<rparr>"
  have "kbd_proc_data d s = Some (- 1, ?t)"
    using q by (simp add: kbd_proc_data_def inb_def kbd_defs Let_def quiet_kbd_def log_io_def)
  then have "kbd_intr d s = Some ?t" unfolding kbd_intr_def by (blast intro: feeds_cons_intr feeds_none)
  moreover have "input_step s ?t" by (rule input_stepI) simp_all
  ultimately show ?thesis by (auto simp: same_ring_def waiting_def)
qed

text \<open>All the bytes that \<^verbatim>\<open>getchar\<close> has still to deliver.\<close>

definition available :: "u8 list \<Rightarrow> console \<Rightarrow> u8 list" where
  "available input s = pending s @ filter (\<lambda>c. c \<noteq> 0) (waiting input s)"

definition input_ok :: "u8 list \<Rightarrow> devices \<Rightarrow> console \<Rightarrow> bool" where
  "input_ok input d s \<longleftrightarrow> uart input d \<and> quiet_kbd d \<and> serial_exists s \<and> ring_ok s
     \<and> 0 \<notin> set (pending s) \<and> length (available input s) \<le> 511"

lemma line_polls:
  assumes u: "uart input d" and q: "quiet_kbd d" and e: "serial_exists s" and r: "ring_ok s"
  shows "\<exists>t u. serial_intr d s = Some t \<and> kbd_intr d t = Some u \<and> input_step s u
    \<and> ring_ok u \<and> pending u = survivors (available input s) \<and> waiting input u = []"
proof -
  obtain t where t: "feeds (serial_proc_data d) s (filter (\<lambda>c. c \<noteq> 0) (waiting input s)) t"
    "input_step s t" "waiting input t = []" using serial_feeds [OF u r] by blast
  have p: "ring_ok t \<and> pending t = survivors (available input s)"
    using feeds_pending [OF t(1) same_ring_serial r] by (simp add: available_def)
  obtain v where v: "kbd_intr d t = Some v" "input_step t v" "same_ring t v" "waiting input v = []"
    using kbd_poll_none [OF q, of t input] t(3) by auto
  have "serial_intr d s = Some t" using e feeds_cons_intr [OF t(1)] by (simp add: serial_intr_def)
  moreover have "input_step s v" using t(2) v(2) by (rule input_step_trans)
  ultimately show ?thesis using v(1,4) p same_ring_pending [OF v(3)] by auto
qed

lemma getchar_survivor:
  assumes line: "uart input d" "quiet_kbd d" "serial_exists s" "ring_ok s" "0 \<notin> set (pending s)"
    and c: "survivors (available input s) = c # cs"
  shows "\<exists>u. getchar d s = Some (ucast c, u) \<and> input_step s u \<and> input_ok input d u \<and> available input u = cs"
proof -
  obtain t v where tv: "serial_intr d s = Some t" "kbd_intr d t = Some v" "input_step s v"
    "ring_ok v" "pending v = c # cs" "waiting input v = []" using line_polls [OF line(1-4)] c by auto
  obtain r where f: "cons_fetch v = Some (c, v\<lparr>cons_rpos := r\<rparr>)"
      "ring_slice (unat r) (unat (cons_wpos v)) (cons_buf v) = cs" "unat r = ring_next (unat (cons_rpos v))"
    using cons_fetch_effect [OF tv(4,5)] by metis
  let ?u = "v\<lparr>cons_rpos := r\<rparr>"
  have a: "available input ?u = cs" using f(2) tv(6) by (simp add: available_def pending_def waiting_def)
  have r: "ring_ok ?u" using tv(4) f(3) ring_next_less by (simp add: ring_ok_def)
  have st: "input_step s ?u" using tv(3) by (rule input_step_trans) (rule input_stepI; simp)
  then have se: "serial_exists ?u = serial_exists s" using input_step_frame by blast
  have "0 \<notin> set (available input s)" using line(5) by (simp add: available_def)
  then have nz: "0 \<notin> set (c # cs)" unfolding c [symmetric] survivors_def by (blast dest: in_set_dropD)
  have p: "pending ?u = cs" using f(2) by (simp add: pending_def)
  have "length (c # cs) \<le> 511" using ring_ok_pending [OF tv(4)] by (simp add: tv(5))
  then have "input_ok input d ?u"
    using line a r se p nz by (simp add: input_ok_def del: console.update_convs)
  moreover have "(ucast c :: u32) \<noteq> 0" using nz by (simp add: ucast_u8_u32)
  then have "getchar d s = Some (ucast c, ?u)"
    by (subst getchar.simps) (simp add: cons_getc_def tv f)
  ultimately show ?thesis using st a by blast
qed

lemma getchar_next:
  assumes "input_ok input d s" "available input s = c # cs"
  shows "\<exists>u. getchar d s = Some (ucast c, u) \<and> input_step s u \<and> input_ok input d u \<and> available input u = cs"
  using assms by (intro getchar_survivor) (simp_all add: input_ok_def survivors_id)

text \<open>With nothing left to deliver \<^verbatim>\<open>getchar\<close> polls for ever.\<close>

lemma getchar_waits:
  assumes "getchar d s = Some r"
  shows "uart input d \<longrightarrow> quiet_kbd d \<longrightarrow> serial_exists s \<longrightarrow> ring_ok s \<longrightarrow> survivors (available input s) \<noteq> []"
proof (rule getchar.raw_induct [OF _ assms, where P = "\<lambda>d s r. uart input d \<longrightarrow> quiet_kbd d \<longrightarrow> serial_exists s \<longrightarrow> ring_ok s
    \<longrightarrow> survivors (available input s) \<noteq> []"], intro impI notI)
  fix loop d s r
  assume IH: "\<And>d s r. loop d s = Some r \<Longrightarrow> uart input d \<longrightarrow> quiet_kbd d \<longrightarrow> serial_exists s \<longrightarrow> ring_ok s
      \<longrightarrow> survivors (available input s) \<noteq> []"
    and run: "do { (c, s) \<leftarrow> cons_getc d s; if c = 0 then loop d s else Some (c, s) } = Some r"
    and line: "uart input d" "quiet_kbd d" "serial_exists s" "ring_ok s" and none: "survivors (available input s) = []"
  obtain t v where tv: "serial_intr d s = Some t" "kbd_intr d t = Some v" "input_step s v"
    "ring_ok v" "pending v = []" "waiting input v = []" using line_polls [OF line] none by auto
  have "cons_rpos v = cons_wpos v"
    using tv(4,5) by (auto simp: pending_def ring_slice_def ring_ok_def word_unat_eq_iff split: if_splits)
  then have "cons_getc d s = Some (0, v)" by (simp add: cons_getc_def tv cons_fetch_def)
  then have "loop d v = Some r" using run by simp
  moreover have "serial_exists v" using input_step_frame [OF tv(3)] line(3) by simp
  ultimately have "survivors (available input v) \<noteq> []" using IH line(1,2) tv(4) by blast
  then show False by (simp add: available_def tv(5,6) survivors_def)
qed

section \<open>The keyboard as a state machine\<close>

lemma shiftcode_cases: "shiftcode data \<in> {0, 1, 2, 4}"
  by (auto simp: shiftcode_def table_def shift_defs split: option.splits dest: map_of_SomeD)

lemma togglecode_cases: "togglecode data \<in> {0, 8, 16, 32}"
  by (auto simp: togglecode_def table_def shift_defs split: option.splits dest: map_of_SomeD)

text \<open>The shift state has only its seven bits.\<close>

abbreviation shift_ok :: "u32 \<Rightarrow> bool" where
  "shift_ok x \<equiv> (x AND - 128 = 0)"

lemma shift_ok_or: "shift_ok x \<Longrightarrow> shift_ok y \<Longrightarrow> shift_ok (x OR y)"
  by (simp add: bit.conj_disj_distrib2)

lemma shift_ok_xor: "shift_ok x \<Longrightarrow> shift_ok y \<Longrightarrow> shift_ok (x XOR y)"
  by (simp add: bit.conj_xor_distrib2)

lemma shift_ok_and: "shift_ok x \<Longrightarrow> shift_ok (x AND y)"
  by (metis and.assoc and.commute bit.conj_zero_left)

lemma fst_kbd_code:
  "fst (kbd_code shift data) =
    (if data = 0xE0 then shift OR E0ESC
     else if data AND 0x80 \<noteq> 0
       then shift AND NOT (ucast (shiftcode (if shift AND E0ESC \<noteq> 0 then data else data AND 0x7F)) OR E0ESC)
     else if shift AND E0ESC \<noteq> 0
       then (shift AND NOT E0ESC OR ucast (shiftcode (data OR 0x80))) XOR ucast (togglecode (data OR 0x80))
     else (shift OR ucast (shiftcode data)) XOR ucast (togglecode data))"
  by (simp add: kbd_code_def Let_def)

lemma kbd_code_shift: "shift_ok shift \<Longrightarrow> shift_ok (fst (kbd_code shift data))"
proof -
  assume s: "shift_ok shift"
  have c: "shift_ok (ucast (shiftcode k))" "shift_ok (ucast (togglecode k))" for k
    using shiftcode_cases [of k] togglecode_cases [of k] by auto
  have e: "shift_ok E0ESC" by (simp add: E0ESC_def)
  show ?thesis
    unfolding fst_kbd_code
    by (simp only: split: if_split) (intro conjI impI shift_ok_or shift_ok_xor shift_ok_and s e c)
qed

lemma unat_caps_fold: "unat c < 256 \<Longrightarrow> unat (caps_fold c) < 256"
proof -
  assume c: "unat c < 256"
  have l: "unat (c + (65 - 97)) < 256" if "97 \<le> c"
    using that c by (simp add: word_le_nat_alt unat_sub)
  have u: "unat (c + (97 - 65)) < 256" if "c \<le> 90"
    using that by (simp add: word_le_nat_alt unat_word_ariths)
  show ?thesis using c l u by (simp add: caps_fold_def)
qed

lemma kbd_code_char: "unat (snd (kbd_code shift data)) < 256"
proof -
  have "unat (ucast (k :: u8) :: u32) < 256" for k
    using unsigned_less [of k, where ?'a = nat] by (simp add: unat_ucast_u8_u32)
  then show ?thesis unfolding kbd_code_def Let_def split_beta by (simp add: unat_caps_fold)
qed

text \<open>A modifier key: pressing it sets its bit, releasing it clears it, whatever else is held.\<close>

lemma charcode_none:
  assumes "k \<in> {0x1D, 0x2A, 0x36, 0x38, 0x3A, 0x45, 0x46, 0x9D, 0xB8}"
  shows "charcode (x AND (CTL OR SHIFT)) k = 0"
proof -
  have "x AND 3 \<le> 3" by (rule word_and_le1)
  then have "unat (x AND 3) \<le> 3" by (simp add: word_le_nat_alt)
  then have "unat (x AND 3) = 0 \<or> unat (x AND 3) = 1 \<or> unat (x AND 3) = 2 \<or> unat (x AND 3) = 3" by linarith
  moreover have "list_all (\<lambda>k. normalmap k = 0 \<and> shiftmap k = 0 \<and> ctlmap k = 0)
      [0x1D, 0x2A, 0x36, 0x38, 0x3A, 0x45, 0x46, 0x9D, 0xB8]"
    by code_simp
  then have "normalmap k = 0" "shiftmap k = 0" "ctlmap k = 0" using assms by auto
  ultimately show ?thesis by (auto simp: charcode_def CTL_def SHIFT_def numeral_2_eq_2 numeral_3_eq_3)
qed

definition modifier_keys :: "(u32 \<times> u8 \<times> u32) set" where
  "modifier_keys = {(0, 0x1D, CTL), (0, 0x2A, SHIFT), (0, 0x36, SHIFT), (0, 0x38, ALT), (E0ESC, 0x1D, CTL), (E0ESC, 0x38, ALT)}"

definition lock_keys :: "(u8 \<times> u32) set" where
  "lock_keys = {(0x3A, CAPSLOCK), (0x45, NUMLOCK), (0x46, SCROLLLOCK)}"

lemma shift_bits:
  "shift AND E0ESC = 0 \<Longrightarrow> (shift OR E0ESC) AND NOT E0ESC = shift" "(shift OR E0ESC) AND E0ESC = E0ESC" "E0ESC \<noteq> 0"
  "shift AND E0ESC = 0 \<Longrightarrow> shift AND NOT E0ESC = shift"
proof -
  show "(shift OR E0ESC) AND NOT E0ESC = shift" if e: "shift AND E0ESC = 0"
  proof (rule bit_word_eqI)
    fix n
    have "bit (shift AND E0ESC) n = False" unfolding e by simp
    then show "bit ((shift OR E0ESC) AND NOT E0ESC) n = bit shift n" if "n < LENGTH(32)" using that by (auto simp: bit_simps)
  qed
  then show "shift AND NOT E0ESC = shift" if "shift AND E0ESC = 0" using that by (simp add: bit.conj_disj_distrib2)
  show "(shift OR E0ESC) AND E0ESC = E0ESC" by (rule bit_word_eqI) (auto simp: bit_simps)
qed (simp add: E0ESC_def)

lemma kbd_modifier:
  assumes "(e, k, b) \<in> modifier_keys" "shift AND E0ESC = 0"
  shows "kbd_code (shift OR e) k = (shift OR b, 0)"
    and "kbd_code (shift OR b OR e) (k OR 0x80) = (shift AND NOT b, 0)"
proof -
  have k: "k \<in> {0x1D, 0x2A, 0x36, 0x38}" and e: "e = 0 \<or> e = E0ESC" using assms(1) by (auto simp: modifier_keys_def)
  let ?k = "if e = 0 then k else k OR 0x80"
  have t: "ucast (shiftcode ?k) = b" "togglecode ?k = 0" "?k \<in> {0x1D, 0x2A, 0x36, 0x38, 0x3A, 0x45, 0x46, 0x9D, 0xB8}"
      "k \<noteq> 0xE0" "k AND 0x80 = 0" "k OR 0x80 \<noteq> 0xE0" "(k OR 0x80) AND 0x80 \<noteq> 0" "(k OR 0x80) AND 0x7F = k" "b AND E0ESC = 0"
    using assms(1) by (auto simp: modifier_keys_def shiftcode_def togglecode_def table_def shift_defs)
  note c = charcode_none [OF t(3)]
  have sb: "(shift OR b) AND E0ESC = 0" using assms(2) t(9) by (simp add: bit.conj_disj_distrib2)
  show "kbd_code (shift OR e) k = (shift OR b, 0)"
    using e t(1,2,4,5) c shift_bits(1) [OF assms(2)] shift_bits(2) [of shift] shift_bits(3) assms(2) by (auto simp: kbd_code_def Let_def caps_fold_def split: if_splits)
  have "(shift OR b OR e) AND NOT (b OR E0ESC) = shift AND NOT b"
  proof (rule bit_word_eqI)
    fix n
    have "bit (shift AND E0ESC) n = False" unfolding assms(2) by simp
    then show "bit ((shift OR b OR e) AND NOT (b OR E0ESC)) n = bit (shift AND NOT b) n" if "n < LENGTH(32)"
      using that e by (auto simp: bit_simps)
  qed
  moreover have "(shift OR b OR e) AND E0ESC = e"
    using e sb shift_bits(2) [of "shift OR b"] by (auto simp: or.assoc)
  ultimately show "kbd_code (shift OR b OR e) (k OR 0x80) = (shift AND NOT b, 0)"
    using e t(1,6-8) by (auto simp: kbd_code_def Let_def shift_bits(3) split: if_splits)
qed

lemma kbd_lock:
  assumes "(k, b) \<in> lock_keys" "shift AND E0ESC = 0"
  shows "kbd_code shift k = (shift XOR b, 0)" "kbd_code shift (k OR 0x80) = (shift, 0)"
proof -
  have t: "shiftcode k = 0" "ucast (togglecode k) = b" "k \<in> {0x1D, 0x2A, 0x36, 0x38, 0x3A, 0x45, 0x46, 0x9D, 0xB8}"
      "k \<noteq> 0xE0" "k AND 0x80 = 0" "k OR 0x80 \<noteq> 0xE0" "(k OR 0x80) AND 0x80 \<noteq> 0" "(k OR 0x80) AND 0x7F = k"
    using assms(1) by (auto simp: lock_keys_def shiftcode_def togglecode_def table_def shift_defs)
  show "kbd_code shift k = (shift XOR b, 0)"
    using assms(2) charcode_none [OF t(3)] t by (simp add: kbd_code_def Let_def caps_fold_def)
  show "kbd_code shift (k OR 0x80) = (shift, 0)"
    using assms(2) t shift_bits(4) by (simp add: kbd_code_def Let_def)
qed

text \<open>One call of the driver.\<close>

lemma kbd_proc_data_run:
  assumes "crt_ok b s" "shift_ok (kbd_shift s)"
  shows "\<exists>c t. kbd_proc_data d s = Some (c, t) \<and> (c = - 1 \<longleftrightarrow> dev_inb d (m_io s) 0x64 AND 1 = 0)
    \<and> shift_ok (kbd_shift t) \<and> crt_ok b t \<and> same_ring s t"
proof -
  let ?st = "dev_inb d (m_io s) 0x64"
  let ?s1 = "s\<lparr>m_io := InB 0x64 ?st # m_io s\<rparr>"
  let ?data = "dev_inb d (m_io ?s1) 0x60"
  let ?r = "kbd_code (kbd_shift s) ?data"
  let ?s2 = "s\<lparr>m_io := InB 0x60 ?data # InB 0x64 ?st # m_io s, kbd_shift := fst ?r\<rparr>"
  have ok: "crt_ok b ?s1" "crt_ok b ?s2" using assms(1) by (simp_all add: crt_ok_def)
  have sh: "shift_ok (fst ?r)" using assms(2) by (rule kbd_code_shift)
  have "unat (- 1 :: u32) = 4294967295" by (simp add: unsigned_minus_1_eq_mask mask_eq_exp_minus_1)
  then have ne: "snd ?r \<noteq> - 1" using kbd_code_char [of "kbd_shift s" ?data] by (auto simp: word_unat_eq_iff)
  let ?l = "''Rebooting!'' @ [CHR 0x0A]"
  have p: "cprintf d (Lit ?l 0) [] ?s2 = Some (0, fold (cputchar d) (map ucast (bytes ?l)) ?s2)"
    using ok(2) by (rule cprintf_text) (simp_all add: bytes_def)
  have e: "emits b ?s2 (concat (map cons_bytes (map ucast (bytes ?l))))
      (fold screen_putc (map ucast (bytes ?l)) (screen_of ?s2)) (fold (cputchar d) (map ucast (bytes ?l)) ?s2)"
    using ok(2) by (rule emits_fold)
  let ?s3 = "outb 0x92 0x3 (fold (cputchar d) (map ucast (bytes ?l)) ?s2)"
  have ok3: "crt_ok b ?s3" "kbd_shift ?s3 = fst ?r" "same_ring s ?s3"
    using e by (auto simp: emits_def crt_ok_def same_ring_def outb_def log_io_def)
  have run: "kbd_proc_data d s = (if ?st AND 1 = 0 then Some (- 1, ?s1)
      else if \<not> (?data = 0xE0 \<or> ?data AND 0x80 \<noteq> 0) \<and> NOT (fst ?r) AND (CTL OR ALT) = 0 \<and> snd ?r = ucast KEY_DEL
      then Some (snd ?r, ?s3) else Some (snd ?r, ?s2))"
    using p by (simp add: kbd_proc_data_def inb_def kbd_defs Let_def split_beta log_io_def)
  show ?thesis
    unfolding run using ok ok3 sh ne assms(2)
    by (cases "?st AND 1 = 0"; split if_split) (auto simp: same_ring_def)
qed

section \<open>Initialisation\<close>

lemma serial_init_effect:
  "serial_init d s = s\<lparr>m_io := m_io (serial_init d s), serial_exists := serial_exists (serial_init d s)\<rparr>"
  by (simp add: serial_init_def Let_def split_beta inb_def outb_def log_io_def)

lemma cons_init_run:
  assumes "a = (if dev_cga d \<in> {None, Some 0xA55A} then CGA_BASE else MONO_BASE)"
    and "b = (if dev_cga d \<in> {None, Some 0xA55A} then KERNBASE + CGA_BUF else KERNBASE + MONO_BUF)"
    and "hw_cursor d a (m_io s) < CRT_SIZE"
  shows "\<exists>t. cons_init d s = Some t \<and> crt_ok b t \<and> same_ring s t \<and>
    (\<forall>x. \<not> in_region b 4000 x \<longrightarrow> m_mem t x = m_mem s x)"
proof -
  let ?s1 = "cga_init d s"
  have "unat b + 4000 < 4294967296" using assms(2) by (simp add: KERNBASE_def CGA_BUF_def MONO_BUF_def)
  then have ok1: "crt_ok b ?s1" "m_mem ?s1 = m_mem s"
    using cga_init_effect [OF assms(1,2), of s] assms(1,3) by (auto simp: crt_ok_def)
  have r1: "same_ring s ?s1"
    by (simp add: same_ring_def cga_init_def cga_read_def cga_write_def Let_def split_beta inb_def outb_def log_io_def split: option.splits)
  obtain io e where s2: "serial_init d ?s1 = ?s1\<lparr>m_io := io, serial_exists := e\<rparr>"
    by (metis serial_init_effect)
  let ?s2 = "?s1\<lparr>m_io := io, serial_exists := e\<rparr>"
  have ok2: "crt_ok b ?s2" "same_ring s ?s2" "m_mem ?s2 = m_mem s" using ok1 r1 by (simp_all add: crt_ok_def same_ring_def)
  show ?thesis
  proof (cases e)
    case True
    then show ?thesis using ok2 s2 by (simp add: cons_init_def kbd_init_def Let_def)
  next
    case False
    let ?l = "''Serial port does not exist!'' @ [CHR 0x0A]"
    let ?t = "fold (cputchar d) (map ucast (bytes ?l)) ?s2"
    have "cprintf d (Lit ?l 0) [] ?s2 = Some (0, ?t)"
      using ok2(1) by (rule cprintf_text) (simp_all add: bytes_def)
    then have run: "cons_init d s = Some ?t" using False s2 by (simp add: cons_init_def kbd_init_def Let_def)
    have "emits b ?s2 (concat (map cons_bytes (map ucast (bytes ?l))))
        (fold screen_putc (map ucast (bytes ?l)) (screen_of ?s2)) ?t"
      using ok2(1) by (rule emits_fold)
    then have "crt_ok b ?t" "same_ring s ?t" "screen_step b (m_mem s) (m_mem ?t)"
      using ok2 by (auto simp: emits_def same_ring_def)
    then show ?thesis using run unfolding screen_step_def by blast
  qed
qed

text \<open>With a serial port, which does not answer \<open>0xFF\<close>, the initialisation takes one byte from the line.\<close>

lemma cga_init_frame:
  assumes "p \<notin> {0x3D5, 0x3B5}"
  shows "port_in p (m_io (cga_init d s)) = port_in p (m_io s)" "m_ebp (cga_init d s) = m_ebp s"
  using assms by (simp_all add: cga_init_def cga_read_def cga_write_def Let_def split_beta inb_def outb_def log_io_def
      CGA_BASE_def MONO_BASE_def split: option.splits)

lemma serial_init_found:
  assumes "\<And>io. dev_inb d io 0x3FD \<noteq> 0xFF"
  shows "serial_exists (serial_init d s)" "port_in 0x3F8 (m_io (serial_init d s)) = Suc (port_in 0x3F8 (m_io s))"
    "m_ebp (serial_init d s) = m_ebp s"
  using assms by (simp_all add: serial_init_def Let_def split_beta inb_def outb_def log_io_def com_defs)

lemma cons_init_serial:
  assumes "a = (if dev_cga d \<in> {None, Some 0xA55A} then CGA_BASE else MONO_BASE)"
    and "b = (if dev_cga d \<in> {None, Some 0xA55A} then KERNBASE + CGA_BUF else KERNBASE + MONO_BUF)"
    and "hw_cursor d a (m_io s) < CRT_SIZE" "\<And>io. dev_inb d io 0x3FD \<noteq> 0xFF"
  shows "\<exists>t. cons_init d s = Some t \<and> crt_ok b t \<and> same_ring s t \<and> (\<forall>x. \<not> in_region b 4000 x \<longrightarrow> m_mem t x = m_mem s x)
    \<and> serial_exists t \<and> m_ebp t = m_ebp s \<and> port_in 0x3F8 (m_io t) = Suc (port_in 0x3F8 (m_io s))"
proof -
  obtain t where t: "cons_init d s = Some t" "crt_ok b t" "same_ring s t" "\<forall>x. \<not> in_region b 4000 x \<longrightarrow> m_mem t x = m_mem s x"
    using cons_init_run [OF assms(1-3)] by blast
  have "cons_init d s = Some (serial_init d (cga_init d s))"
    using serial_init_found(1) [OF assms(4)] by (simp add: cons_init_def kbd_init_def Let_def)
  then have "t = serial_init d (cga_init d s)" using t(1) by simp
  then show ?thesis using t serial_init_found [OF assms(4)] cga_init_frame [of "0x3F8" d s] by simp
qed

section \<open>Properties\<close>

text \<open>A concrete serial line that delivers the bytes of a list, with the keyboard silent.\<close>

definition line_devices :: "u8 list \<Rightarrow> devices" where
  "line_devices input = ready_devices\<lparr>dev_inb := (\<lambda>io p.
     if p = 0x3FD then (if port_in 0x3F8 io < length input then 0x21 else 0x20)
     else if p = 0x3F8 then (if port_in 0x3F8 io < length input then input ! port_in 0x3F8 io else 0)
     else if p = 0x379 then 0x80 else 0)\<rparr>"

lemma uart_line: "uart input (line_devices input)" "quiet_kbd (line_devices input)"
  by (auto simp: uart_def quiet_kbd_def line_devices_def)

lemma ring_ok_blank: "ring_ok blank_console" "pending blank_console = []"
  by (simp_all add: ring_ok_def CONSBUFSIZE_def pending_def ring_slice_def)

text \<open>
  (C25) The circular buffer of the console is a first-in first-out queue of capacity 511:
  as long as it is not exceeded, the bytes stored come out after those already there, in the
  order in which they were stored, and the buffer is empty afterwards.
\<close>

theorem cons_ring_fifo:
  assumes "ring_ok s" "length (pending s) + length cs \<le> 511"
  shows "\<exists>t u. enq_all cons_store cs s = Some t \<and>
    deq_all cons_fetch (length (pending s @ cs)) t = Some (pending s @ cs, u) \<and> ring_ok u \<and> pending u = []"
  using assms by (rule ring.fifo)

theorem cons_ring_fifo_witness:
  "\<exists>t u. enq_all cons_store [97, 98, 99] blank_console = Some t \<and>
    deq_all cons_fetch 3 t = Some ([97, 98, 99], u) \<and> pending u = []"
  using cons_ring_fifo [OF ring_ok_blank(1), of "[97, 98, 99]"]
  by (auto simp: ring_ok_blank numeral_3_eq_3 simp del: enq_all.simps deq_all.simps)

text \<open>
  (C28) At its capacity the next byte makes the buffer appear empty: all 512 bytes are lost.
\<close>

theorem cons_ring_overflow:
  assumes "ring_ok s" "length (pending s) = 511"
  shows "\<exists>t. cons_store c s = Some t \<and> ring_ok t \<and> pending t = []"
  using assms by (rule cons_store_full)

theorem cons_ring_overflow_witness:
  "\<exists>t. cons_store 7 (blank_console\<lparr>cons_wpos := 511\<rparr>) = Some t \<and> pending t = []"
  using cons_ring_overflow [of "blank_console\<lparr>cons_wpos := 511\<rparr>" 7]
  by (auto simp: ring_ok_def pending_def ring_slice_def CONSBUFSIZE_def)

text \<open>
  With a serial line that has bytes waiting and the keyboard idle, \<^verbatim>\<open>serial_intr\<close> ends,
  and has then queued all of them but the zero bytes, behind those that were pending.
\<close>

theorem serial_intr_receives:
  assumes "uart input d" "serial_exists s" "ring_ok s" "length (pending s) + length (waiting input s) \<le> 511"
  shows "\<exists>t. serial_intr d s = Some t \<and> ring_ok t
    \<and> pending t = pending s @ filter (\<lambda>c. c \<noteq> 0) (waiting input s) \<and> waiting input t = []"
proof -
  obtain t where t: "feeds (serial_proc_data d) s (filter (\<lambda>c. c \<noteq> 0) (waiting input s)) t"
    "waiting input t = []" using serial_feeds [OF assms(1,3)] by blast
  have "length (pending s) + length (filter (\<lambda>c. c \<noteq> 0) (waiting input s)) \<le> 511"
    using assms(4) length_filter_le [of "\<lambda>c. c \<noteq> 0" "waiting input s"] by linarith
  with feeds_pending [OF t(1) same_ring_serial assms(3)] survivors_id [of "pending s @ filter (\<lambda>c. c \<noteq> 0) (waiting input s)"] feeds_cons_intr [OF t(1)] t(2) assms(2)
  show ?thesis by (simp add: serial_intr_def)
qed

theorem serial_intr_receives_witness:
  "\<exists>t. serial_intr (line_devices [104, 0, 105]) blank_console = Some t \<and> pending t = [104, 105]"
  using serial_intr_receives [OF uart_line(1), of blank_console "[104, 0, 105]"] ring_ok_blank
  by (auto simp: waiting_def)

text \<open>
  (C26) With a serial port whose line delivers its bytes in order, and a silent keyboard: of the bytes
  other than 0 that are pending in the buffer or waiting on the line, those after the last full 512
  survive the buffer, which is all of them when they are at most 511. If there are any,
  \<^verbatim>\<open>getchar\<close> returns the first of them, and the others remain to be read; if there are none, it
  does not return.
\<close>

theorem getchar_delivers:
  assumes "uart input d" "quiet_kbd d" "serial_exists s" "ring_ok s" "0 \<notin> set (pending s)"
    and "xs = pending s @ filter (\<lambda>c. c \<noteq> 0) (waiting input s)"
  shows "case drop (512 * (length xs div 512)) xs of
      [] \<Rightarrow> getchar d s = None
    | c # cs \<Rightarrow> \<exists>u. getchar d s = Some (ucast c, u) \<and> input_ok input d u \<and> available input u = cs \<and> m_mem u = m_mem s"
proof -
  have x: "drop (512 * (length xs div 512)) xs = survivors (available input s)"
    by (simp add: assms(6) available_def survivors_def)
  show ?thesis
  proof (cases "survivors (available input s)")
    case Nil
    then show ?thesis unfolding x using getchar_waits [of d s] assms(1-4) by (cases "getchar d s") auto
  next
    case (Cons c cs)
    then show ?thesis unfolding x using getchar_survivor [OF assms(1-5) Cons] input_step_frame by auto
  qed
qed

theorem getchar_delivers_witness:
  "(\<exists>u. getchar (line_devices [104, 105]) blank_console = Some (104, u) \<and> available [104, 105] u = [105])
   \<and> getchar (line_devices (replicate 512 7)) blank_console = None"
proof -
  have "serial_exists blank_console" by simp
  note d = getchar_delivers [OF uart_line this ring_ok_blank(1) _ refl]
  show ?thesis using d [of "[104, 105]"] d [of "replicate 512 7"] by (auto simp: waiting_def ring_ok_blank)
qed

text \<open>
  Whatever bytes the keyboard sends, the driver returns; it returns \<open>-1\<close> exactly when the
  device has no data, so the interrupt loop ends exactly then; the shift state keeps to its
  seven bits, and neither the screen invariant nor the input buffer is disturbed.
\<close>

theorem kbd_proc_data_safe:
  assumes "crt_ok b s" "shift_ok (kbd_shift s)"
  shows "\<exists>c t. kbd_proc_data d s = Some (c, t) \<and> (c = - 1 \<longleftrightarrow> dev_inb d (m_io s) 0x64 AND 1 = 0)
    \<and> shift_ok (kbd_shift t) \<and> crt_ok b t \<and> same_ring s t"
  using assms by (rule kbd_proc_data_run)

theorem kbd_proc_data_safe_witness:
  "\<exists>c t. kbd_proc_data ready_devices blank_console = Some (c, t) \<and> c = - 1 \<and> same_ring blank_console t"
  using kbd_proc_data_safe [OF crt_ok_blank, of ready_devices] by (auto simp: ready_devices_def)

text \<open>
  (C27) With no prefix pending: the prefix \<^verbatim>\<open>0xE0\<close> is remembered; each of the six modifier keys, the
  right Ctrl and Alt behind their prefix, sets its bit of the shift state when it is pressed and
  clears it when it is released, whatever else is held, and the prefix is then forgotten; each of
  the three lock keys changes its bit when it is pressed and nothing when it is released. None of
  them produces a character.
\<close>

theorem kbd_modifier_keys:
  assumes "shift AND E0ESC = 0"
  shows "kbd_code shift 0xE0 = (shift OR E0ESC, 0) \<and>
    (\<forall>(e, k, b) \<in> {(0, 0x1D, CTL), (0, 0x2A, SHIFT), (0, 0x36, SHIFT), (0, 0x38, ALT), (E0ESC, 0x1D, CTL), (E0ESC, 0x38, ALT)}.
       kbd_code (shift OR e) k = (shift OR b, 0) \<and> kbd_code (shift OR b OR e) (k OR 0x80) = (shift AND NOT b, 0)) \<and>
    (\<forall>(k, b) \<in> {(0x3A, CAPSLOCK), (0x45, NUMLOCK), (0x46, SCROLLLOCK)}.
       kbd_code shift k = (shift XOR b, 0) \<and> kbd_code shift (k OR 0x80) = (shift, 0))"
proof -
  have "kbd_code shift 0xE0 = (shift OR E0ESC, 0)" by (simp add: kbd_code_def)
  moreover have "\<forall>(e, k, b) \<in> modifier_keys. kbd_code (shift OR e) k = (shift OR b, 0) \<and> kbd_code (shift OR b OR e) (k OR 0x80) = (shift AND NOT b, 0)"
    using kbd_modifier [OF _ assms] by blast
  moreover have "\<forall>(k, b) \<in> lock_keys. kbd_code shift k = (shift XOR b, 0) \<and> kbd_code shift (k OR 0x80) = (shift, 0)"
    using kbd_lock [OF _ assms] by blast
  ultimately show ?thesis unfolding modifier_keys_def lock_keys_def by (intro conjI)
qed

theorem kbd_modifier_keys_witness:
  "kbd_code CAPSLOCK 0xE0 = (CAPSLOCK OR E0ESC, 0) \<and> kbd_code (CAPSLOCK OR E0ESC) 0x1D = (CAPSLOCK OR CTL, 0)
   \<and> kbd_code (CAPSLOCK OR CTL OR E0ESC) 0x9D = (CAPSLOCK, 0) \<and> kbd_code CAPSLOCK 0x3A = (0, 0)"
  using kbd_modifier_keys [of CAPSLOCK] by (simp add: shift_defs)

text \<open>
  \<^verbatim>\<open>cons_init\<close> returns with the screen ready for output when the hardware's cursor is on
  the screen, whether or not there is a serial port, and has changed no memory outside the
  screen.
\<close>

theorem cons_init_ready:
  assumes "a = (if dev_cga d \<in> {None, Some 0xA55A} then CGA_BASE else MONO_BASE)"
    and "b = (if dev_cga d \<in> {None, Some 0xA55A} then KERNBASE + CGA_BUF else KERNBASE + MONO_BUF)"
    and "hw_cursor d a (m_io s) < CRT_SIZE"
  shows "\<exists>t. cons_init d s = Some t \<and> crt_ok b t \<and> same_ring s t
    \<and> (\<forall>x. \<not> in_region b 4000 x \<longrightarrow> m_mem t x = m_mem s x)"
  using assms by (rule cons_init_run)

theorem cons_init_ready_witness:
  "\<exists>t. cons_init ready_devices blank_console = Some t \<and> crt_ok (KERNBASE + CGA_BUF) t"
  using cons_init_ready [of CGA_BASE ready_devices "KERNBASE + CGA_BUF" blank_console]
  by (auto simp: ready_devices_def hw_cursor_def CGA_BASE_def crt_defs Let_def)

end
