(* ===== verification/JosReadline.thy ===== *)
theory JosReadline
  imports JosInput JosRender
begin

text \<open>
  \<^verbatim>\<open>src/lib/readline.c\<close>: reading a line from the console into a static buffer of 1024
  bytes, with echo and with the backspace and delete keys. The address of the buffer is a
  parameter, chosen by the linker.

  The loop is shown to implement a line editor on lists of bytes: when the input completes a
  line, \<^verbatim>\<open>readline\<close> returns, the buffer holds the edited line as a C string, and the editor's
  echo is on the screen and on the ports.
\<close>

section \<open>The model\<close>

definition BUFLEN :: int where "BUFLEN = 1024"

partial_function (option) readline_loop ::
  "devices \<Rightarrow> u32 \<Rightarrow> bool \<Rightarrow> int \<Rightarrow> console \<Rightarrow> (cptr \<times> console) option" where
  "readline_loop d buf echoing i s =
     do { (c, s) \<leftarrow> getchar d s;
          if sint c < 0 then
            do { (_, s) \<leftarrow> cprintf d (Lit (''read error: %e'' @ [CHR 0x0A]) 0) [Word c] s;
                 Some (NULL, s) }
          else if (c = 8 \<or> c = 0x7F) \<and> i > 0 then
            readline_loop d buf echoing (i - 1) (if echoing then cputchar d 8 s else s)
          else if sint c \<ge> 32 \<and> i < BUFLEN - 1 then
            let s = (if echoing then cputchar d c s else s);
                s = s\<lparr>m_mem := (m_mem s)(buf + of_int i := ucast c)\<rparr>
            in readline_loop d buf echoing (i + 1) s
          else if c = 10 \<or> c = 13 then
            let s = (if echoing then cputchar d 10 s else s);
                s = s\<lparr>m_mem := (m_mem s)(buf + of_int i := 0)\<rparr>
            in Some (Mem buf, s)
          else readline_loop d buf echoing i s }"

declare readline_loop.simps [code]

definition readline :: "devices \<Rightarrow> u32 \<Rightarrow> cptr \<Rightarrow> console \<Rightarrow> (cptr \<times> console) option" where
  "readline d buf prompt s =
     do { s \<leftarrow> (if prompt \<noteq> NULL then do { (_, s) \<leftarrow> cprintf d (Lit ''%s'' 0) [Ptr prompt] s; Some s } else Some s);
          let echoing = (iscons 0 \<noteq> 0);
          readline_loop d buf echoing 0 s }"

section \<open>The line editor\<close>

text \<open>
  The text so far and the input give the completed line, what was echoed and the input left;
  None when the input ends before the line does.
\<close>

fun edit_line :: "u8 list \<Rightarrow> u8 list \<Rightarrow> (u8 list \<times> u8 list \<times> u8 list) option" where
  "edit_line line [] = None"
| "edit_line line (c # cs) =
     (if (c = 8 \<or> c = 0x7F) \<and> line \<noteq> [] then
        map_option (\<lambda>(l, e, r). (l, 8 # e, r)) (edit_line (butlast line) cs)
      else if c \<ge> 32 \<and> length line < 1023 then
        map_option (\<lambda>(l, e, r). (l, c # e, r)) (edit_line (line @ [c]) cs)
      else if c = 10 \<or> c = 13 then Some (line, [10], cs)
      else edit_line line cs)"

lemma edit_line_cases:
  assumes "edit_line line (c # cs) = Some (l, e, r)"
  obtains (del) e' where "c = 8 \<or> c = 0x7F" "line \<noteq> []" "e = 8 # e'" "edit_line (butlast line) cs = Some (l, e', r)"
  | (ins) e' where "\<not> ((c = 8 \<or> c = 0x7F) \<and> line \<noteq> [])" "32 \<le> c" "length line < 1023" "e = c # e'"
      "edit_line (line @ [c]) cs = Some (l, e', r)"
  | (ret) "c = 10 \<or> c = 13" "l = line" "e = [10]" "r = cs"
  | (skip) "\<not> ((c = 8 \<or> c = 0x7F) \<and> line \<noteq> [])" "\<not> (32 \<le> c \<and> length line < 1023)" "c \<noteq> 10" "c \<noteq> 13"
      "edit_line line cs = Some (l, e, r)"
proof (cases "(c = 8 \<or> c = 0x7F) \<and> line \<noteq> []")
  case True
  with assms show ?thesis by (auto intro: del)
next
  case nd: False
  show ?thesis
  proof (cases "32 \<le> c \<and> length line < 1023")
    case True
    with assms nd show ?thesis unfolding edit_line.simps if_not_P [OF nd] if_P [OF True] by (auto intro: ins)
  next
    case ni: False
    have eq: "(if c = 10 \<or> c = 13 then Some (line, [10], cs) else edit_line line cs) = Some (l, e, r)"
      using assms unfolding edit_line.simps if_not_P [OF nd] if_not_P [OF ni] .
    show ?thesis
    proof (cases "c = 10 \<or> c = 13")
      case True
      with eq show ?thesis by (intro ret) simp_all
    next
      case False
      with eq nd ni show ?thesis by (intro skip) simp_all
    qed
  qed
qed

lemma edit_line_line:
  "edit_line line cs = Some (l, e, r) \<Longrightarrow> length line \<le> 1023 \<Longrightarrow> (\<forall>x \<in> set line. 32 \<le> x) \<Longrightarrow>
   length l \<le> 1023 \<and> (\<forall>x \<in> set l. 32 \<le> x)"
proof (induction cs arbitrary: line e)
  case (Cons c cs)
  from Cons.prems(1) show ?case
  proof (cases rule: edit_line_cases)
    case (del e')
    moreover have "\<forall>x \<in> set (butlast line). 32 \<le> x" using Cons.prems(3) in_set_butlastD by metis
    ultimately show ?thesis using Cons.prems(2) by (intro Cons.IH) simp_all
  next
    case (ins e')
    then show ?thesis using Cons.prems(3) by (intro Cons.IH [OF ins(5)]) auto
  next
    case ret
    then show ?thesis using Cons.prems by simp
  next
    case skip
    then show ?thesis using Cons.prems by (intro Cons.IH)
  qed
qed simp

section \<open>The loop implements the editor\<close>

text \<open>Echo and the stores to the buffer leave the input as it is.\<close>

lemma input_ok_cong:
  assumes "input_ok input d s" "same_ring s t" "serial_exists t = serial_exists s"
    and "port_in 0x3F8 (m_io t) = port_in 0x3F8 (m_io s)"
  shows "input_ok input d t" "available input t = available input s"
  using assms same_ring_pending [OF assms(2)] by (simp_all add: input_ok_def available_def waiting_def)

lemma echo_input:
  assumes "crt_ok b s" "input_ok input d s"
  shows "input_ok input d (cputchar d c s)" "available input (cputchar d c s) = available input s"
proof -
  have e: "emits b s (cons_bytes c) (screen_putc c (screen_of s)) (cputchar d c s)"
    unfolding cputchar_def using assms(1) by (rule emits_cons_putc)
  then have "same_ring s (cputchar d c s)" "serial_exists (cputchar d c s) = serial_exists s"
    "port_in 0x3F8 (m_io (cputchar d c s)) = port_in 0x3F8 (m_io s)"
    by (auto simp: emits_def same_ring_def status_ports_def)
  from input_ok_cong [OF assms(2) this] show "input_ok input d (cputchar d c s)"
    "available input (cputchar d c s) = available input s" .
qed

text \<open>A state in which the first \<open>length line\<close> bytes of the buffer hold \<open>line\<close>.\<close>

definition holds_line :: "u32 \<Rightarrow> u8 list \<Rightarrow> console \<Rightarrow> bool" where
  "holds_line buf line s \<longleftrightarrow> (\<forall>j < length line. m_mem s (buf + of_nat j) = line ! j)"

lemma holds_line_mem:
  assumes "holds_line buf line s" "length line \<le> 1024"
    and "\<And>a. in_region buf 1024 a \<Longrightarrow> m_mem t a = m_mem s a"
  shows "holds_line buf line t"
  using assms by (auto simp: holds_line_def in_region_offset)

lemma holds_line_snoc:
  assumes "holds_line buf line s" "length line < 1024"
  shows "holds_line buf (line @ [c]) (s\<lparr>m_mem := (m_mem s)(buf + of_nat (length line) := c)\<rparr>)"
proof -
  have "(of_nat j :: u32) = of_nat (length line) \<longleftrightarrow> j = length line" if "j \<le> length line" for j
    using that assms(2) by (simp add: word_unat_eq_iff unat_of_nat)
  then show ?thesis using assms(1) by (auto simp: holds_line_def nth_append less_Suc_eq)
qed

lemma holds_line_butlast: "holds_line buf line s \<Longrightarrow> holds_line buf (butlast line) s"
  by (auto simp: holds_line_def nth_butlast)

lemma holds_line_cstr:
  assumes "holds_line buf line s" "0 \<notin> set line" "m_mem s (buf + of_nat (length line)) = 0"
  shows "cstr (m_mem s) (Mem buf) line"
proof -
  have "cstr (m_mem s) (Mem (buf + of_nat j)) (drop j line)" if "j \<le> length line" for j
    using that
  proof (induction "length line - j" arbitrary: j)
    case 0
    then show ?case using assms(3) by simp
  next
    case (Suc n)
    then have j: "j < length line" by simp
    then have d: "drop j line = line ! j # drop (Suc j) line" by (simp add: Cons_nth_drop_Suc)
    have "line ! j \<noteq> 0" using assms(2) j nth_mem by fastforce
    moreover have "cstr (m_mem s) (Mem (buf + of_nat j + 1)) (drop (Suc j) line)"
      using Suc.hyps(1) [of "Suc j"] Suc.hyps(2) j by (simp add: ac_simps)
    ultimately show ?case using j assms(1) by (simp add: d holds_line_def)
  qed
  from this [of 0] show ?thesis by simp
qed

lemma screen_of_cong:
  assumes "crt_buf t = crt_buf s" "crt_pos t = crt_pos s"
    and "\<And>a. in_region (crt_buf s) 4000 a \<Longrightarrow> m_mem t a = m_mem s a"
  shows "screen_of t = screen_of s"
proof -
  have "ld16 (m_mem t) (crt_buf s + 2 * of_nat i) = ld16 (m_mem s) (crt_buf s + 2 * of_nat i)" if "i < 2000" for i
    using that assms(3) in_region_cell [of 0 i "crt_buf s" 4000] in_region_cell [of 1 i "crt_buf s" 4000]
    by (simp add: ld16_def)
  then show ?thesis using assms(1,2) by (simp add: screen_of_def screen_cells_def crt_defs)
qed

text \<open>The memory of the buffer and that of the screen are apart.\<close>

definition apart :: "u32 \<Rightarrow> u32 \<Rightarrow> bool" where
  "apart buf b \<longleftrightarrow> (\<forall>a. in_region buf 1024 a \<longrightarrow> \<not> in_region b 4000 a)"

text \<open>What a part of the editing session leaves: the echo has been printed, the input is read up to \<open>r\<close>.\<close>

definition session :: "u8 list \<Rightarrow> devices \<Rightarrow> u32 \<Rightarrow> console \<Rightarrow> u8 list \<Rightarrow> console \<Rightarrow> bool" where
  "session input d b s e t \<longleftrightarrow> crt_ok b t \<and> input_ok input d t
     \<and> screen_of t = fold screen_putc (map ucast e) (screen_of s)
     \<and> port_out 0x3F8 (m_io t) = port_out 0x3F8 (m_io s) @ e
     \<and> port_out 0x378 (m_io t) = port_out 0x378 (m_io s) @ e"

lemma session_trans: "session input d b s e t \<Longrightarrow> session input d b t e' u \<Longrightarrow> session input d b s (e @ e') u"
  by (simp add: session_def)

lemma sint_ucast_u8: "sint (ucast (c :: u8) :: u32) = int (unat c)"
proof -
  have "unat c < 256" using unsigned_less [of c, where ?'a = nat] by simp
  then show ?thesis by (subst sint_of_small) (simp_all add: unat_ucast_u8_u32)
qed

lemma ucast_u8_eq: "(ucast (c :: u8) :: u32) = of_nat n \<longleftrightarrow> unat c = n" if "n < 256" for n
  using that by (simp add: word_unat_eq_iff unat_ucast_u8_u32 unat_of_nat)

lemma cons_bytes_u8: "c \<noteq> 9 \<Longrightarrow> cons_bytes (ucast (c :: u8)) = [c]"
proof -
  assume "c \<noteq> 9"
  have "take_bit 8 (ucast c :: u32) = ucast c"
    by (rule bit_word_eqI) (auto simp: bit_simps dest: bit_imp_le_length)
  then have "(ucast c :: u32) AND 0xFF = ucast c" by (simp add: take_bit_eq_mask mask_eq_exp_minus_1)
  moreover have "(ucast c :: u32) \<noteq> 9" using \<open>c \<noteq> 9\<close> ucast_u8_eq [of 9 c] by (simp add: word_unat_eq_iff)
  ultimately show ?thesis by (simp add: cons_bytes_def ucast_u8_u32)
qed

lemma session_echo:
  assumes "crt_ok b s" "input_ok input d s" "c \<noteq> 9"
  shows "session input d b s [c] (cputchar d (ucast c) s)"
    "available input (cputchar d (ucast c) s) = available input s"
    "\<not> in_region b 4000 a \<Longrightarrow> m_mem (cputchar d (ucast c) s) a = m_mem s a"
proof -
  have e: "emits b s [c] (screen_putc (ucast c) (screen_of s)) (cputchar d (ucast c) s)"
    unfolding cputchar_def using emits_cons_putc [OF assms(1), of "ucast c" d] by (simp add: cons_bytes_u8 [OF assms(3)])
  show "session input d b s [c] (cputchar d (ucast c) s)"
    using e echo_input(1) [OF assms(1,2), of "ucast c"] by (simp add: session_def emits_def)
  show "available input (cputchar d (ucast c) s) = available input s" by (rule echo_input(2) [OF assms(1,2)])
  show "\<not> in_region b 4000 a \<Longrightarrow> m_mem (cputchar d (ucast c) s) a = m_mem s a" by (rule mem_cputchar [OF assms(1)])
qed

lemma session_store:
  assumes "crt_ok b s" "input_ok input d s" "apart buf b" "j < 1024"
  shows "session input d b s [] (s\<lparr>m_mem := (m_mem s)(buf + of_nat j := x)\<rparr>)"
    "available input (s\<lparr>m_mem := (m_mem s)(buf + of_nat j := x)\<rparr>) = available input s"
proof -
  let ?t = "s\<lparr>m_mem := (m_mem s)(buf + of_nat j := x)\<rparr>"
  have "in_region buf 1024 (buf + of_nat j)" using assms(4) by (simp add: in_region_offset)
  then have "\<not> in_region b 4000 (buf + of_nat j)" using assms(3) by (simp add: apart_def)
  then have "screen_of ?t = screen_of s"
    using assms(1) by (intro screen_of_cong) (auto simp: crt_ok_def)
  then show "session input d b s [] ?t"
    using assms(1,2) input_ok_cong(1) [OF assms(2), of ?t] by (simp add: session_def crt_ok_def same_ring_def)
  show "available input ?t = available input s"
    using input_ok_cong(2) [OF assms(2), of ?t] by (simp add: same_ring_def)
qed

lemma session_input:
  assumes "crt_ok b s" "input_ok input d u" "input_step s u"
  shows "session input d b s [] u"
proof -
  note f = input_step_frame [OF assms(3)]
  have "screen_of u = screen_of s" using f by (intro screen_of_cong) simp_all
  then show ?thesis using assms f by (simp add: session_def crt_ok_def)
qed

text \<open>The state of the loop with \<open>line\<close> in the buffer, and what each key does to it.\<close>

definition reading :: "u8 list \<Rightarrow> devices \<Rightarrow> u32 \<Rightarrow> u32 \<Rightarrow> u8 list \<Rightarrow> console \<Rightarrow> bool" where
  "reading input d b buf line s \<longleftrightarrow> crt_ok b s \<and> input_ok input d s \<and> apart buf b \<and> holds_line buf line s
     \<and> length line \<le> 1023 \<and> (\<forall>x \<in> set line. 32 \<le> x)"

lemma echo_keeps_line:
  assumes "reading input d b buf line u" "c \<noteq> 9"
  shows "session input d b u [c] (cputchar d (ucast c) u)" "available input (cputchar d (ucast c) u) = available input u"
    "reading input d b buf line (cputchar d (ucast c) u)"
proof -
  have ok: "crt_ok b u" "input_ok input d u" using assms(1) by (simp_all add: reading_def)
  note w = session_echo [OF ok assms(2)]
  show "session input d b u [c] (cputchar d (ucast c) u)" "available input (cputchar d (ucast c) u) = available input u"
    by (rule w(1), rule w(2))
  have "holds_line buf line (cputchar d (ucast c) u)"
    using assms(1) w(3) holds_line_mem [of buf line u "cputchar d (ucast c) u"] by (simp add: reading_def apart_def)
  then show "reading input d b buf line (cputchar d (ucast c) u)"
    using assms(1) w(1) by (simp add: reading_def session_def)
qed

lemma delete_keeps_line: "reading input d b buf line u \<Longrightarrow> reading input d b buf (butlast line) u"
  using in_set_butlastD [of _ line] by (auto simp: reading_def intro: holds_line_butlast)

lemma store_keeps_line:
  assumes "reading input d b buf line w"
  shows "session input d b w [] (w\<lparr>m_mem := (m_mem w)(buf + of_nat (length line) := c)\<rparr>)"
    "available input (w\<lparr>m_mem := (m_mem w)(buf + of_nat (length line) := c)\<rparr>) = available input w"
    "holds_line buf (line @ [c]) (w\<lparr>m_mem := (m_mem w)(buf + of_nat (length line) := c)\<rparr>)"
  using assms session_store [of b w input d buf "length line" c] by (simp_all add: reading_def holds_line_snoc)

lemma insert_keeps_line:
  assumes "reading input d b buf line w" "32 \<le> c" "length line < 1023"
  shows "reading input d b buf (line @ [c]) (w\<lparr>m_mem := (m_mem w)(buf + of_nat (length line) := c)\<rparr>)"
  using assms store_keeps_line [OF assms(1), of c] by (auto simp: reading_def session_def)

lemma return_ends_line:
  assumes "reading input d b buf line w"
  shows "cstr (m_mem (w\<lparr>m_mem := (m_mem w)(buf + of_nat (length line) := 0)\<rparr>)) (Mem buf) line"
proof -
  let ?v = "w\<lparr>m_mem := (m_mem w)(buf + of_nat (length line) := 0)\<rparr>"
  have "holds_line buf (line @ [0]) ?v" by (rule store_keeps_line(3) [OF assms])
  then have "holds_line buf line ?v" by (auto simp: holds_line_def nth_append dest: spec [of _ "_ :: nat"])
  moreover have "0 \<notin> set line" using assms by (auto simp: reading_def)
  ultimately show ?thesis by (rule holds_line_cstr) simp
qed

text \<open>The tests of the loop, on the byte that was read.\<close>

lemma key_tests:
  "\<not> sint (ucast (c :: u8) :: u32) < 0" "32 \<le> sint (ucast c :: u32) \<longleftrightarrow> 32 \<le> c"
  "(ucast c :: u32) = 8 \<longleftrightarrow> c = 8" "(ucast c :: u32) = 0x7F \<longleftrightarrow> c = 0x7F" "(ucast c :: u32) = 10 \<longleftrightarrow> c = 10"
  "(ucast c :: u32) = 13 \<longleftrightarrow> c = 13"
  by (simp_all add: sint_ucast_u8 word_le_def word_unat_eq_iff unat_ucast_u8_u32)

definition finishes :: "u8 list \<Rightarrow> devices \<Rightarrow> u32 \<Rightarrow> u32 \<Rightarrow> u8 list \<Rightarrow> u8 list \<Rightarrow> int \<Rightarrow> console \<Rightarrow> u8 list \<Rightarrow> bool" where
  "finishes input d b buf l r i s e \<longleftrightarrow> (\<exists>t. readline_loop d buf True i s = Some (Mem buf, t) \<and> session input d b s e t
     \<and> available input t = r \<and> cstr (m_mem t) (Mem buf) l)"

lemma finishes_step:
  assumes "finishes input d b buf l r j v e" "session input d b s f v"
    and "readline_loop d buf True i s = readline_loop d buf True j v"
  shows "finishes input d b buf l r i s (f @ e)"
  using assms session_trans [OF assms(2)] unfolding finishes_def by fastforce

lemma readline_loop_finishes:
  assumes "edit_line line (available input s) = Some (l, e, r)" "reading input d b buf line s"
  shows "finishes input d b buf l r (int (length line)) s e"
  using assms
proof (induction "available input s" arbitrary: line s e)
  case (Cons c cs)
  have ok: "crt_ok b s" "input_ok input d s" using Cons.prems(2) by (simp_all add: reading_def)
  obtain u where u: "getchar d s = Some (ucast c, u)" "input_step s u" "input_ok input d u" "available input u = cs"
    using getchar_next [OF ok(2) Cons.hyps(2) [symmetric]] by blast
  have su: "session input d b s [] u" using ok(1) u(3,2) by (rule session_input)
  then have ru: "reading input d b buf line u"
    using Cons.prems(2) input_step_frame [OF u(2)] by (simp add: reading_def session_def holds_line_def)
  note loop = readline_loop.simps [of d buf True "int (length line)" s]
  from Cons.prems(1) [folded Cons.hyps(2)] show ?case
  proof (cases rule: edit_line_cases)
    case (del e')
    note v = echo_keeps_line [OF ru, of 8, simplified]
    have "finishes input d b buf l r (int (length (butlast line))) (cputchar d 8 u) e'"
      using del(4) v(2) u(4) delete_keeps_line [OF v(3)] by (intro Cons.hyps(1)) simp_all
    moreover have "session input d b s [8] (cputchar d 8 u)" using session_trans [OF su v(1)] by simp
    ultimately have "finishes input d b buf l r (int (length line)) s ([8] @ e')"
      by (rule finishes_step) (subst loop, use u(1) del(1,2) in \<open>auto simp: key_tests of_nat_diff Suc_leI\<close>)
    then show ?thesis using del(3) by simp
  next
    case (ins e')
    let ?w = "cputchar d (ucast c) u"
    let ?v = "?w\<lparr>m_mem := (m_mem ?w)(buf + of_nat (length line) := c)\<rparr>"
    have c9: "c \<noteq> 9" using ins(2) by auto
    note w = echo_keeps_line [OF ru c9]
    note v = store_keeps_line [OF w(3), of c]
    have "finishes input d b buf l r (int (length (line @ [c]))) ?v e'"
      using ins(5) v(2) w(2) u(4) insert_keeps_line [OF w(3) ins(2,3)] by (intro Cons.hyps(1)) simp_all
    moreover have "session input d b s [c] ?v" using session_trans [OF su session_trans [OF w(1) v(1)]] by simp
    ultimately have "finishes input d b buf l r (int (length line)) s ([c] @ e')"
      by (rule finishes_step) (subst loop, use u(1) ins(1-3) in \<open>auto simp: key_tests BUFLEN_def Let_def ucast_u8_u32 add.commute\<close>)
    then show ?thesis using ins(4) by simp
  next
    case ret
    let ?v = "(cputchar d 10 u)\<lparr>m_mem := (m_mem (cputchar d 10 u))(buf + of_nat (length line) := 0)\<rparr>"
    note w = echo_keeps_line [OF ru, of 10, simplified]
    note v = store_keeps_line [OF w(3), of 0]
    have "readline_loop d buf True (int (length line)) s = Some (Mem buf, ?v)"
      by (subst loop) (use u(1) ret(1) in \<open>auto simp: key_tests Let_def\<close>)
    moreover have "session input d b s [10] ?v" using session_trans [OF su session_trans [OF w(1) v(1)]] by simp
    ultimately show ?thesis
      using return_ends_line [OF w(3)] v(2) w(2) u(4) ret unfolding finishes_def by auto
  next
    case skip
    have "finishes input d b buf l r (int (length line)) u e"
      using skip(5) u(4) ru by (intro Cons.hyps(1)) simp_all
    then have "finishes input d b buf l r (int (length line)) s ([] @ e)"
      by (rule finishes_step [OF _ su]) (subst loop, use u(1) skip(1-4) in \<open>auto simp: key_tests BUFLEN_def\<close>)
    then show ?thesis by simp
  qed
qed simp

lemma readline_loop_edit:
  assumes "edit_line line (available input s) = Some (l, e, r)"
    and "crt_ok b s" "input_ok input d s" "apart buf b" "holds_line buf line s"
    and "length line \<le> 1023" "\<forall>x \<in> set line. 32 \<le> x"
  shows "\<exists>t. readline_loop d buf True (int (length line)) s = Some (Mem buf, t) \<and> session input d b s e t
    \<and> available input t = r \<and> cstr (m_mem t) (Mem buf) l"
  using readline_loop_finishes [OF assms(1), of d b buf] assms(2-) by (simp add: reading_def finishes_def)

section \<open>Printing between lines\<close>

text \<open>The text of a command is on the console after it.\<close>

definition prints :: "devices \<Rightarrow> u32 list \<Rightarrow> console \<Rightarrow> console" where
  "prints d out s = fold (cputchar d) out s"

lemma prints_append: "prints d (a @ b) s = prints d b (prints d a s)"
  by (simp add: prints_def)

lemma crt_ok_prints: "crt_ok b s \<Longrightarrow> crt_ok b (prints d out s)"
  unfolding prints_def by (rule emits_crt_ok [OF emits_fold])

lemma cprintf_prints:
  assumes "crt_ok b s" "render (bytes l) xs = Some out" "CHR 0x00 \<notin> set l" "length l < 4294967296"
    and "args_ok (m_mem s) (\<lambda>a. \<not> in_region b 4000 a) ap xs"
  shows "cprintf d (Lit l 0) ap s = Some (0, prints d out s)"
  unfolding prints_def by (rule cprintf_lit [OF assms(2,1,3-5)])

text \<open>What has been printed between two states in which input can be read.\<close>

definition talks :: "u8 list \<Rightarrow> devices \<Rightarrow> u32 \<Rightarrow> console \<Rightarrow> u32 list \<Rightarrow> console \<Rightarrow> bool" where
  "talks input d b s out t \<longleftrightarrow> crt_ok b t \<and> input_ok input d t
     \<and> screen_of t = fold screen_putc out (screen_of s)
     \<and> port_out 0x3F8 (m_io t) = port_out 0x3F8 (m_io s) @ concat (map cons_bytes out)
     \<and> port_out 0x378 (m_io t) = port_out 0x378 (m_io s) @ concat (map cons_bytes out)"

lemma talks_trans: "talks input d b s o1 t \<Longrightarrow> talks input d b t o2 u \<Longrightarrow> talks input d b s (o1 @ o2) u"
  by (simp add: talks_def)

lemma prints_talks:
  assumes "crt_ok b s" "input_ok input d s"
  shows "talks input d b s out (prints d out s)" "available input (prints d out s) = available input s"
proof -
  have i: "input_ok input d (fold (cputchar d) out s) \<and> available input (fold (cputchar d) out s) = available input s"
    using assms
  proof (induction out arbitrary: s)
    case (Cons c out)
    then show ?case using echo_input [OF Cons.prems, of c] crt_ok_cputchar [OF Cons.prems(1), of d c] by simp
  qed simp
  then show "available input (prints d out s) = available input s" by (simp add: prints_def)
  show "talks input d b s out (prints d out s)"
    using i emits_fold [OF assms(1), of out d] by (auto simp: talks_def prints_def emits_def)
qed

lemma edit_line_echo: "edit_line line cs = Some (l, e, r) \<Longrightarrow> 9 \<notin> set e"
proof (induction cs arbitrary: line e)
  case (Cons c cs)
  from Cons.prems show ?case
    by (cases rule: edit_line_cases) (use Cons.IH in \<open>force+\<close>)
qed simp

lemma session_talks: "session input d b s e t \<Longrightarrow> 9 \<notin> set e \<Longrightarrow> talks input d b s (map ucast e) t"
proof -
  have "9 \<notin> set e \<Longrightarrow> concat (map cons_bytes (map ucast e)) = e" by (induction e) (simp_all add: cons_bytes_u8)
  then show "session input d b s e t \<Longrightarrow> 9 \<notin> set e \<Longrightarrow> talks input d b s (map ucast e) t"
    by (simp add: session_def talks_def)
qed

text \<open>The text of a prompt: that of the string it points to, which is not on the screen, and none for NULL.\<close>

definition prompt_text :: "mem \<Rightarrow> u32 \<Rightarrow> cptr \<Rightarrow> u32 list \<Rightarrow> bool" where
  "prompt_text m b prompt pr \<longleftrightarrow>
     (if prompt = NULL then pr = []
      else \<exists>w. pr = plain_str w \<and> arg_ok m (\<lambda>a. \<not> in_region b 4000 a) (Ptr prompt) (SStr w))"

lemma readline_prints:
  assumes "crt_ok b s" "prompt_text (m_mem s) b prompt pr"
  shows "readline d buf prompt s = readline_loop d buf True 0 (prints d pr s)"
proof (cases "prompt = NULL")
  case True
  then show ?thesis using assms(2) by (simp add: readline_def iscons_def prompt_text_def prints_def)
next
  case False
  then obtain w where w: "pr = plain_str w" "arg_ok (m_mem s) (\<lambda>a. \<not> in_region b 4000 a) (Ptr prompt) (SStr w)"
    using assms(2) by (auto simp: prompt_text_def)
  have "render (bytes ''%s'') [SStr w] = Some (plain_str w)" by (simp add: bytes_def render_steps)
  then have "cprintf d (Lit ''%s'' 0) [Ptr prompt] s = Some (0, prints d pr s)"
    unfolding w(1) by (rule cprintf_prints [OF assms(1)]) (simp, simp, intro list.rel_intros w(2))
  then show ?thesis using False by (simp add: readline_def iscons_def)
qed

section \<open>Properties\<close>

text \<open>
  (C24) With a silent keyboard, when the characters that are pending or waiting on the serial line, at
  most 511, complete a line: \<^verbatim>\<open>readline\<close> prints the prompt, if it is given one, and returns the
  buffer, which is not on the screen and holds the line as edited with backspace and delete, cut at
  1023 characters and terminated by NUL; the prompt and what the editor echoes have gone to the
  screen, to the serial port and to the parallel port; and the characters after the line remain to
  be read.
\<close>

theorem readline_edits:
  assumes "edit_line [] (available input s) = Some (l, e, r)"
    and "crt_ok b s" "input_ok input d s" "apart buf b" "prompt_text (m_mem s) b prompt pr"
  shows "\<exists>t. readline d buf prompt s = Some (Mem buf, t) \<and> cstr (m_mem t) (Mem buf) l \<and> length l < 1024
    \<and> available input t = r \<and> screen_of t = fold screen_putc (pr @ map ucast e) (screen_of s)
    \<and> port_out 0x3F8 (m_io t) = port_out 0x3F8 (m_io s) @ concat (map cons_bytes pr) @ e
    \<and> port_out 0x378 (m_io t) = port_out 0x378 (m_io s) @ concat (map cons_bytes pr) @ e"
proof -
  let ?u = "prints d pr s"
  have u: "talks input d b s pr ?u" "available input ?u = available input s" using prints_talks [OF assms(2,3)] by blast+
  then have ok: "crt_ok b ?u" "input_ok input d ?u" by (simp_all add: talks_def)
  have "holds_line buf [] ?u" by (simp add: holds_line_def)
  moreover have "edit_line [] (available input ?u) = Some (l, e, r)" using assms(1) u(2) by simp
  ultimately obtain t where t: "readline_loop d buf True 0 ?u = Some (Mem buf, t)" "session input d b ?u e t"
    "available input t = r" "cstr (m_mem t) (Mem buf) l"
    using readline_loop_edit [OF _ ok assms(4), of "[]"] by auto
  have "length l \<le> 1023" using edit_line_line [OF assms(1)] by simp
  then show ?thesis
    using t(1,3,4) session_def t(2) u(1) readline_prints [OF assms(2,5), of d buf] by (auto simp: session_def talks_def)
qed

lemma apart_sample: "apart 0x2000 (KERNBASE + CGA_BUF)"
proof -
  have "\<not> in_region 0xF00B8000 4000 a" if r: "in_region 0x2000 1024 a" for a :: u32
  proof -
    obtain i where i: "i < 1024" "a = 0x2000 + of_nat i" using r unfolding in_region_iff by blast
    then have "unat (a - 0xF00B8000) = 0xFF4A000 + i"
      by (simp add: unat_sub_if' unat_word_ariths unat_of_nat)
    then show ?thesis by (simp add: in_region_def)
  qed
  then show ?thesis by (simp add: apart_def KERNBASE_def CGA_BUF_def)
qed

theorem readline_edits_witness:
  "\<exists>t. readline (line_devices [104, 111, 8, 105, 13, 120]) 0x2000 (Lit ''> '' 0) blank_console = Some (Mem 0x2000, t)
    \<and> cstr (m_mem t) (Mem 0x2000) [104, 105] \<and> available [104, 111, 8, 105, 13, 120] t = [120]
    \<and> port_out 0x378 (m_io t) = [62, 32, 104, 111, 8, 105, 10]"
proof -
  let ?i = "[104, 111, 8, 105, 13, 120] :: u8 list"
  have i: "input_ok ?i (line_devices ?i) blank_console" "available ?i blank_console = ?i"
    using uart_line [of ?i] ring_ok_blank by (simp_all add: input_ok_def available_def waiting_def)
  then have e: "edit_line [] (available ?i blank_console) = Some ([104, 105], [104, 111, 8, 105, 10], [120])" by simp
  have "plain_str (bytes ''> '') = [62, 32]" by code_simp
  moreover have "arg_ok m R (Ptr (Lit ''> '' 0)) (SStr (bytes ''> ''))" for m R
    using readable_str_Lit [of "''> ''" m R] by (simp add: bytes_def)
  ultimately have "prompt_text m b (Lit ''> '' 0) [62, 32]" for m b
    by (auto simp: prompt_text_def intro!: exI [of _ "bytes ''> ''"] simp del: arg_ok.simps)
  from readline_edits [OF e crt_ok_blank i(1) apart_sample this] show ?thesis by (auto simp: cons_bytes_def)
qed

end
