(* ===== verification/JosKdebug.thy ===== *)
theory JosKdebug
  imports JosMmu JosString
begin

text \<open>
  \<^verbatim>\<open>src/kern/kdebug.c\<close>: finding the function, the file and the line of an instruction address
  in the kernel's STABS table. The table and the string table are placed by the linker and are
  parameters. An index outside the table, which the source does not check, and an overflow of
  the sum of two indices have the result None.

  The binary search is shown to return, for every table, and on a table that is sorted by
  address to return the last entry at or below the address and the place before the next one,
  provided that no entry has the very next address.
\<close>

section \<open>The table\<close>

record Stab =
  n_strx :: u32
  n_type :: u8
  n_other :: u8
  n_desc :: u16
  n_value :: u32

definition N_FUN :: u8 where "N_FUN = 0x24"
definition N_SLINE :: u8 where "N_SLINE = 0x44"
definition N_SO :: u8 where "N_SO = 0x64"
definition N_SOL :: u8 where "N_SOL = 0x84"
definition N_PSYM :: u8 where "N_PSYM = 0xa0"

definition stab_at :: "Stab list \<Rightarrow> int \<Rightarrow> Stab option" where
  "stab_at stabs i = (if 0 \<le> i \<and> i < int (length stabs) then Some (stabs ! nat i) else None)"

section \<open>The binary search\<close>

text \<open>Stepping down from \<open>m\<close>, as long as it is at least \<open>l\<close>, to an entry of the type.\<close>

function stab_back :: "Stab list \<Rightarrow> u8 \<Rightarrow> int \<Rightarrow> int \<Rightarrow> int option" where
  "stab_back stabs ty l m =
     (if m \<ge> l then
        (case stab_at stabs m of
           None \<Rightarrow> None
         | Some st \<Rightarrow> if n_type st \<noteq> ty then stab_back stabs ty l (m - 1) else Some m)
      else Some m)"
  by pat_completeness auto
termination by (relation "measure (\<lambda>(stabs, ty, l, m). nat (m - l + 1))") auto

declare stab_back.simps [simp del]

text \<open>The state of the loop: \<^verbatim>\<open>l\<close>, \<^verbatim>\<open>r\<close>, \<^verbatim>\<open>*region_left\<close>, \<^verbatim>\<open>*region_right\<close>, \<^verbatim>\<open>any_matches\<close>, \<^verbatim>\<open>addr\<close>.\<close>

record search =
  s_l :: int
  s_r :: int
  s_left :: int
  s_right :: int
  s_any :: bool
  s_addr :: u32

text \<open>One iteration.\<close>

definition search_step :: "Stab list \<Rightarrow> u8 \<Rightarrow> search \<Rightarrow> search option" where
  "search_step stabs ty s =
     (if s_l s + s_r s \<ge> 2147483648 then None
      else
        let true_m = (s_l s + s_r s) sdiv 2 in
        do { m \<leftarrow> stab_back stabs ty (s_l s) true_m;
             if m < s_l s then Some (s\<lparr>s_l := true_m + 1\<rparr>)
             else
               do { st \<leftarrow> stab_at stabs m;
                    let s = s\<lparr>s_any := True\<rparr>;
                    Some (if n_value st < s_addr s then s\<lparr>s_left := m, s_l := true_m + 1\<rparr>
                          else if n_value st > s_addr s then s\<lparr>s_right := m - 1, s_r := m - 1\<rparr>
                          else s\<lparr>s_left := m, s_l := m, s_addr := s_addr s + 1\<rparr>) } })"

partial_function (option) search_loop :: "Stab list \<Rightarrow> u8 \<Rightarrow> search \<Rightarrow> search option" where
  "search_loop stabs ty s =
     (if s_l s \<le> s_r s then do { s \<leftarrow> search_step stabs ty s; search_loop stabs ty s } else Some s)"

declare search_loop.simps [code]

text \<open>The final loop stops at \<^verbatim>\<open>*region_left\<close> in any case.\<close>

function search_last :: "Stab list \<Rightarrow> u8 \<Rightarrow> int \<Rightarrow> int \<Rightarrow> int option" where
  "search_last stabs ty left l =
     (if l > left then
        (case stab_at stabs l of
           None \<Rightarrow> None
         | Some st \<Rightarrow> if n_type st \<noteq> ty then search_last stabs ty left (l - 1) else Some l)
      else Some l)"
  by pat_completeness auto
termination by (relation "measure (\<lambda>(stabs, ty, left, l). nat (l - left))") auto

declare search_last.simps [simp del]

definition stab_binsearch :: "Stab list \<Rightarrow> int \<Rightarrow> int \<Rightarrow> u8 \<Rightarrow> u32 \<Rightarrow> (int \<times> int) option" where
  "stab_binsearch stabs left right ty addr =
     do { s \<leftarrow> search_loop stabs ty \<lparr>s_l = left, s_r = right, s_left = left, s_right = right,
                s_any = False, s_addr = addr\<rparr>;
          if \<not> s_any s then Some (s_left s, s_left s - 1)
          else do { l \<leftarrow> search_last stabs ty (s_left s) (s_right s); Some (l, s_right s) } }"

section \<open>Information about an address\<close>

record Eipdebuginfo =
  eip_file :: cptr
  eip_line :: int
  eip_fn_name :: cptr
  eip_fn_namelen :: int
  eip_fn_addr :: u32
  eip_fn_narg :: int

text \<open>The tables of the linker: the entries, and the bounds of the string table in memory.\<close>

record symtab =
  st_stabs :: "Stab list"
  st_str :: u32
  st_str_end :: u32

function file_back :: "Stab list \<Rightarrow> int \<Rightarrow> int \<Rightarrow> int option" where
  "file_back stabs lfile l =
     (if l \<ge> lfile then
        (case stab_at stabs l of
           None \<Rightarrow> None
         | Some st \<Rightarrow>
             if n_type st \<noteq> N_SOL \<and> (n_type st \<noteq> N_SO \<or> n_value st = 0)
             then file_back stabs lfile (l - 1) else Some l)
      else Some l)"
  by pat_completeness auto
termination by (relation "measure (\<lambda>(stabs, lfile, l). nat (l - lfile + 1))") auto

declare file_back.simps [simp del]

function count_args :: "Stab list \<Rightarrow> int \<Rightarrow> int \<Rightarrow> int \<Rightarrow> int option" where
  "count_args stabs rfun l narg =
     (if l < rfun then
        (case stab_at stabs l of
           None \<Rightarrow> None
         | Some st \<Rightarrow> if n_type st = N_PSYM then count_args stabs rfun (l + 1) (narg + 1) else Some narg)
      else Some narg)"
  by pat_completeness auto
termination by (relation "measure (\<lambda>(stabs, rfun, l, narg). nat (rfun - l))") auto

declare count_args.simps [simp del]

text \<open>
  The result is None for an access outside the tables, \<open>Inl\<close> for the call of \<^verbatim>\<open>panic\<close>, and
  otherwise the return value and what is stored through \<^verbatim>\<open>info\<close>.
\<close>

definition debuginfo_eip :: "symtab \<Rightarrow> mem \<Rightarrow> u32 \<Rightarrow> (string + int \<times> Eipdebuginfo) option" where
  "debuginfo_eip tab m addr =
     (let info = \<lparr>eip_file = Lit ''<unknown>'' 0, eip_line = 0, eip_fn_name = Lit ''<unknown>'' 0,
                  eip_fn_namelen = 9, eip_fn_addr = addr, eip_fn_narg = 0\<rparr>;
          stabs = st_stabs tab; stabstr = st_str tab; stabstr_end = st_str_end tab
      in if \<not> addr \<ge> ULIM then Some (Inl ''User address'')
      else if stabstr_end \<le> stabstr \<or> m (stabstr_end - 1) \<noteq> 0 then Some (Inr (- 1, info))
      else do {
        (lfile, rfile) \<leftarrow> stab_binsearch stabs 0 (int (length stabs) - 1) N_SO addr;
        if lfile = 0 then Some (Inr (- 1, info)) else do {
        (lfun, rfun) \<leftarrow> stab_binsearch stabs lfile rfile N_FUN addr;
        (info, addr, lline, rline) \<leftarrow>
          (if lfun \<le> rfun then
             do { st \<leftarrow> stab_at stabs lfun;
                  let info = (if n_strx st < stabstr_end - stabstr
                              then info\<lparr>eip_fn_name := Mem (stabstr + n_strx st)\<rparr> else info);
                  let info = info\<lparr>eip_fn_addr := n_value st\<rparr>;
                  Some (info, addr - eip_fn_addr info, lfun, rfun) }
           else Some (info\<lparr>eip_fn_addr := addr\<rparr>, addr, lfile, rfile));
        p \<leftarrow> strfind m (eip_fn_name info) 58;
        len \<leftarrow> pdiff p (eip_fn_name info);
        let info = info\<lparr>eip_fn_namelen := len\<rparr>;
        (lline, rline) \<leftarrow> stab_binsearch stabs lline rline N_SLINE addr;
        if lline > rline then Some (Inr (- 1, info)) else do {
        st \<leftarrow> stab_at stabs lline;
        let info = info\<lparr>eip_line := uint (n_desc st)\<rparr>;
        lline \<leftarrow> file_back stabs lfile lline;
        info \<leftarrow>
          (if lline \<ge> lfile then
             do { st \<leftarrow> stab_at stabs lline;
                  Some (if n_strx st < stabstr_end - stabstr
                        then info\<lparr>eip_file := Mem (stabstr + n_strx st)\<rparr> else info) }
           else Some info);
        narg \<leftarrow> (if lfun < rfun then count_args stabs rfun (lfun + 1) (eip_fn_narg info) else Some (eip_fn_narg info));
        Some (Inr (0, info\<lparr>eip_fn_narg := narg\<rparr>)) }}})"

section \<open>One iteration\<close>

definition has_type :: "Stab list \<Rightarrow> u8 \<Rightarrow> int \<Rightarrow> bool" where
  "has_type stabs ty i \<longleftrightarrow> 0 \<le> i \<and> i < int (length stabs) \<and> n_type (stabs ! nat i) = ty"

definition stab_val :: "Stab list \<Rightarrow> int \<Rightarrow> u32" where
  "stab_val stabs i = n_value (stabs ! nat i)"

lemma stab_at_in: "0 \<le> i \<Longrightarrow> i < int (length stabs) \<Longrightarrow> stab_at stabs i = Some (stabs ! nat i)"
  by (simp add: stab_at_def)

lemma stab_back_result:
  assumes "0 \<le> l" "m < int (length stabs)" "l \<le> m + 1"
  obtains k where "stab_back stabs ty l m = Some k" "l \<le> k + 1" "k \<le> m" "l \<le> k \<Longrightarrow> has_type stabs ty k"
    "\<And>i. k < i \<Longrightarrow> i \<le> m \<Longrightarrow> \<not> has_type stabs ty i"
  using assms
proof (induction stabs ty l m arbitrary: thesis rule: stab_back.induct)
  case (1 stabs ty l m)
  consider "m < l" | "l \<le> m" "n_type (stabs ! nat m) = ty" | "l \<le> m" "n_type (stabs ! nat m) \<noteq> ty" by linarith
  then show ?case
  proof cases
    case 1
    then show ?thesis using "1.prems"(4) by (intro "1.prems"(1) [of m]) (simp_all add: stab_back.simps)
  next
    case 2
    then show ?thesis using "1.prems"(2,3)
      by (intro "1.prems"(1) [of m]) (simp_all add: stab_back.simps stab_at_in has_type_def)
  next
    case 3
    have st: "stab_at stabs m = Some (stabs ! nat m)" using 3 "1.prems"(2,3) by (simp add: stab_at_in)
    obtain k where k: "stab_back stabs ty l (m - 1) = Some k" "l \<le> k + 1" "k \<le> m - 1" "l \<le> k \<Longrightarrow> has_type stabs ty k"
      "\<And>i. k < i \<Longrightarrow> i \<le> m - 1 \<Longrightarrow> \<not> has_type stabs ty i"
      using "1.IH" [OF 3(1) st 3(2)] "1.prems"(2,3) 3(1) by auto
    have "\<not> has_type stabs ty i" if "k < i" "i \<le> m" for i
      using k(5) [OF that(1)] that(2) 3(2) by (cases "i = m") (auto simp: has_type_def)
    moreover have "stab_back stabs ty l m = Some k" using 3 st k(1) by (simp add: stab_back.simps)
    ultimately show ?thesis using k by (intro "1.prems"(1) [of k]) auto
  qed
qed

lemma search_step_cases:
  assumes "0 \<le> s_l s" "s_l s \<le> s_r s" "s_r s < int (length stabs)" "length stabs \<le> 1073741824"
  obtains (none) tm where "s_l s \<le> tm" "tm \<le> s_r s" "\<And>i. s_l s \<le> i \<Longrightarrow> i \<le> tm \<Longrightarrow> \<not> has_type stabs ty i"
      "search_step stabs ty s = Some (s\<lparr>s_l := tm + 1\<rparr>)"
  | (below) m tm where "s_l s \<le> m" "m \<le> tm" "tm \<le> s_r s" "has_type stabs ty m"
      "\<And>i. m < i \<Longrightarrow> i \<le> tm \<Longrightarrow> \<not> has_type stabs ty i" "stab_val stabs m < s_addr s"
      "search_step stabs ty s = Some (s\<lparr>s_any := True, s_left := m, s_l := tm + 1\<rparr>)"
  | (above) m where "s_l s \<le> m" "m \<le> s_r s" "has_type stabs ty m" "s_addr s < stab_val stabs m"
      "search_step stabs ty s = Some (s\<lparr>s_any := True, s_right := m - 1, s_r := m - 1\<rparr>)"
  | (exact) m where "s_l s \<le> m" "m \<le> s_r s" "has_type stabs ty m" "stab_val stabs m = s_addr s"
      "search_step stabs ty s = Some (s\<lparr>s_any := True, s_left := m, s_l := m, s_addr := s_addr s + 1\<rparr>)"
proof -
  let ?tm = "(s_l s + s_r s) div 2"
  have sd: "(s_l s + s_r s) sdiv 2 = ?tm" using assms(1,2) by (simp add: signed_divide_int_def sgn_if)
  have tm: "s_l s \<le> ?tm" "?tm \<le> s_r s" using assms(2) by linarith+
  have nov: "\<not> s_l s + s_r s \<ge> 2147483648" using assms(2-4) by linarith
  have tl: "?tm < int (length stabs)" "s_l s \<le> ?tm + 1" using tm assms(3) by linarith+
  obtain k where k: "stab_back stabs ty (s_l s) ?tm = Some k" "s_l s \<le> k + 1" "k \<le> ?tm"
    "s_l s \<le> k \<Longrightarrow> has_type stabs ty k" "\<And>i. k < i \<Longrightarrow> i \<le> ?tm \<Longrightarrow> \<not> has_type stabs ty i"
    using stab_back_result [OF assms(1) tl, of ty] by metis
  show ?thesis
  proof (cases "k < s_l s")
    case True
    then have "search_step stabs ty s = Some (s\<lparr>s_l := ?tm + 1\<rparr>)"
      using nov k(1) by (simp add: search_step_def sd Let_def)
    then show ?thesis using tm k(5) True by (intro none [of ?tm]) auto
  next
    case False
    then have kl: "s_l s \<le> k" by simp
    then have at: "stab_at stabs k = Some (stabs ! nat k)" using assms(1) k(3) tl(1) by (intro stab_at_in) linarith+
    have eq: "search_step stabs ty s = Some (if stab_val stabs k < s_addr s then s\<lparr>s_any := True, s_left := k, s_l := ?tm + 1\<rparr>
        else if stab_val stabs k > s_addr s then s\<lparr>s_any := True, s_right := k - 1, s_r := k - 1\<rparr>
        else s\<lparr>s_any := True, s_left := k, s_l := k, s_addr := s_addr s + 1\<rparr>)"
      using nov k(1) False at by (simp add: search_step_def sd Let_def stab_val_def)
    have kr: "k \<le> s_r s" using k(3) tm(2) by linarith
    consider "stab_val stabs k < s_addr s" | "s_addr s < stab_val stabs k" | "stab_val stabs k = s_addr s"
      by (meson linorder_neqE)
    then show ?thesis
    proof cases
      case 1
      with eq show ?thesis by (intro below [OF kl k(3) tm(2) k(4) [OF kl] k(5)]) auto
    next
      case 2
      then have "\<not> stab_val stabs k < s_addr s" by simp
      with 2 eq show ?thesis by (intro above [OF kl kr k(4) [OF kl]]) auto
    next
      case 3
      with eq show ?thesis by (intro exact [OF kl kr k(4) [OF kl]]) auto
    qed
  qed
qed


section \<open>The loop returns\<close>

text \<open>
  An iteration that keeps both ends found an entry with the searched address at the left end; the
  address changes, so the next one does not.
\<close>

definition search_measure :: "Stab list \<Rightarrow> u8 \<Rightarrow> search \<Rightarrow> nat" where
  "search_measure stabs ty s =
     2 * nat (s_r s - s_l s + 1) + (if has_type stabs ty (s_l s) \<and> stab_val stabs (s_l s) = s_addr s then 1 else 0)"

lemma search_measure_shrinks:
  assumes "s_r s' - s_l s' < s_r s - s_l s" "s_l s \<le> s_r s"
  shows "search_measure stabs ty s' < search_measure stabs ty s"
  using assms by (auto simp: search_measure_def)

lemma search_step_decreases:
  assumes "0 \<le> s_l s" "s_l s \<le> s_r s" "s_r s < int (length stabs)" "length stabs \<le> 1073741824"
  obtains s' where "search_step stabs ty s = Some s'" "search_measure stabs ty s' < search_measure stabs ty s"
  using assms
proof (cases rule: search_step_cases [where ty = ty])
  case (none tm)
  then show ?thesis using assms(2) by (intro that [OF none(4)] search_measure_shrinks) simp_all
next
  case (below m tm)
  then show ?thesis using assms(2) by (intro that [OF below(7)] search_measure_shrinks) simp_all
next
  case (above m)
  then show ?thesis using assms(2) by (intro that [OF above(5)] search_measure_shrinks) simp_all
next
  case (exact m)
  show ?thesis
  proof (cases "m = s_l s")
    case True
    with exact show ?thesis by (intro that [OF exact(5)]) (simp add: search_measure_def)
  next
    case False
    with exact(1) show ?thesis using assms(2) by (intro that [OF exact(5)] search_measure_shrinks) simp_all
  qed
qed

text \<open>So every invariant of the iterations that bounds the ends holds after the loop.\<close>

lemma search_loop_rule:
  assumes "P s" and n: "length stabs \<le> 1073741824"
    and bounds: "\<And>s. P s \<Longrightarrow> 0 \<le> s_l s \<and> s_r s < int (length stabs)"
    and step: "\<And>s s'. P s \<Longrightarrow> s_l s \<le> s_r s \<Longrightarrow> search_step stabs ty s = Some s' \<Longrightarrow> P s'"
  obtains s' where "search_loop stabs ty s = Some s'" "P s'" "s_r s' < s_l s'"
  using assms(1)
proof (induction "search_measure stabs ty s" arbitrary: s thesis rule: less_induct)
  case less
  show ?case
  proof (cases "s_l s \<le> s_r s")
    case True
    obtain s1 where s1: "search_step stabs ty s = Some s1" "search_measure stabs ty s1 < search_measure stabs ty s"
      using search_step_decreases [of s stabs ty] bounds [OF less.prems(2)] True n by metis
    obtain s' where "search_loop stabs ty s1 = Some s'" "P s'" "s_r s' < s_l s'"
      using less.hyps [OF s1(2) _ step [OF less.prems(2) True s1(1)]] by metis
    then show ?thesis using True s1(1) by (intro less.prems(1)) (simp add: search_loop.simps [of stabs ty s])
  next
    case False
    then show ?thesis using less.prems by (simp add: search_loop.simps [of stabs ty s])
  qed
qed

section \<open>The invariant of the search\<close>

definition stabs_sorted :: "Stab list \<Rightarrow> u8 \<Rightarrow> int \<Rightarrow> int \<Rightarrow> bool" where
  "stabs_sorted stabs ty L R \<longleftrightarrow>
     (\<forall>i \<in> {L..R}. \<forall>j \<in> {i..R}. has_type stabs ty i \<longrightarrow> has_type stabs ty j \<longrightarrow> stab_val stabs i \<le> stab_val stabs j)"

definition search_inv :: "Stab list \<Rightarrow> u8 \<Rightarrow> int \<Rightarrow> int \<Rightarrow> u32 \<Rightarrow> search \<Rightarrow> bool" where
  "search_inv stabs ty L R A s \<longleftrightarrow>
     (L \<le> s_l s \<and> s_l s \<le> s_r s + 1 \<and> s_r s \<le> R \<and> s_right s = s_r s) \<and>
     (s_addr s = A \<or> s_addr s = A + 1) \<and>
     (\<forall>i. L \<le> i \<longrightarrow> i < s_l s \<longrightarrow> has_type stabs ty i \<longrightarrow> stab_val stabs i < s_addr s) \<and>
     (\<forall>i. s_r s < i \<longrightarrow> i \<le> R \<longrightarrow> has_type stabs ty i \<longrightarrow> A < stab_val stabs i) \<and>
     (s_left s = L \<or> L \<le> s_left s \<and> s_left s \<le> R \<and> has_type stabs ty (s_left s) \<and> stab_val stabs (s_left s) \<le> A) \<and>
     (s_r s = R \<or> has_type stabs ty (s_r s + 1)) \<and>
     (\<not> s_any s \<longrightarrow> s_left s = L \<and> s_r s = R \<and> (\<forall>i. L \<le> i \<longrightarrow> i < s_l s \<longrightarrow> \<not> has_type stabs ty i))"

lemma u32_less_Suc:
  fixes x A :: u32
  assumes "A \<noteq> - 1"
  shows "x < A + 1 \<longleftrightarrow> x \<le> A" "A < A + 1"
proof -
  have "1 + A \<noteq> 0" using assms by (metis add.commute add_eq_0_iff)
  then have "unat (A + 1) = Suc (unat A)" using unatSuc [of A] by (simp add: add.commute)
  then show "x < A + 1 \<longleftrightarrow> x \<le> A" "A < A + 1" by (auto simp: word_less_nat_alt word_le_nat_alt)
qed

lemma search_inv_step:
  assumes inv: "search_inv stabs ty L R A s" and le: "s_l s \<le> s_r s" and st: "search_step stabs ty s = Some s'"
    and L: "0 \<le> L" "R < int (length stabs)" "length stabs \<le> 1073741824"
    and sorted: "stabs_sorted stabs ty L R"
    and nxt: "\<And>i. L \<le> i \<Longrightarrow> i \<le> R \<Longrightarrow> has_type stabs ty i \<Longrightarrow> stab_val stabs i \<noteq> A + 1" and A: "A \<noteq> - 1"
  shows "search_inv stabs ty L R A s'"
proof -
  have r: "L \<le> s_l s" "s_r s \<le> R" using inv by (simp_all add: search_inv_def)
  then have b: "0 \<le> s_l s" "s_r s < int (length stabs)" using L by linarith+
  have sA: "s_addr s = A \<or> s_addr s = A + 1" using inv by (simp add: search_inv_def)
  then have leA: "x < s_addr s \<Longrightarrow> x \<le> A" for x using u32_less_Suc(1) [OF A, of x] by auto
  have gtA: "s_addr s < x \<Longrightarrow> A < x" for x using u32_less_Suc(2) [OF A] sA by auto
  have below_m: "stab_val stabs i \<le> stab_val stabs m"
    if "L \<le> i" "i \<le> m" "m \<le> R" "has_type stabs ty i" "has_type stabs ty m" for i m
    using sorted that by (auto simp: stabs_sorted_def)
  show ?thesis
  proof (rule search_step_cases [OF b(1) le b(2) L(3), of ty])
    fix tm assume tm: "s_l s \<le> tm" "tm \<le> s_r s" "\<And>i. s_l s \<le> i \<Longrightarrow> i \<le> tm \<Longrightarrow> \<not> has_type stabs ty i"
      "search_step stabs ty s = Some (s\<lparr>s_l := tm + 1\<rparr>)"
    have "\<not> has_type stabs ty i \<or> i < s_l s" if "i < tm + 1" for i using tm(3) [of i] that by linarith
    then show ?thesis using inv tm(1,2,4) st by (auto simp: search_inv_def)
  next
    fix m tm assume m: "s_l s \<le> m" "m \<le> tm" "tm \<le> s_r s" "has_type stabs ty m"
      "\<And>i. m < i \<Longrightarrow> i \<le> tm \<Longrightarrow> \<not> has_type stabs ty i" "stab_val stabs m < s_addr s"
      "search_step stabs ty s = Some (s\<lparr>s_any := True, s_left := m, s_l := tm + 1\<rparr>)"
    have "stab_val stabs i < s_addr s" if "L \<le> i" "i < tm + 1" "has_type stabs ty i" for i
    proof -
      have "i \<le> m" using m(5) [of i] that by linarith
      then show ?thesis using below_m [OF that(1) _ _ that(3) m(4)] m(2,3,6) r by fastforce
    qed
    then show ?thesis using inv m(1-4,7) st leA [OF m(6)] r by (auto simp: search_inv_def)
  next
    fix m assume m: "s_l s \<le> m" "m \<le> s_r s" "has_type stabs ty m" "s_addr s < stab_val stabs m"
      "search_step stabs ty s = Some (s\<lparr>s_any := True, s_right := m - 1, s_r := m - 1\<rparr>)"
    have "A < stab_val stabs i" if "m - 1 < i" "i \<le> R" "has_type stabs ty i" for i
      using below_m [of m i] gtA [OF m(4)] m(1,3) r that by fastforce
    then show ?thesis using inv m(1-3,5) st r by (auto simp: search_inv_def)
  next
    fix m assume m: "s_l s \<le> m" "m \<le> s_r s" "has_type stabs ty m" "stab_val stabs m = s_addr s"
      "search_step stabs ty s = Some (s\<lparr>s_any := True, s_left := m, s_l := m, s_addr := s_addr s + 1\<rparr>)"
    have sa: "s_addr s = A" using nxt [of m] m(1-4) r sA by auto
    have "stab_val stabs i < A + 1" if "L \<le> i" "i < m" "has_type stabs ty i" for i
      using below_m [of i m] m(2,3,4) r sa u32_less_Suc(1) [OF A] that by auto
    then show ?thesis using inv m(1-3,4,5) st r sa by (auto simp: search_inv_def)
  qed
qed


text \<open>What the final loop finds.\<close>

lemma search_last_result:
  assumes "0 \<le> left" "l < int (length stabs)"
  obtains k where "search_last stabs ty left l = Some k" "min left l \<le> k" "k \<le> l" "left < k \<Longrightarrow> has_type stabs ty k"
    "\<And>i. k < i \<Longrightarrow> i \<le> l \<Longrightarrow> \<not> has_type stabs ty i"
  using assms
proof (induction stabs ty left l arbitrary: thesis rule: search_last.induct)
  case (1 stabs ty left l)
  consider "l \<le> left" | "left < l" "n_type (stabs ! nat l) = ty" | "left < l" "n_type (stabs ! nat l) \<noteq> ty" by linarith
  then show ?case
  proof cases
    case 1
    then show ?thesis by (intro "1.prems"(1) [of l]) (simp_all add: search_last.simps)
  next
    case 2
    then show ?thesis using "1.prems"(2,3)
      by (intro "1.prems"(1) [of l]) (simp_all add: search_last.simps stab_at_in has_type_def)
  next
    case 3
    have st: "stab_at stabs l = Some (stabs ! nat l)" using 3 "1.prems"(2,3) by (simp add: stab_at_in)
    obtain k where k: "search_last stabs ty left (l - 1) = Some k" "min left (l - 1) \<le> k" "k \<le> l - 1"
      "left < k \<Longrightarrow> has_type stabs ty k" "\<And>i. k < i \<Longrightarrow> i \<le> l - 1 \<Longrightarrow> \<not> has_type stabs ty i"
      using "1.IH" [OF 3(1) st 3(2)] "1.prems"(2,3) 3(1) by auto
    have "\<not> has_type stabs ty i" if "k < i" "i \<le> l" for i
      using k(5) [OF that(1)] that(2) 3(2) by (cases "i = l") (auto simp: has_type_def)
    moreover have "search_last stabs ty left l = Some k" using 3 st k(1) by (simp add: search_last.simps)
    ultimately show ?thesis using k 3(1) by (intro "1.prems"(1) [of k]) auto
  qed
qed

definition search_start :: "int \<Rightarrow> int \<Rightarrow> u32 \<Rightarrow> search" where
  "search_start left right addr = \<lparr>s_l = left, s_r = right, s_left = left, s_right = right, s_any = False, s_addr = addr\<rparr>"

lemma stab_binsearch_start:
  "stab_binsearch stabs left right ty addr =
     do { s \<leftarrow> search_loop stabs ty (search_start left right addr);
          if \<not> s_any s then Some (s_left s, s_left s - 1)
          else do { l \<leftarrow> search_last stabs ty (s_left s) (s_right s); Some (l, s_right s) } }"
  by (simp add: stab_binsearch_def search_start_def)

text \<open>On every table, sorted or not, the search returns, and within the region.\<close>

definition search_bounded :: "int \<Rightarrow> int \<Rightarrow> search \<Rightarrow> bool" where
  "search_bounded L R s \<longleftrightarrow> L \<le> s_l s \<and> s_r s \<le> R \<and> s_right s \<le> R \<and> L \<le> s_left s \<and> s_left s \<le> max L R \<and> L - 1 \<le> s_right s"

lemma search_bounded_step:
  assumes b: "search_bounded L R s" and le: "s_l s \<le> s_r s" and st: "search_step stabs ty s = Some s'"
    and L: "0 \<le> L" "R < int (length stabs)" "length stabs \<le> 1073741824"
  shows "search_bounded L R s'"
proof -
  have "0 \<le> s_l s" "s_r s < int (length stabs)" using b L by (auto simp: search_bounded_def)
  then show ?thesis
    by (rule search_step_cases [OF _ le _ L(3), of ty]) (use b st le in \<open>auto simp: search_bounded_def\<close>)
qed

text \<open>The flag \<^verbatim>\<open>any_matches\<close> tells whether the region holds an entry of the type.\<close>

definition search_flag :: "Stab list \<Rightarrow> u8 \<Rightarrow> int \<Rightarrow> int \<Rightarrow> search \<Rightarrow> bool" where
  "search_flag stabs ty L R s \<longleftrightarrow>
     (if s_any s then \<exists>i \<in> {L..R}. has_type stabs ty i
      else s_left s = L \<and> s_r s = R \<and> (\<forall>i \<in> {L..<s_l s}. \<not> has_type stabs ty i))"

lemma search_flag_step:
  assumes b: "search_bounded L R s" "search_flag stabs ty L R s" and le: "s_l s \<le> s_r s" and st: "search_step stabs ty s = Some s'"
    and L: "0 \<le> L" "R < int (length stabs)" "length stabs \<le> 1073741824"
  shows "search_flag stabs ty L R s'"
proof -
  have in_table: "0 \<le> s_l s" "s_r s < int (length stabs)" and sl: "L \<le> s_l s" "s_r s \<le> R" using b L by (auto simp: search_bounded_def)
  from in_table(1) le in_table(2) L(3) show ?thesis
  proof (cases rule: search_step_cases [where ty = ty])
    case (none tm)
    have "\<not> has_type stabs ty i" if "i \<in> {L..<tm + 1}" "\<not> s_any s" for i
      using b(2) that none(3) [of i] by (cases "i < s_l s") (auto simp: search_flag_def)
    then show ?thesis using b(2) st none(4) by (auto simp: search_flag_def)
  next
    case (below m tm)
    then have "m \<in> {L..R}" using sl by auto
    then show ?thesis using st below(4,7) by (auto simp: search_flag_def)
  next
    case (above m)
    then have "m \<in> {L..R}" using sl by auto
    then show ?thesis using st above(3,5) by (auto simp: search_flag_def)
  next
    case (exact m)
    then have "m \<in> {L..R}" using sl by auto
    then show ?thesis using st exact(3,5) by (auto simp: search_flag_def)
  qed
qed

lemma stab_binsearch_result:
  assumes "0 \<le> L" "L \<le> R + 1" "R < int (length stabs)" "length stabs \<le> 1073741824"
  obtains l r where "stab_binsearch stabs L R ty addr = Some (l, r)"
    "(\<forall>i \<in> {L..R}. \<not> has_type stabs ty i) \<and> l = L \<and> r = L - 1 \<or>
     (\<exists>i \<in> {L..R}. has_type stabs ty i) \<and> (L \<le> l \<and> l \<le> r \<and> r \<le> R \<or> l = L - 1 \<and> r = L - 1)"
proof -
  let ?P = "\<lambda>s. search_bounded L R s \<and> search_flag stabs ty L R s"
  have start: "?P (search_start L R addr)" using assms(2) by (simp add: search_bounded_def search_flag_def search_start_def)
  have table: "0 \<le> s_l s \<and> s_r s < int (length stabs)" if "?P s" for s using that assms by (auto simp: search_bounded_def)
  have step: "?P s'" if "?P s" "s_l s \<le> s_r s" "search_step stabs ty s = Some s'" for s s'
    using search_bounded_step search_flag_step that assms(1,3,4) by blast
  obtain s where "search_loop stabs ty (search_start L R addr) = Some s" "?P s" "s_r s < s_l s"
    by (rule search_loop_rule [of ?P, OF start assms(4) table step])
  then have s: "search_loop stabs ty (search_start L R addr) = Some s" "search_bounded L R s" "search_flag stabs ty L R s" "s_r s < s_l s"
    by simp_all
  have b: "0 \<le> s_left s" "s_right s < int (length stabs)" using s(2) assms by (auto simp: search_bounded_def)
  obtain k where k: "search_last stabs ty (s_left s) (s_right s) = Some k" "min (s_left s) (s_right s) \<le> k" "k \<le> s_right s"
    using search_last_result [OF b, of ty] by metis
  show ?thesis
  proof (cases "s_any s")
    case False
    then have "s_left s = L" "\<forall>i \<in> {L..R}. \<not> has_type stabs ty i" using s(3,4) by (auto simp: search_flag_def)
    then show ?thesis using s(1) False by (intro that [of L "L - 1"]) (simp_all add: stab_binsearch_start)
  next
    case True
    have "L \<le> k \<and> k \<le> s_right s \<and> s_right s \<le> R \<or> k = L - 1 \<and> s_right s = L - 1"
      using s(2) k(2,3) by (auto simp: search_bounded_def min_def split: if_splits)
    then show ?thesis using s(1,3) k(1) True by (intro that [of k "s_right s"]) (simp_all add: stab_binsearch_start search_flag_def)
  qed
qed

lemma stab_binsearch_none:
  assumes "0 \<le> L" "L \<le> R + 1" "R < int (length stabs)" "length stabs \<le> 1073741824" "\<forall>i \<in> {L..R}. \<not> has_type stabs ty i"
  shows "stab_binsearch stabs L R ty addr = Some (L, L - 1)"
  using stab_binsearch_result [OF assms(1-4), of ty addr] assms(5) by metis

text \<open>(C35) The binary search of the symbol table ends on every table, also on one that is not sorted
  and for every address, and never reads outside the table. When the region has no entry of the
  type, the left result is where the region begins and the right one is the place before it. When
  it has one, either both results are inside the region, and the left one is at most the right one,
  or both are the place before the region: then the left one is outside, and does not exceed the
  right one although nothing was found.\<close>

theorem stab_binsearch_returns:
  assumes "0 \<le> left" "left \<le> right + 1" "right < int (length stabs)" "length stabs \<le> 1073741824"
  shows "\<exists>l r. stab_binsearch stabs left right ty addr = Some (l, r) \<and>
    (if \<exists>i \<in> {left..right}. has_type stabs ty i then left \<le> l \<and> l \<le> r \<and> r \<le> right \<or> l = left - 1 \<and> r = left - 1
     else l = left \<and> r = left - 1)"
  using stab_binsearch_result [OF assms, of ty addr] by metis

lemma stab_binsearch_returns_witness:
  "\<exists>l r. stab_binsearch [\<lparr>n_strx = 1, n_type = N_FUN, n_other = 0, n_desc = 0, n_value = 100\<rparr>] 0 0 N_FUN 200 = Some (l, r) \<and>
    (l = 0 \<and> r = 0 \<or> l = - 1 \<and> r = - 1)"
  using stab_binsearch_returns [of 0 0 "[\<lparr>n_strx = 1, n_type = N_FUN, n_other = 0, n_desc = 0, n_value = 100\<rparr>]" N_FUN 200]
  by (auto simp: has_type_def)

section \<open>What the search finds\<close>

lemma search_loop_inv:
  assumes "0 \<le> L" "L \<le> R + 1" "R < int (length stabs)" "length stabs \<le> 1073741824" "stabs_sorted stabs ty L R"
    "\<And>i. L \<le> i \<Longrightarrow> i \<le> R \<Longrightarrow> has_type stabs ty i \<Longrightarrow> stab_val stabs i \<noteq> A + 1" "A \<noteq> - 1"
  obtains s where "search_loop stabs ty (search_start L R A) = Some s" "search_inv stabs ty L R A s" "s_r s < s_l s"
proof -
  have init: "search_inv stabs ty L R A (search_start L R A)" using assms(2) by (simp add: search_inv_def search_start_def)
  have bounds: "0 \<le> s_l s \<and> s_r s < int (length stabs)" if "search_inv stabs ty L R A s" for s
    using that assms(1,3) by (auto simp: search_inv_def)
  have step: "search_inv stabs ty L R A s'"
    if "search_inv stabs ty L R A s" "s_l s \<le> s_r s" "search_step stabs ty s = Some s'" for s s'
    using search_inv_step [OF that assms(1,3,4,5,6,7)] .
  show ?thesis
    by (rule search_loop_rule [of "search_inv stabs ty L R A", OF init assms(4) bounds step that])
qed

text \<open>If \<open>k\<close> is the last entry at or below the address, the result is \<open>k\<close> and the place before the next one.\<close>

lemma stab_binsearch_last:
  assumes "0 \<le> L" "R < int (length stabs)" "length stabs \<le> 1073741824" "stabs_sorted stabs ty L R"
    "\<And>i. L \<le> i \<Longrightarrow> i \<le> R \<Longrightarrow> has_type stabs ty i \<Longrightarrow> stab_val stabs i \<noteq> A + 1" "A \<noteq> - 1"
    and k: "L \<le> k" "k \<le> R" "has_type stabs ty k" "stab_val stabs k \<le> A"
    and last: "\<And>i. k < i \<Longrightarrow> i \<le> R \<Longrightarrow> has_type stabs ty i \<Longrightarrow> A < stab_val stabs i"
  shows "\<exists>r. stab_binsearch stabs L R ty A = Some (k, r) \<and> k \<le> r \<and> r \<le> R \<and>
    (\<forall>i. k < i \<and> i \<le> r \<longrightarrow> \<not> has_type stabs ty i) \<and>
    (r = R \<or> has_type stabs ty (r + 1) \<and> A < stab_val stabs (r + 1))"
proof -
  have LR: "L \<le> R + 1" using k by linarith
  obtain s where s: "search_loop stabs ty (search_start L R A) = Some s" "search_inv stabs ty L R A s" "s_r s < s_l s"
    by (rule search_loop_inv [OF assms(1) LR assms(2-6)])
  note inv = s(2) [unfolded search_inv_def]
  have fin: "s_l s = s_r s + 1" "s_right s = s_r s" using inv s(3) by linarith+
  have low: "stab_val stabs i \<le> A" if "L \<le> i" "i \<le> s_r s" "has_type stabs ty i" for i
    using inv that fin u32_less_Suc(1) [OF assms(6), of "stab_val stabs i"] by auto
  have kr: "k \<le> s_r s" using inv k by (meson linorder_not_le)
  have any: "s_any s" using inv k kr fin by fastforce
  have none: "\<not> has_type stabs ty i" if "k < i" "i \<le> s_r s" for i
    using low [of i] last [of i] inv k that by fastforce
  have lk: "s_left s \<le> k" using inv k last by (meson linorder_not_le)
  have b: "0 \<le> s_left s" "s_right s < int (length stabs)" using inv assms(1,2) by linarith+
  obtain j where j: "search_last stabs ty (s_left s) (s_right s) = Some j" "min (s_left s) (s_right s) \<le> j" "j \<le> s_right s"
    "s_left s < j \<Longrightarrow> has_type stabs ty j" "\<And>i. j < i \<Longrightarrow> i \<le> s_right s \<Longrightarrow> \<not> has_type stabs ty i"
    using search_last_result [OF b, of ty] by metis
  have "j = k" using j(2-5) none lk kr k fin by (metis linorder_less_linear min.absorb1 order_trans order_le_less)
  moreover have "s_r s = R \<or> has_type stabs ty (s_r s + 1) \<and> A < stab_val stabs (s_r s + 1)" using inv by fastforce
  ultimately show ?thesis
    using s(1) any j(1) fin kr none inv by (intro exI [of _ "s_r s"]) (auto simp: stab_binsearch_start)
qed


text \<open>The result as a predicate: \<open>k\<close> is the entry and \<open>r\<close> the end of what it covers.\<close>

definition stab_region :: "Stab list \<Rightarrow> int \<Rightarrow> int \<Rightarrow> u8 \<Rightarrow> u32 \<Rightarrow> int \<Rightarrow> int \<Rightarrow> bool" where
  "stab_region stabs L R ty A k r \<longleftrightarrow>
     L \<le> k \<and> k \<le> r \<and> r \<le> R \<and> has_type stabs ty k \<and> stab_val stabs k \<le> A \<and>
     (\<forall>i \<in> {k + 1..r}. \<not> has_type stabs ty i) \<and>
     (r = R \<or> has_type stabs ty (r + 1) \<and> A < stab_val stabs (r + 1))"

definition stab_searchable :: "Stab list \<Rightarrow> int \<Rightarrow> int \<Rightarrow> u8 \<Rightarrow> u32 \<Rightarrow> bool" where
  "stab_searchable stabs L R ty A \<longleftrightarrow>
     0 \<le> L \<and> R < int (length stabs) \<and> stabs_sorted stabs ty L R \<and> A \<noteq> - 1 \<and>
     (\<forall>i \<in> {L..R}. has_type stabs ty i \<longrightarrow> stab_val stabs i \<noteq> A + 1)"

lemma stab_region_last:
  assumes "stab_searchable stabs L R ty A" "stab_region stabs L R ty A k r" "k < i" "i \<le> R" "has_type stabs ty i"
  shows "A < stab_val stabs i"
proof -
  note G = assms(2) [unfolded stab_region_def]
  have "r < i" using G assms(3,5) by (force simp: not_le)
  then have r1: "has_type stabs ty (r + 1)" "A < stab_val stabs (r + 1)" "r + 1 \<le> i" using G assms(4) by auto
  then have "stab_val stabs (r + 1) \<le> stab_val stabs i"
    using assms(1,4,5) G by (auto simp: stabs_sorted_def stab_searchable_def)
  then show ?thesis using r1(2) by order
qed

text \<open>(C33) On a table whose entries of the type are sorted by address in the searched region, if an
  entry is the last one at or below the address, and no entry has the very next address, then the
  binary search returns that entry and the place just before the next entry of the type, or the
  end of the region where there is none.\<close>

theorem stab_binsearch_region:
  assumes "stab_searchable stabs L R ty A" "stab_region stabs L R ty A k r" "length stabs \<le> 1073741824"
  shows "stab_binsearch stabs L R ty A = Some (k, r)"
proof -
  note S = assms(1) [unfolded stab_searchable_def]
  note G = assms(2) [unfolded stab_region_def]
  have *: "0 \<le> L" "R < int (length stabs)" "stabs_sorted stabs ty L R" "A \<noteq> - 1" "L \<le> k" "k \<le> R"
    "has_type stabs ty k" "stab_val stabs k \<le> A" using S G by auto
  have nxt: "stab_val stabs i \<noteq> A + 1" if "L \<le> i" "i \<le> R" "has_type stabs ty i" for i using S that by auto
  obtain q where q: "stab_binsearch stabs L R ty A = Some (k, q)" "k \<le> q" "q \<le> R"
    "\<forall>i. k < i \<and> i \<le> q \<longrightarrow> \<not> has_type stabs ty i" "q = R \<or> has_type stabs ty (q + 1)"
    using stab_binsearch_last [OF *(1,2) assms(3) *(3) nxt *(4-8) stab_region_last [OF assms(1,2)]] by blast
  have "\<not> q < r"
  proof
    assume "q < r"
    then have "has_type stabs ty (q + 1)" "q + 1 \<in> {k + 1..r}" using q(2,5) G by auto
    then show False using G by blast
  qed
  moreover have "\<not> r < q"
  proof
    assume "r < q"
    then have "has_type stabs ty (r + 1)" "k < r + 1 \<and> r + 1 \<le> q" using q(3) G by auto
    then show False using q(4) by blast
  qed
  ultimately show ?thesis using q(1) by simp
qed

definition sample_stabs :: "Stab list" where
  "sample_stabs = [\<lparr>n_strx = 1, n_type = N_SO, n_other = 0, n_desc = 0, n_value = 0xf0100000\<rparr>,
     \<lparr>n_strx = 1, n_type = N_SO, n_other = 0, n_desc = 0, n_value = 0xf0100040\<rparr>,
     \<lparr>n_strx = 5, n_type = N_FUN, n_other = 0, n_desc = 0, n_value = 0xf0100040\<rparr>,
     \<lparr>n_strx = 10, n_type = N_PSYM, n_other = 0, n_desc = 0, n_value = 8\<rparr>,
     \<lparr>n_strx = 0, n_type = N_SLINE, n_other = 0, n_desc = 12, n_value = 0\<rparr>,
     \<lparr>n_strx = 0, n_type = N_SLINE, n_other = 0, n_desc = 13, n_value = 16\<rparr>,
     \<lparr>n_strx = 1, n_type = N_SO, n_other = 0, n_desc = 0, n_value = 0xf0100100\<rparr>]"


lemma length_sample: "length sample_stabs = 7"
  by (simp add: sample_stabs_def)

lemma sample_types:
  "has_type sample_stabs ty 0 \<longleftrightarrow> ty = N_SO" "has_type sample_stabs ty 1 \<longleftrightarrow> ty = N_SO"
  "has_type sample_stabs ty 2 \<longleftrightarrow> ty = N_FUN" "has_type sample_stabs ty 3 \<longleftrightarrow> ty = N_PSYM"
  "has_type sample_stabs ty 4 \<longleftrightarrow> ty = N_SLINE" "has_type sample_stabs ty 5 \<longleftrightarrow> ty = N_SLINE"
  "has_type sample_stabs ty 6 \<longleftrightarrow> ty = N_SO"
  by (auto simp: has_type_def sample_stabs_def)

lemma sample_vals:
  "stab_val sample_stabs 0 = 0xf0100000" "stab_val sample_stabs 1 = 0xf0100040" "stab_val sample_stabs 2 = 0xf0100040"
  "stab_val sample_stabs 4 = 0" "stab_val sample_stabs 5 = 16" "stab_val sample_stabs 6 = 0xf0100100"
  by (simp_all add: stab_val_def sample_stabs_def)

lemma sample_ranges:
  "{0..6} = {0, 1, 2, 3, 4, 5, 6 :: int}" "{1..6} = {1, 2, 3, 4, 5, 6 :: int}" "{2..6} = {2, 3, 4, 5, 6 :: int}"
  "{3..6} = {3, 4, 5, 6 :: int}" "{4..6} = {4, 5, 6 :: int}" "{5..6} = {5, 6 :: int}"
  "{1..5} = {1, 2, 3, 4, 5 :: int}" "{2..5} = {2, 3, 4, 5 :: int}" "{3..5} = {3, 4, 5 :: int}" "{4..5} = {4, 5 :: int}"
  by auto

lemmas sample_simps = sample_types sample_vals sample_ranges N_SO_def N_FUN_def N_SLINE_def N_PSYM_def N_SOL_def

lemma stab_binsearch_region_witness: "stab_binsearch sample_stabs 0 6 N_SO 0xf0100050 = Some (1, 5)"
proof (rule stab_binsearch_region)
  show "stab_searchable sample_stabs 0 6 N_SO 0xf0100050"
    by (simp add: stab_searchable_def stabs_sorted_def sample_simps length_sample)
  show "stab_region sample_stabs 0 6 N_SO 0xf0100050 1 5"
    by (simp add: stab_region_def sample_simps)
  show "length sample_stabs \<le> 1073741824" by (simp add: length_sample)
qed

section \<open>What the search misses\<close>

text \<open>An address below every entry of the type is reported as found, contrary to the comment: the
  left end does not exceed the right end. The result is the place before the first entry.\<close>

theorem stab_binsearch_before_first:
  assumes "stab_searchable stabs L R ty A" "length stabs \<le> 1073741824"
    and f: "L \<le> f" "f \<le> R" "has_type stabs ty f" "\<forall>i \<in> {L..f - 1}. \<not> has_type stabs ty i"
    and above: "\<forall>i \<in> {L..R}. has_type stabs ty i \<longrightarrow> A < stab_val stabs i"
  shows "stab_binsearch stabs L R ty A = Some (min L (f - 1), f - 1) \<and> min L (f - 1) \<le> f - 1"
proof -
  note S = assms(1) [unfolded stab_searchable_def]
  have *: "0 \<le> L" "L \<le> R + 1" "R < int (length stabs)" "stabs_sorted stabs ty L R" "A \<noteq> - 1" using S f by auto
  have nxt: "stab_val stabs i \<noteq> A + 1" if "L \<le> i" "i \<le> R" "has_type stabs ty i" for i using S that by auto
  obtain s where s: "search_loop stabs ty (search_start L R A) = Some s" "search_inv stabs ty L R A s" "s_r s < s_l s"
    by (rule search_loop_inv [OF *(1,2,3) assms(2) *(4) nxt *(5)])
  note inv = s(2) [unfolded search_inv_def]
  have fin: "s_l s = s_r s + 1" "s_right s = s_r s" using inv s(3) by linarith+
  have none: "\<not> has_type stabs ty i" if "L \<le> i" "i \<le> s_r s" for i
  proof
    assume i: "has_type stabs ty i"
    then have "stab_val stabs i \<le> A"
      using inv that fin u32_less_Suc(1) [OF *(5), of "stab_val stabs i"] by auto
    moreover have "A < stab_val stabs i" using above i that inv by auto
    ultimately show False by order
  qed
  have left: "s_left s = L" using inv above by fastforce
  have "s_r s < f" using none [of f] f by linarith
  moreover have "\<not> s_r s < f - 1"
  proof
    assume lt: "s_r s < f - 1"
    then have "has_type stabs ty (s_r s + 1)" "L \<le> s_r s + 1" using inv f(2) fin by auto
    then show False using f(4) lt by auto
  qed
  ultimately have r: "s_r s = f - 1" by simp
  have any: "s_any s" using inv f r by auto
  obtain k where k: "search_last stabs ty L (f - 1) = Some k" "min L (f - 1) \<le> k" "k \<le> f - 1" "L < k \<Longrightarrow> has_type stabs ty k"
    using search_last_result [of L "f - 1" stabs ty] * f by auto
  have "k = min L (f - 1)" using k(2-4) f(4) by (cases "L < k") auto
  then show ?thesis using s(1) any k(1) r left fin by (simp add: stab_binsearch_start)
qed

lemma stab_binsearch_before_first_witness: "stab_binsearch sample_stabs 1 6 N_FUN 0xf0000000 = Some (1, 1)"
proof -
  have "stab_searchable sample_stabs 1 6 N_FUN 0xf0000000"
    by (simp add: stab_searchable_def stabs_sorted_def sample_simps length_sample)
  then show ?thesis
    using stab_binsearch_before_first [of sample_stabs 1 6 N_FUN "0xf0000000" 2]
    by (simp add: sample_simps length_sample)
qed


text \<open>
  An entry with the very next address is taken for a match of the incremented address: of two
  functions one byte apart, the search for the first finds the second.
\<close>

lemma stab_binsearch_next_address:
  "stab_binsearch [\<lparr>n_strx = 1, n_type = N_FUN, n_other = 0, n_desc = 0, n_value = 100\<rparr>,
     \<lparr>n_strx = 2, n_type = N_FUN, n_other = 0, n_desc = 0, n_value = 101\<rparr>] 0 1 N_FUN 100 = Some (1, 1)"
  by code_simp

section \<open>Information about an address\<close>

lemma ULIM_value: "ULIM = 0xef800000"
  by code_simp

text \<open>The first check: addresses of user space.\<close>

lemma debuginfo_eip_user: "addr < ULIM \<Longrightarrow> debuginfo_eip tab m addr = Some (Inl ''User address'')"
  by (auto simp: debuginfo_eip_def Let_def)

definition file_stab :: "Stab list \<Rightarrow> int \<Rightarrow> bool" where
  "file_stab stabs i \<longleftrightarrow> has_type stabs N_SOL i \<or> has_type stabs N_SO i \<and> stab_val stabs i \<noteq> 0"

lemma file_back_finds:
  assumes "0 \<le> lfile" "l < int (length stabs)" "lfile \<le> f" "f \<le> l" "file_stab stabs f" "\<forall>i \<in> {f + 1..l}. \<not> file_stab stabs i"
  shows "file_back stabs lfile l = Some f"
  using assms
proof (induction stabs lfile l rule: file_back.induct)
  case (1 stabs lfile l)
  have l: "l \<ge> lfile" "0 \<le> l" using "1.prems" by linarith+
  have st: "stab_at stabs l = Some (stabs ! nat l)" using l "1.prems"(2) by (simp add: stab_at_in)
  have fs: "file_stab stabs l \<longleftrightarrow> \<not> (n_type (stabs ! nat l) \<noteq> N_SOL \<and> (n_type (stabs ! nat l) \<noteq> N_SO \<or> n_value (stabs ! nat l) = 0))"
    using l "1.prems"(2) by (auto simp: file_stab_def has_type_def stab_val_def)
  show ?case
  proof (cases "f = l")
    case True
    then show ?thesis using fs l st "1.prems"(5) by (auto simp: file_back.simps [of stabs lfile l])
  next
    case False
    then have "\<not> file_stab stabs l" using "1.prems"(4,6) by auto
    then have c: "n_type (stabs ! nat l) \<noteq> N_SOL \<and> (n_type (stabs ! nat l) \<noteq> N_SO \<or> n_value (stabs ! nat l) = 0)" using fs by simp
    have "file_back stabs lfile (l - 1) = Some f"
      by (rule "1.IH" [OF l(1) st c]) (use "1.prems" False in auto)
    then show ?thesis using c l st by (simp add: file_back.simps [of stabs lfile l])
  qed
qed

lemma count_args_counts:
  assumes "0 \<le> l" "rfun \<le> int (length stabs)"
  shows "count_args stabs rfun l n = Some (n + int (length (takeWhile (has_type stabs N_PSYM) [l..rfun - 1])))"
  using assms
proof (induction stabs rfun l n rule: count_args.induct)
  case (1 stabs rfun l n)
  show ?case
  proof (cases "l < rfun")
    case True
    have st: "stab_at stabs l = Some (stabs ! nat l)" using True "1.prems" by (simp add: stab_at_in)
    have h: "has_type stabs N_PSYM l \<longleftrightarrow> n_type (stabs ! nat l) = N_PSYM" using True "1.prems" by (auto simp: has_type_def)
    have u: "[l..rfun - 1] = l # [l + 1..rfun - 1]" using True by (simp add: upto_rec1)
    show ?thesis
      using True st h u "1.IH" [OF True st] "1.prems" by (simp add: count_args.simps [of stabs rfun l n])
  qed (simp add: count_args.simps [of stabs rfun l n])
qed


text \<open>(C34) For a kernel address, when the tables hold a source file other than the first entry, a
  function in it and a line in the function, each the last one at or below the address,
  \<^verbatim>\<open>debuginfo_eip\<close> returns 0 with the start and the name of the function (the name ending before
  the colon), its number of parameters, the line, and the name of the last source file entry
  before the line, which may be that of an included file.\<close>

theorem debuginfo_eip_finds:
  assumes len: "length stabs \<le> 1073741824" and addr: "ULIM \<le> addr"
    and str: "lo < hi" "m (hi - 1) = 0"
    and so: "stab_searchable stabs 0 (int (length stabs) - 1) N_SO addr"
      "stab_region stabs 0 (int (length stabs) - 1) N_SO addr kf rf" "kf \<noteq> 0"
    and func: "stab_searchable stabs kf rf N_FUN addr" "stab_region stabs kf rf N_FUN addr kg rg"
    and line: "stab_searchable stabs kg rg N_SLINE (addr - stab_val stabs kg)"
      "stab_region stabs kg rg N_SLINE (addr - stab_val stabs kg) kl rl"
    and src: "kf \<le> f" "f \<le> kl" "file_stab stabs f" "\<forall>i \<in> {f + 1..kl}. \<not> file_stab stabs i"
      "n_strx (stabs ! nat f) < hi - lo"
    and name: "n_strx (stabs ! nat kg) < hi - lo" "cstr m (Mem (lo + n_strx (stabs ! nat kg))) name"
      "length name < 2147483648"
  shows "debuginfo_eip \<lparr>st_stabs = stabs, st_str = lo, st_str_end = hi\<rparr> m addr = Some (Inr (0,
    \<lparr>eip_file = Mem (lo + n_strx (stabs ! nat f)), eip_line = uint (n_desc (stabs ! nat kl)),
     eip_fn_name = Mem (lo + n_strx (stabs ! nat kg)),
     eip_fn_namelen = int (length (takeWhile (\<lambda>c. c \<noteq> 58) name)),
     eip_fn_addr = stab_val stabs kg,
     eip_fn_narg = int (length (takeWhile (has_type stabs N_PSYM) [kg + 1..rg - 1]))\<rparr>))"
proof -
  note bs = stab_binsearch_region [OF so(1,2) len] stab_binsearch_region [OF func len] stab_binsearch_region [OF line len]
  have ord: "0 \<le> kf" "kf \<le> kg" "kg \<le> kl" "kl \<le> rl" "rl \<le> rg" "rg \<le> rf" "rf < int (length stabs)"
    using so(2) func(2) line(2) by (auto simp: stab_region_def)
  have at: "stab_at stabs kg = Some (stabs ! nat kg)" "stab_at stabs kl = Some (stabs ! nat kl)"
    "stab_at stabs f = Some (stabs ! nat f)"
    using ord src(1,2) by (simp_all add: stab_at_in)
  have fb: "file_back stabs kf kl = Some f" using file_back_finds [OF ord(1) _ src(1-4)] ord by simp
  have na: "count_args stabs rg (kg + 1) 0 = Some (int (length (takeWhile (has_type stabs N_PSYM) [kg + 1..rg - 1])))"
    using count_args_counts [of "kg + 1" rg stabs 0] ord by simp
  have tw: "length (takeWhile (\<lambda>c. c \<noteq> 58) name) < 2147483648"
    using name(3) length_takeWhile_le [of "\<lambda>c. c \<noteq> 58" name] by linarith
  have sf: "strfind m (Mem (lo + n_strx (stabs ! nat kg))) 58 =
      Some (Mem (lo + n_strx (stabs ! nat kg) + of_nat (length (takeWhile (\<lambda>c. c \<noteq> 58) name))))"
    using strfind_cstr [OF name(2), of 58] by simp
  have lt: "\<not> hi \<le> lo" using str(1) by simp
  have sv: "n_value (stabs ! nat kg) = stab_val stabs kg" by (simp add: stab_val_def)
  show ?thesis
    using addr lt str(2) so(3) bs ord src name at fb tw sf na
    by (simp add: debuginfo_eip_def Let_def sv sint_of_nat_small)
qed


lemma debuginfo_eip_finds_witness:
  "debuginfo_eip \<lparr>st_stabs = sample_stabs, st_str = 0x1000, st_str_end = 0x1010\<rparr>
     ((\<lambda>_. 0)(0x1005 := 102, 0x1006 := 58, 0x1007 := 70)) 0xf0100050 =
   Some (Inr (0, \<lparr>eip_file = Mem 0x1001, eip_line = 13, eip_fn_name = Mem 0x1005, eip_fn_namelen = 1,
     eip_fn_addr = 0xf0100040, eip_fn_narg = 1\<rparr>))"
proof -
  let ?m = "(\<lambda>_. 0)(0x1005 := 102, 0x1006 := 58, 0x1007 := 70) :: mem"
  note search = stab_searchable_def stabs_sorted_def stab_region_def sample_simps length_sample
  have so: "stab_searchable sample_stabs 0 6 N_SO 0xf0100050" "stab_region sample_stabs 0 6 N_SO 0xf0100050 1 5"
    by (simp_all add: search)
  have func: "stab_searchable sample_stabs 1 5 N_FUN 0xf0100050" "stab_region sample_stabs 1 5 N_FUN 0xf0100050 2 5"
    by (simp_all add: search)
  have line: "stab_searchable sample_stabs 2 5 N_SLINE 0x10" "stab_region sample_stabs 2 5 N_SLINE 0x10 5 5"
    by (simp_all add: search)
  have src: "file_stab sample_stabs 1" "\<forall>i \<in> {1 + 1..5}. \<not> file_stab sample_stabs i"
    by (simp_all add: file_stab_def sample_simps)
  have nth: "sample_stabs ! Suc 0 = \<lparr>n_strx = 1, n_type = N_SO, n_other = 0, n_desc = 0, n_value = 0xf0100040\<rparr>"
    "sample_stabs ! 2 = \<lparr>n_strx = 5, n_type = N_FUN, n_other = 0, n_desc = 0, n_value = 0xf0100040\<rparr>"
    "sample_stabs ! 5 = \<lparr>n_strx = 0, n_type = N_SLINE, n_other = 0, n_desc = 13, n_value = 16\<rparr>"
    by (simp_all add: sample_stabs_def)
  have psym: "[3..4] = [3, 4 :: int]"
    by (simp add: upto.simps)
  show ?thesis
    using debuginfo_eip_finds [of sample_stabs "0xf0100050" "0x1000" "0x1010" ?m 1 5 2 5 5 5 1 "[102, 58, 70]"]
      so func line src psym
    by (simp add: length_sample sample_simps nth ULIM_value)
qed

text \<open>A file without functions, as the assembler makes them: \<^verbatim>\<open>debuginfo_eip\<close> up to the search for the line.\<close>

lemma debuginfo_eip_no_function:
  assumes len: "length stabs \<le> 1073741824" and addr: "ULIM \<le> addr" and str: "lo < hi" "m (hi - 1) = 0"
    and so: "stab_searchable stabs 0 (int (length stabs) - 1) N_SO addr"
      "stab_region stabs 0 (int (length stabs) - 1) N_SO addr kf rf" "kf \<noteq> 0"
    and func: "\<forall>i \<in> {kf..rf}. \<not> has_type stabs N_FUN i"
    and line: "stab_binsearch stabs kf rf N_SLINE addr = Some (kl, rl)"
  shows "debuginfo_eip \<lparr>st_stabs = stabs, st_str = lo, st_str_end = hi\<rparr> m addr =
    (let info = \<lparr>eip_file = Lit ''<unknown>'' 0, eip_line = 0, eip_fn_name = Lit ''<unknown>'' 0, eip_fn_namelen = 9,
                 eip_fn_addr = addr, eip_fn_narg = 0\<rparr>
     in if kl > rl then Some (Inr (- 1, info))
     else do { st \<leftarrow> stab_at stabs kl; l \<leftarrow> file_back stabs kf kl;
               info \<leftarrow> (if l \<ge> kf then
                    do { sf \<leftarrow> stab_at stabs l; Some (if n_strx sf < hi - lo then info\<lparr>eip_line := uint (n_desc st), eip_file := Mem (lo + n_strx sf)\<rparr>
                           else info\<lparr>eip_line := uint (n_desc st)\<rparr>) }
                  else Some (info\<lparr>eip_line := uint (n_desc st)\<rparr>));
               Some (Inr (0, info)) })"
proof -
  have ord: "0 \<le> kf" "kf \<le> rf + 1" "rf < int (length stabs)" using so(2) by (auto simp: stab_region_def)
  note bs = stab_binsearch_region [OF so(1,2) len] stab_binsearch_none [OF ord len func] line
  have "cstr m (Lit ''<unknown>'' 0) (bytes ''<unknown>'')" by (rule cstr_Lit) simp
  then have sf: "strfind m (Lit ''<unknown>'' 0) 58 = Some (Lit ''<unknown>'' 9)"
    using strfind_cstr [of m "Lit ''<unknown>'' 0" "bytes ''<unknown>''" 58] by (simp add: bytes_def)
  have lt: "\<not> hi \<le> lo" using str(1) by simp
  show ?thesis using addr lt str(2) so(3) bs sf by (simp add: debuginfo_eip_def Let_def cong: if_cong)
qed

text \<open>(C36) For a kernel address in a source file without functions, as the assembler makes them,
  \<^verbatim>\<open>debuginfo_eip\<close> searches the whole file for the line. When the file has no line entries it
  returns -1, and has stored neither a file nor a line nor a function, but the address. When it has
  one at or below the address, it returns 0 with that line, the name of the last source file entry
  before it, no function, and the address itself as the start.\<close>

theorem debuginfo_eip_assembly:
  assumes len: "length stabs \<le> 1073741824" and addr: "ULIM \<le> addr" and str: "lo < hi" "m (hi - 1) = 0"
    and so: "stab_searchable stabs 0 (int (length stabs) - 1) N_SO addr"
      "stab_region stabs 0 (int (length stabs) - 1) N_SO addr kf rf" "kf \<noteq> 0"
    and func: "\<forall>i \<in> {kf..rf}. \<not> has_type stabs N_FUN i"
  shows "((\<forall>i \<in> {kf..rf}. \<not> has_type stabs N_SLINE i) \<longrightarrow>
      debuginfo_eip \<lparr>st_stabs = stabs, st_str = lo, st_str_end = hi\<rparr> m addr = Some (Inr (- 1,
        \<lparr>eip_file = Lit ''<unknown>'' 0, eip_line = 0, eip_fn_name = Lit ''<unknown>'' 0, eip_fn_namelen = 9,
         eip_fn_addr = addr, eip_fn_narg = 0\<rparr>))) \<and>
    (\<forall>kl rl f. stab_searchable stabs kf rf N_SLINE addr \<longrightarrow> stab_region stabs kf rf N_SLINE addr kl rl \<longrightarrow>
      kf \<le> f \<longrightarrow> f \<le> kl \<longrightarrow> file_stab stabs f \<longrightarrow> (\<forall>i \<in> {f + 1..kl}. \<not> file_stab stabs i) \<longrightarrow> n_strx (stabs ! nat f) < hi - lo \<longrightarrow>
      debuginfo_eip \<lparr>st_stabs = stabs, st_str = lo, st_str_end = hi\<rparr> m addr = Some (Inr (0,
        \<lparr>eip_file = Mem (lo + n_strx (stabs ! nat f)), eip_line = uint (n_desc (stabs ! nat kl)),
         eip_fn_name = Lit ''<unknown>'' 0, eip_fn_namelen = 9, eip_fn_addr = addr, eip_fn_narg = 0\<rparr>)))"
proof (intro conjI impI allI)
  have ord: "0 \<le> kf" "kf \<le> rf + 1" "rf < int (length stabs)" using so(2) by (auto simp: stab_region_def)
  note run = debuginfo_eip_no_function [of stabs addr lo hi m kf rf, OF len addr str so func]
  {
    assume "\<forall>i \<in> {kf..rf}. \<not> has_type stabs N_SLINE i"
    from run [OF stab_binsearch_none [OF ord len this]]
    show "debuginfo_eip \<lparr>st_stabs = stabs, st_str = lo, st_str_end = hi\<rparr> m addr = Some (Inr (- 1,
        \<lparr>eip_file = Lit ''<unknown>'' 0, eip_line = 0, eip_fn_name = Lit ''<unknown>'' 0, eip_fn_namelen = 9,
         eip_fn_addr = addr, eip_fn_narg = 0\<rparr>))" by simp
  next
    fix kl rl f
    assume line: "stab_searchable stabs kf rf N_SLINE addr" "stab_region stabs kf rf N_SLINE addr kl rl"
      and src: "kf \<le> f" "f \<le> kl" "file_stab stabs f" "\<forall>i \<in> {f + 1..kl}. \<not> file_stab stabs i" "n_strx (stabs ! nat f) < hi - lo"
    have k: "kf \<le> kl" "kl \<le> rl" "rl \<le> rf" using line(2) by (auto simp: stab_region_def)
    have at: "stab_at stabs kl = Some (stabs ! nat kl)" "stab_at stabs f = Some (stabs ! nat f)"
      using ord k src(1,2) by (simp_all add: stab_at_in)
    have fb: "file_back stabs kf kl = Some f" using file_back_finds [OF ord(1) _ src(1-4)] ord k by simp
    from run [OF stab_binsearch_region [OF line len]]
    show "debuginfo_eip \<lparr>st_stabs = stabs, st_str = lo, st_str_end = hi\<rparr> m addr = Some (Inr (0,
        \<lparr>eip_file = Mem (lo + n_strx (stabs ! nat f)), eip_line = uint (n_desc (stabs ! nat kl)),
         eip_fn_name = Lit ''<unknown>'' 0, eip_fn_namelen = 9, eip_fn_addr = addr, eip_fn_narg = 0\<rparr>))"
      using k src(1,5) by (simp add: at fb)
  }
qed

text \<open>A table with a file of C and a file of assembler, which has one line.\<close>

definition asm_stabs :: "Stab list" where
  "asm_stabs = [\<lparr>n_strx = 0, n_type = 0, n_other = 0, n_desc = 0, n_value = 0\<rparr>,
     \<lparr>n_strx = 1, n_type = N_SO, n_other = 0, n_desc = 0, n_value = 0xf0100000\<rparr>,
     \<lparr>n_strx = 0, n_type = N_SLINE, n_other = 0, n_desc = 44, n_value = 0xf010000c\<rparr>,
     \<lparr>n_strx = 9, n_type = N_SO, n_other = 0, n_desc = 0, n_value = 0xf0100040\<rparr>]"

lemma asm_simps:
  "length asm_stabs = 4" "has_type asm_stabs ty 0 \<longleftrightarrow> ty = 0" "has_type asm_stabs ty 1 \<longleftrightarrow> ty = N_SO"
  "has_type asm_stabs ty 2 \<longleftrightarrow> ty = N_SLINE" "has_type asm_stabs ty 3 \<longleftrightarrow> ty = N_SO"
  "stab_val asm_stabs 1 = 0xf0100000" "stab_val asm_stabs 2 = 0xf010000c" "stab_val asm_stabs 3 = 0xf0100040"
  "asm_stabs ! Suc 0 = \<lparr>n_strx = 1, n_type = N_SO, n_other = 0, n_desc = 0, n_value = 0xf0100000\<rparr>"
  "asm_stabs ! 2 = \<lparr>n_strx = 0, n_type = N_SLINE, n_other = 0, n_desc = 44, n_value = 0xf010000c\<rparr>"
  by (auto simp: asm_stabs_def has_type_def stab_val_def)

lemma debuginfo_eip_assembly_witness:
  "debuginfo_eip \<lparr>st_stabs = asm_stabs, st_str = 0x1000, st_str_end = 0x1020\<rparr> (\<lambda>_. 0) 0xf0100010 =
    Some (Inr (0, \<lparr>eip_file = Mem 0x1001, eip_line = 44, eip_fn_name = Lit ''<unknown>'' 0, eip_fn_namelen = 9,
       eip_fn_addr = 0xf0100010, eip_fn_narg = 0\<rparr>)) \<and>
   debuginfo_eip \<lparr>st_stabs = asm_stabs, st_str = 0x1000, st_str_end = 0x1020\<rparr> (\<lambda>_. 0) 0xf0100050 =
    Some (Inr (- 1, \<lparr>eip_file = Lit ''<unknown>'' 0, eip_line = 0, eip_fn_name = Lit ''<unknown>'' 0, eip_fn_namelen = 9,
       eip_fn_addr = 0xf0100050, eip_fn_narg = 0\<rparr>))"
proof -
  have r: "{0..3} = {0, 1, 2, 3 :: int}" "{1..3} = {1, 2, 3 :: int}" "{1..2} = {1, 2 :: int}" "{2..3} = {2, 3 :: int}" by auto
  note search = stab_searchable_def stabs_sorted_def stab_region_def asm_simps r N_SO_def N_SLINE_def N_FUN_def N_SOL_def file_stab_def
  have a: "stab_searchable asm_stabs 0 3 N_SO 0xf0100010" "stab_region asm_stabs 0 3 N_SO 0xf0100010 1 2"
    "stab_searchable asm_stabs 1 2 N_SLINE 0xf0100010" "stab_region asm_stabs 1 2 N_SLINE 0xf0100010 2 2"
    "file_stab asm_stabs 1" "\<not> file_stab asm_stabs 2"
    "stab_searchable asm_stabs 0 3 N_SO 0xf0100050" "stab_region asm_stabs 0 3 N_SO 0xf0100050 3 3"
    by (simp_all add: search)
  have none: "\<forall>i \<in> {1..2}. \<not> has_type asm_stabs N_FUN i" "\<forall>i \<in> {3..3}. \<not> has_type asm_stabs N_FUN i"
    "\<forall>i \<in> {3..3}. \<not> has_type asm_stabs N_SLINE i" by (simp_all add: search)
  have one: "debuginfo_eip \<lparr>st_stabs = asm_stabs, st_str = 0x1000, st_str_end = 0x1020\<rparr> (\<lambda>_. 0) 0xf0100010 =
    Some (Inr (0, \<lparr>eip_file = Mem 0x1001, eip_line = 44, eip_fn_name = Lit ''<unknown>'' 0, eip_fn_namelen = 9,
       eip_fn_addr = 0xf0100010, eip_fn_narg = 0\<rparr>))"
    using debuginfo_eip_assembly [of asm_stabs "0xf0100010" "0x1000" "0x1020" "\<lambda>_. 0" 1 2, THEN conjunct2, rule_format, of 2 2 1] a none
    by (simp add: asm_simps ULIM_value)
  show ?thesis
    using one debuginfo_eip_assembly [of asm_stabs "0xf0100050" "0x1000" "0x1020" "\<lambda>_. 0" 3 3, THEN conjunct1] a none
    by (simp add: asm_simps ULIM_value)
qed

text \<open>(C37) For a kernel address below every source file of the table, whose first entry is one,
  \<^verbatim>\<open>debuginfo_eip\<close> does not return -1: the check for 0 misses the left end -1 of the search, and the
  next search reads the entry before the table.\<close>

theorem debuginfo_eip_below_files:
  assumes "stab_searchable stabs 0 (int (length stabs) - 1) N_SO addr" "length stabs \<le> 1073741824" "ULIM \<le> addr"
    and "has_type stabs N_SO 0" "\<forall>i \<in> {0..int (length stabs) - 1}. has_type stabs N_SO i \<longrightarrow> addr < stab_val stabs i"
    and str: "lo < hi" "m (hi - 1) = 0"
  shows "debuginfo_eip \<lparr>st_stabs = stabs, st_str = lo, st_str_end = hi\<rparr> m addr = None"
proof -
  have "stab_binsearch stabs 0 (int (length stabs) - 1) N_SO addr = Some (- 1, - 1)"
    using stab_binsearch_before_first [OF assms(1,2), of 0] assms(4,5) by (auto simp: has_type_def)
  moreover have "stab_binsearch stabs (- 1) (- 1) N_FUN addr = None"
    by (simp add: stab_binsearch_def search_loop.simps search_step_def stab_back.simps stab_at_def signed_divide_int_def)
  ultimately show ?thesis using assms(3) str by (simp add: debuginfo_eip_def Let_def)
qed

lemma debuginfo_eip_below_files_witness:
  "debuginfo_eip \<lparr>st_stabs = sample_stabs, st_str = 0x1000, st_str_end = 0x1010\<rparr> (\<lambda>_. 0) 0xf0000000 = None"
  by (rule debuginfo_eip_below_files)
    (simp_all add: length_sample ULIM_value stab_searchable_def stabs_sorted_def sample_simps)

end
