(* ===== verification/JosMonitor.thy ===== *)
theory JosMonitor
  imports JosRender JosReadline JosKdebug
begin

text \<open>
  \<^verbatim>\<open>src/kern/monitor.c\<close>: the command interpreter of the kernel. A line from
  \<^verbatim>\<open>readline\<close> is cut into words in its own buffer, the first word selects a command, and
  the command prints on the console.

  The commands do not look at their arguments nor at the trap frame, which is why these are not
  passed on. The addresses that the linker chooses are a record, the tables of the debugger a
  \<open>symtab\<close>. The result None stands for an access that has no meaning and for not returning.
\<close>

section \<open>The model\<close>

definition CMDBUF_SIZE :: int where "CMDBUF_SIZE = 80"
definition WHITESPACE :: string where "WHITESPACE = [CHR 0x09, CHR 0x0D, CHR 0x0A, CHR '' '']"
definition MAXARGS :: int where "MAXARGS = 16"

abbreviation newline :: string where "newline \<equiv> [CHR 0x0A]"

datatype command_func = Mon_help | Mon_kerninfo

record Command =
  name :: string
  desc :: string
  func :: command_func

definition commands :: "Command list" where
  "commands = [\<lparr>name = ''help'', desc = ''Display this list of commands'', func = Mon_help\<rparr>,
     \<lparr>name = ''kerninfo'', desc = ''Display information about the kernel'', func = Mon_kerninfo\<rparr>]"

record symbols =
  sym_start :: u32
  sym_entry :: u32
  sym_etext :: u32
  sym_edata :: u32
  sym_end :: u32

subsection \<open>The commands\<close>

primrec help_loop :: "devices \<Rightarrow> Command list \<Rightarrow> console \<Rightarrow> console option" where
  "help_loop d [] s = Some s"
| "help_loop d (c # cs) s =
     do { (_, s) \<leftarrow> cprintf d (Lit (''%s - %s'' @ newline) 0) [Ptr (Lit (name c) 0), Ptr (Lit (desc c) 0)] s;
          help_loop d cs s }"

definition mon_help :: "devices \<Rightarrow> console \<Rightarrow> (int \<times> console) option" where
  "mon_help d s = do { s \<leftarrow> help_loop d commands s; Some (0, s) }"

definition mon_kerninfo :: "devices \<Rightarrow> symbols \<Rightarrow> console \<Rightarrow> (int \<times> console) option" where
  "mon_kerninfo d sy s =
     do { (_, s) \<leftarrow> cprintf d (Lit (''Special kernel symbols:'' @ newline) 0) [] s;
          (_, s) \<leftarrow> cprintf d (Lit (''  _start                  %08x (phys)'' @ newline) 0) [Word (sym_start sy)] s;
          (_, s) \<leftarrow> cprintf d (Lit (''  entry  %08x (virt)  %08x (phys)'' @ newline) 0)
            [Word (sym_entry sy), Word (sym_entry sy - KERNBASE)] s;
          (_, s) \<leftarrow> cprintf d (Lit (''  etext  %08x (virt)  %08x (phys)'' @ newline) 0)
            [Word (sym_etext sy), Word (sym_etext sy - KERNBASE)] s;
          (_, s) \<leftarrow> cprintf d (Lit (''  edata  %08x (virt)  %08x (phys)'' @ newline) 0)
            [Word (sym_edata sy), Word (sym_edata sy - KERNBASE)] s;
          (_, s) \<leftarrow> cprintf d (Lit (''  end    %08x (virt)  %08x (phys)'' @ newline) 0)
            [Word (sym_end sy), Word (sym_end sy - KERNBASE)] s;
          (_, s) \<leftarrow> cprintf d (Lit (''Kernel executable memory footprint: %dKB'' @ newline) 0)
            [Word (of_int (sint (ROUNDUP (sym_end sy - sym_entry sy) 1024) sdiv 1024))] s;
          Some (0, s) }"

text \<open>The result \<open>Inl\<close> is a call of \<^verbatim>\<open>panic\<close>, which does not return, with its message.\<close>

partial_function (option) backtrace_loop ::
  "devices \<Rightarrow> symtab \<Rightarrow> u32 \<Rightarrow> console \<Rightarrow> (string \<times> console + console) option" where
  "backtrace_loop d tab ebp s =
     (if ebp \<noteq> 0 then
        do { let eip = ld32 (m_mem s) (ebp + 4);
             r \<leftarrow> debuginfo_eip tab (m_mem s) eip;
             (case r of
                Inl msg \<Rightarrow> Some (Inl (msg, s))
              | Inr (_, info) \<Rightarrow>
                  do { let args = map (\<lambda>i. ld32 (m_mem s) (ebp + i)) [8, 12, 16, 20, 24];
                       (_, s) \<leftarrow> cprintf d (Lit (''  ebp %08x  eip %08x  args %08x %08x %08x %08x %08x'' @ newline) 0)
                         ([Word ebp, Word eip] @ map Word args) s;
                       (_, s) \<leftarrow> cprintf d (Lit (''         %s:%d: %.*s+%d'' @ newline) 0)
                         [Ptr (eip_file info), Word (of_int (eip_line info)), Word (of_int (eip_fn_namelen info)),
                          Ptr (eip_fn_name info), Word (eip - eip_fn_addr info)] s;
                       backtrace_loop d tab (ld32 (m_mem s) ebp) s }) }
      else Some (Inr s))"

definition mon_backtrace :: "devices \<Rightarrow> symtab \<Rightarrow> console \<Rightarrow> (string \<times> console + int \<times> console) option" where
  "mon_backtrace d tab s =
     do { (_, s) \<leftarrow> cprintf d (Lit (''Stack backtrace:'' @ newline) 0) [] s;
          r \<leftarrow> backtrace_loop d tab (read_ebp s) s;
          Some (case r of Inl p \<Rightarrow> Inl p | Inr s \<Rightarrow> Inr (0, s)) }"

subsection \<open>The interpreter\<close>

text \<open>\<^verbatim>\<open>*buf && strchr(WHITESPACE, *buf)\<close> and \<^verbatim>\<open>*buf && !strchr(WHITESPACE, *buf)\<close>.\<close>

definition at_space :: "mem \<Rightarrow> cptr \<Rightarrow> bool option" where
  "at_space m buf =
     do { c \<leftarrow> rdb m buf;
          if c = 0 then Some False else do { p \<leftarrow> strchr m (Lit WHITESPACE 0) c; Some (p \<noteq> NULL) } }"

definition at_word :: "mem \<Rightarrow> cptr \<Rightarrow> bool option" where
  "at_word m buf =
     do { c \<leftarrow> rdb m buf;
          if c = 0 then Some False else do { p \<leftarrow> strchr m (Lit WHITESPACE 0) c; Some (p = NULL) } }"

partial_function (option) gobble_space :: "mem \<Rightarrow> cptr \<Rightarrow> (mem \<times> cptr) option" where
  "gobble_space m buf =
     do { b \<leftarrow> at_space m buf;
          if b then do { m \<leftarrow> wrb m buf 0; gobble_space m (padd buf 1) } else Some (m, buf) }"

partial_function (option) scan_word :: "mem \<Rightarrow> cptr \<Rightarrow> cptr option" where
  "scan_word m buf = do { b \<leftarrow> at_word m buf; if b then scan_word m (padd buf 1) else Some buf }"

text \<open>The words found, or None as first component when there are too many.\<close>

text \<open>
  \<^verbatim>\<open>argv[argc++] = buf\<close>: the words stored so far are a list, which has room for 16; a store behind the
  array has no result. The final \<^verbatim>\<open>argv[argc] = 0\<close> needs a place too.
\<close>

definition argv_store :: "cptr list \<Rightarrow> cptr \<Rightarrow> cptr list option" where
  "argv_store argv p = (if int (length argv) < MAXARGS then Some (argv @ [p]) else None)"

partial_function (option) parse_args :: "mem \<Rightarrow> cptr \<Rightarrow> cptr list \<Rightarrow> (cptr list option \<times> mem) option" where
  "parse_args m buf argv =
     do { (m, buf) \<leftarrow> gobble_space m buf;
          c \<leftarrow> rdb m buf;
          if c = 0 then do { _ \<leftarrow> argv_store argv NULL; Some (Some argv, m) }
          else if int (length argv) = MAXARGS - 1 then Some (None, m)
          else do { argv \<leftarrow> argv_store argv buf; buf' \<leftarrow> scan_word m buf; parse_args m buf' argv } }"

fun lookup_command :: "mem \<Rightarrow> cptr \<Rightarrow> Command list \<Rightarrow> command_func option option" where
  "lookup_command m arg [] = Some None"
| "lookup_command m arg (c # cs) =
     do { r \<leftarrow> strcmp m arg (Lit (name c) 0);
          if r = 0 then Some (Some (func c)) else lookup_command m arg cs }"

definition invoke :: "devices \<Rightarrow> symbols \<Rightarrow> command_func \<Rightarrow> console \<Rightarrow> (int \<times> console) option" where
  "invoke d sy f = (case f of Mon_help \<Rightarrow> mon_help d | Mon_kerninfo \<Rightarrow> mon_kerninfo d sy)"

fun run_args :: "devices \<Rightarrow> symbols \<Rightarrow> cptr list option \<Rightarrow> console \<Rightarrow> (int \<times> console) option" where
  "run_args d sy None s =
     do { (_, s) \<leftarrow> cprintf d (Lit (''Too many arguments (max %d)'' @ newline) 0) [Word (of_int MAXARGS)] s; Some (0, s) }"
| "run_args d sy (Some []) s = Some (0, s)"
| "run_args d sy (Some (arg # argv)) s =
     do { f \<leftarrow> lookup_command (m_mem s) arg commands;
          (case f of
             Some f \<Rightarrow> invoke d sy f s
           | None \<Rightarrow>
               do { (_, s) \<leftarrow> cprintf d (Lit (''Unknown command '' @ [CHR 0x27] @ ''%s'' @ [CHR 0x27] @ newline) 0) [Ptr arg] s;
                    Some (0, s) }) }"

definition runcmd :: "devices \<Rightarrow> symbols \<Rightarrow> cptr \<Rightarrow> console \<Rightarrow> (int \<times> console) option" where
  "runcmd d sy buf s =
     do { (args, m) \<leftarrow> parse_args (m_mem s) buf [];
          run_args d sy args (s\<lparr>m_mem := m\<rparr>) }"

text \<open>One round of the loop of \<^verbatim>\<open>monitor\<close>, with whether it ends in \<^verbatim>\<open>break\<close>.\<close>

definition monitor_round :: "devices \<Rightarrow> symbols \<Rightarrow> u32 \<Rightarrow> console \<Rightarrow> (bool \<times> console) option" where
  "monitor_round d sy buf s =
     do { (p, s) \<leftarrow> readline d buf (Lit ''K> '' 0) s;
          if p \<noteq> NULL then do { (r, s) \<leftarrow> runcmd d sy p s; Some (r < 0, s) }
          else Some (False, s) }"

partial_function (option) monitor_loop :: "devices \<Rightarrow> symbols \<Rightarrow> u32 \<Rightarrow> console \<Rightarrow> console option" where
  "monitor_loop d sy buf s =
     do { (brk, s) \<leftarrow> monitor_round d sy buf s;
          if brk then Some s else monitor_loop d sy buf s }"

definition escape :: string where "escape = [CHR 0x1B]"

definition banner :: string where
  "banner = escape @ ''[31mWelcome '' @ escape @ ''[32mto '' @ escape @ ''[33mthe '' @ escape @ ''[34mJOS '' @
     escape @ ''[35mkernel '' @ escape @ ''[36mmonitor!'' @ escape @ ''[0m'' @ newline"

definition monitor_start :: "devices \<Rightarrow> console \<Rightarrow> console option" where
  "monitor_start d s =
     do { (_, s) \<leftarrow> cprintf d (Lit banner 0) [] s;
          (_, s) \<leftarrow> cprintf d (Lit (''Type '' @ [CHR 0x27] @ ''help'' @ [CHR 0x27] @ '' for a list of commands.'' @ newline) 0) [] s;
          Some s }"

definition monitor :: "devices \<Rightarrow> symbols \<Rightarrow> u32 \<Rightarrow> console \<Rightarrow> console option" where
  "monitor d sy buf s = do { s \<leftarrow> monitor_start d s; monitor_loop d sy buf s }"

text \<open>The states at the head of the loop that a running monitor goes through.\<close>

inductive monitor_reaches :: "devices \<Rightarrow> symbols \<Rightarrow> u32 \<Rightarrow> console \<Rightarrow> console \<Rightarrow> bool" for d sy buf where
  start: "monitor_start d s = Some t \<Longrightarrow> monitor_reaches d sy buf s t"
| round: "monitor_reaches d sy buf s t \<Longrightarrow> monitor_round d sy buf t = Some (False, u) \<Longrightarrow> monitor_reaches d sy buf s u"

declare backtrace_loop.simps [code] gobble_space.simps [code] scan_word.simps [code] parse_args.simps [code]
  monitor_loop.simps [code]


section \<open>The words of a line\<close>

definition is_space :: "u8 \<Rightarrow> bool" where
  "is_space c \<longleftrightarrow> c = 9 \<or> c = 13 \<or> c = 10 \<or> c = 32"

function words_of :: "u8 list \<Rightarrow> u8 list list" where
  "words_of l = (case dropWhile is_space l of
       [] \<Rightarrow> []
     | c # cs \<Rightarrow> takeWhile (\<lambda>c. \<not> is_space c) (c # cs) # words_of (dropWhile (\<lambda>c. \<not> is_space c) cs))"
  by pat_completeness auto
termination
proof (relation "measure length")
  fix l c cs
  assume "dropWhile is_space l = c # cs"
  then have "length (c # cs) \<le> length l" by (metis length_dropWhile_le)
  moreover have "length (dropWhile (\<lambda>c. \<not> is_space c) cs) \<le> length cs" by (rule length_dropWhile_le)
  ultimately show "(dropWhile (\<lambda>c. \<not> is_space c) cs, l) \<in> measure length" by simp
qed simp

declare words_of.simps [simp del]

lemma words_of_split:
  assumes "\<forall>c \<in> set sp. is_space c"
  shows "words_of (sp @ []) = []"
    and "w \<noteq> [] \<Longrightarrow> \<forall>c \<in> set w. \<not> is_space c \<Longrightarrow> l = [] \<or> is_space (hd l) \<Longrightarrow> words_of (sp @ w @ l) = w # words_of l"
proof -
  show "words_of (sp @ []) = []" using assms by (simp add: words_of.simps dropWhile_eq_Nil_conv [THEN iffD2])
  assume w: "w \<noteq> []" "\<forall>c \<in> set w. \<not> is_space c" "l = [] \<or> is_space (hd l)"
  then obtain c cs where c: "w = c # cs" by (cases w) auto
  have "dropWhile is_space (sp @ w @ l) = c # (cs @ l)" using assms w(2) c by (simp add: dropWhile_append2)
  moreover have "takeWhile (\<lambda>c. \<not> is_space c) (c # (cs @ l)) = w" "dropWhile (\<lambda>c. \<not> is_space c) (cs @ l) = l"
    using w c by (cases l; simp add: takeWhile_append2 dropWhile_append2)+
  ultimately show "words_of (sp @ w @ l) = w # words_of l" by (subst words_of.simps) (simp del: takeWhile.simps)
qed

lemma words_of_length: "w \<in> set (words_of l) \<Longrightarrow> length w \<le> length l"
proof (induction l rule: words_of.induct)
  case (1 l)
  show ?case
  proof (cases "dropWhile is_space l")
    case Nil
    then have "words_of l = []" by (subst words_of.simps) (simp del: dropWhile_eq_Nil_conv)
    then show ?thesis using "1.prems" by simp
  next
    case (Cons c cs)
    have l: "length (c # cs) \<le> length l" using Cons length_dropWhile_le [of is_space l] by simp
    from "1.prems" consider "w = takeWhile (\<lambda>c. \<not> is_space c) (c # cs)" | "w \<in> set (words_of (dropWhile (\<lambda>c. \<not> is_space c) cs))"
      by (subst (asm) words_of.simps) (auto simp: Cons simp del: takeWhile.simps)
    then show ?thesis
    proof cases
      case 1
      show ?thesis unfolding 1 by (rule order_trans [OF length_takeWhile_le l])
    next
      case 2
      then show ?thesis
        using "1.IH" [OF Cons] l length_dropWhile_le [of "\<lambda>c. \<not> is_space c" cs] by simp
    qed
  qed
qed

text \<open>Every line is spaces, and then nothing, or a word and the rest.\<close>

lemma line_cases:
  obtains (blank) "\<forall>c \<in> set l. is_space c"
  | (word) sp w r where "l = sp @ w @ r" "\<forall>c \<in> set sp. is_space c" "w \<noteq> []" "\<forall>c \<in> set w. \<not> is_space c"
      "r = [] \<or> is_space (hd r)"
proof (cases "dropWhile is_space l")
  case Nil
  then show ?thesis by (intro blank) (simp add: dropWhile_eq_Nil_conv)
next
  case (Cons c cs)
  let ?t = "dropWhile is_space l"
  have c: "\<not> is_space c" using Cons by (metis hd_dropWhile list.distinct(1) list.sel(1))
  show ?thesis
  proof (rule word)
    show "l = takeWhile is_space l @ takeWhile (\<lambda>c. \<not> is_space c) ?t @ dropWhile (\<lambda>c. \<not> is_space c) ?t" by simp
    show "\<forall>c \<in> set (takeWhile is_space l). is_space c" by (auto dest: set_takeWhileD)
    show "takeWhile (\<lambda>c. \<not> is_space c) ?t \<noteq> []" using Cons c by simp
    show "\<forall>c \<in> set (takeWhile (\<lambda>c. \<not> is_space c) ?t). \<not> is_space c" by (auto dest: set_takeWhileD)
    show "dropWhile (\<lambda>c. \<not> is_space c) ?t = [] \<or> is_space (hd (dropWhile (\<lambda>c. \<not> is_space c) ?t))"
      using hd_dropWhile [of "\<lambda>c. \<not> is_space c" ?t] by blast
  qed
qed

section \<open>The parser\<close>

lemma strchr_space:
  assumes "c \<noteq> 0"
  shows "\<exists>p. strchr m (Lit WHITESPACE 0) c = Some p \<and> (p \<noteq> NULL \<longleftrightarrow> is_space c)"
proof -
  have "cstr m (Lit WHITESPACE 0) (bytes WHITESPACE)" by (rule cstr_Lit) (simp add: WHITESPACE_def)
  moreover have "c \<in> set (bytes WHITESPACE) \<longleftrightarrow> is_space c" by (auto simp: bytes_def WHITESPACE_def is_space_def)
  ultimately show ?thesis by (auto simp: strchr_cstr)
qed

lemma at_space_rdb: "rdb m p = Some c \<Longrightarrow> c = 0 \<or> \<not> is_space c \<Longrightarrow> at_space m p = Some False"
  "rdb m p = Some c \<Longrightarrow> c \<noteq> 0 \<Longrightarrow> is_space c \<Longrightarrow> at_space m p = Some True"
  using strchr_space [of c m] by (auto simp: at_space_def)

lemma at_word_rdb: "rdb m p = Some c \<Longrightarrow> c = 0 \<or> is_space c \<Longrightarrow> at_word m p = Some False"
  "rdb m p = Some c \<Longrightarrow> c \<noteq> 0 \<Longrightarrow> \<not> is_space c \<Longrightarrow> at_word m p = Some True"
  using strchr_space [of c m] by (auto simp: at_word_def)


lemma cstr_tail_cong:
  assumes "cstr m (Mem p) (u @ l)" "length (u @ l) < 4294967295" "\<And>a. \<not> in_region p (length u) a \<Longrightarrow> m' a = m a"
  shows "cstr m' (Mem (p + of_nat (length u))) l"
proof -
  have "cstr m (Mem (p + of_nat (length u))) l" using cstr_drop [OF assms(1)] by simp
  moreover have "cstr m' (Mem (p + of_nat (length u))) l = cstr m (Mem (p + of_nat (length u))) l"
  proof (rule cstr_cong)
    fix a
    assume "touches (Mem (p + of_nat (length u))) (Suc (length l)) a"
    then show "m' a = m a"
      using in_region_split_disj [of "length u" "Suc (length l)" p a] assms(2) by (intro assms(3)) auto
  qed (use assms(2) in simp)
  ultimately show ?thesis by simp
qed

lemma gobble_space_spaces:
  assumes "cstr m (Mem p) (sp @ l)" "\<forall>c \<in> set sp. is_space c" "l = [] \<or> \<not> is_space (hd l)" "length (sp @ l) < 4294967295"
  shows "gobble_space m (Mem p) = Some (fill_region m p 0 (length sp), Mem (p + of_nat (length sp)))"
  using assms
proof (induction sp arbitrary: m p)
  case Nil
  then have "at_space m (Mem p) = Some False" by (cases l) (auto intro: at_space_rdb)
  then show ?case by (subst gobble_space.simps) simp
next
  case (Cons c sp)
  then have "at_space m (Mem p) = Some True" by (auto intro: at_space_rdb)
  moreover have "cstr (m(p := 0)) (Mem (p + 1)) (sp @ l)"
  proof -
    have "(m(p := 0)) a = m a" if "\<not> in_region p 1 a" for a using that by (auto simp: in_region_def)
    then show ?thesis using cstr_tail_cong [of m p "[c]" "sp @ l" "m(p := 0)"] Cons.prems(1,4) by simp
  qed
  then have "gobble_space (m(p := 0)) (Mem (p + 1)) = Some (fill_region (m(p := 0)) (p + 1) 0 (length sp), Mem (p + 1 + of_nat (length sp)))"
    by (rule Cons.IH) (use Cons.prems in auto)
  moreover have "fill_region (m(p := 0)) (p + 1) 0 (length sp) = fill_region m p 0 (Suc (length sp))"
    using Cons.prems(4) fill_region_append [of 1 "length sp" m p 0] by (simp add: fill_region_1 [simplified])
  ultimately show ?case by (subst gobble_space.simps) (simp add: add.assoc)
qed

lemma scan_word_word:
  assumes "cstr m (Mem p) (w @ l)" "\<forall>c \<in> set w. \<not> is_space c" "l = [] \<or> is_space (hd l)"
  shows "scan_word m (Mem p) = Some (Mem (p + of_nat (length w)))"
  using assms
proof (induction w arbitrary: p)
  case Nil
  then have "at_word m (Mem p) = Some False" by (cases l) (auto intro: at_word_rdb)
  then show ?case by (subst scan_word.simps) simp
next
  case (Cons c w)
  then have "at_word m (Mem p) = Some True" by (auto intro: at_word_rdb)
  moreover have "scan_word m (Mem (p + 1)) = Some (Mem (p + 1 + of_nat (length w)))" using Cons by (intro Cons.IH) auto
  ultimately show ?case by (subst scan_word.simps) (simp add: add.assoc)
qed


text \<open>A string in memory, by the bytes at its addresses.\<close>

lemma cstr_Mem_iff:
  "cstr m (Mem p) s \<longleftrightarrow> (\<forall>i < length s. m (p + of_nat i) = s ! i \<and> s ! i \<noteq> 0) \<and> m (p + of_nat (length s)) = 0"
  using cstr_append [of m "Mem p" s "[]"] by simp

text \<open>
  The parser finds the words of the line, unless there would be more than 15. The words are
  terminated in place: only bytes of the line are overwritten, and where the line begins with a
  space there is then a NUL.
\<close>

definition word_at :: "mem \<Rightarrow> u32 \<Rightarrow> nat \<Rightarrow> cptr \<Rightarrow> u8 list \<Rightarrow> bool" where
  "word_at m p n q w \<longleftrightarrow> cstr m q w \<and> (\<forall>a. touches q (Suc (length w)) a \<longrightarrow> in_region p n a)"

definition parsed :: "mem \<Rightarrow> u32 \<Rightarrow> u8 list \<Rightarrow> cptr list \<Rightarrow> (cptr list option \<times> mem) option \<Rightarrow> bool" where
  "parsed m p l argv result \<longleftrightarrow> (\<exists>m' new.
     result = Some (if length argv + length (words_of l) \<le> 15 then Some (argv @ new) else None, m')
     \<and> (length argv + length (words_of l) \<le> 15 \<longrightarrow> list_all2 (word_at m' p (Suc (length l))) new (words_of l))
     \<and> (\<forall>a. \<not> in_region p (length l) a \<longrightarrow> m' a = m a) \<and> (l = [] \<or> is_space (hd l) \<longrightarrow> m' p = 0))"

lemma parse_args_blank:
  assumes "cstr m (Mem p) l" "length l < 4294967295" "length argv \<le> 15" "\<forall>c \<in> set l. is_space c"
  shows "parsed m p l argv (parse_args m (Mem p) argv)"
proof -
  let ?m = "fill_region m p 0 (length l)"
  have g: "gobble_space m (Mem p) = Some (?m, Mem (p + of_nat (length l)))"
    using gobble_space_spaces [of m p l "[]"] assms by simp
  have z: "?m (p + of_nat (length l)) = 0"
    using assms(1,2) by (simp add: fill_region_def in_region_offset cstr_Mem_iff)
  have "words_of l = []" using words_of_split(1) [OF assms(4)] by simp
  moreover have "?m a = m a" if "\<not> in_region p (length l) a" for a using that by (simp add: fill_region_def)
  moreover have "?m p = 0" using z by (cases l) (simp_all add: fill_region_def)
  moreover have "parse_args m (Mem p) argv = Some (Some argv, ?m)"
    using g z assms(3) by (subst parse_args.simps) (simp add: argv_store_def MAXARGS_def)
  ultimately show ?thesis using assms(3) by (auto simp: parsed_def)
qed

text \<open>A word stays what it was when the bytes behind it are overwritten from a NUL on.\<close>

lemma word_stays:
  assumes "cstr m (Mem q) (w @ r)" "\<And>i. i < length w \<Longrightarrow> m' (q + of_nat i) = m (q + of_nat i)" "m' (q + of_nat (length w)) = 0"
  shows "cstr m' (Mem q) w"
  unfolding cstr_Mem_iff
proof (intro conjI allI impI assms(3))
  fix i assume i: "i < length w"
  have "m (q + of_nat i) = (w @ r) ! i \<and> (w @ r) ! i \<noteq> 0" using assms(1) i by (simp add: cstr_Mem_iff)
  then show "m' (q + of_nat i) = w ! i" "w ! i \<noteq> 0" using assms(2) [OF i] i by (simp_all add: nth_append)
qed

text \<open>The words of the rest of the line, parsed behind a first one, make up those of the line.\<close>

lemma parsed_behind:
  assumes l: "l = sp @ w @ r" "length l < 4294967295" "\<forall>c \<in> set sp. is_space c" "w \<noteq> []" "\<forall>c \<in> set w. \<not> is_space c" "r = [] \<or> is_space (hd r)"
    and m1: "m1 = fill_region m p 0 (length sp)" and q: "q = p + of_nat (length sp)" and cw: "cstr m1 (Mem q) (w @ r)"
    and e: "e = q + of_nat (length w)" and rest: "parsed m1 e r (argv @ [Mem q]) result"
  shows "parsed m p l argv result"
proof -
  have ws: "words_of l = w # words_of r" unfolding l(1) by (rule words_of_split(2) [OF l(3-6)])
  have er: "e = p + of_nat (length sp + length w)" by (simp add: e q add.assoc)
  obtain m' new where res0: "result = Some (if length (argv @ [Mem q]) + length (words_of r) \<le> 15 then Some ((argv @ [Mem q]) @ new) else None, m')"
    and new0: "length (argv @ [Mem q]) + length (words_of r) \<le> 15 \<Longrightarrow> list_all2 (word_at m' e (Suc (length r))) new (words_of r)"
    and m': "\<And>a. \<not> in_region e (length r) a \<Longrightarrow> m' a = m1 a" "m' e = 0"
    using rest l(6) unfolding parsed_def by blast
  have res: "result = Some (if length argv + length (words_of l) \<le> 15 then Some (argv @ Mem q # new) else None, m')"
    and new: "length argv + length (words_of l) \<le> 15 \<Longrightarrow> list_all2 (word_at m' e (Suc (length r))) new (words_of r)"
    using res0 new0 by (simp_all add: ws)
  have sub: "in_region e k a \<Longrightarrow> in_region p (length sp + length w + k) a" if "k \<le> Suc (length r)" for a k
    using in_region_split [of "length sp + length w" k p a] l(1,2) that by (simp add: er)
  have before: "m' (p + of_nat i) = m1 (p + of_nat i)" if "i < length sp + length w" for i
  proof (rule m'(1))
    have "in_region p (length sp + length w) (p + of_nat i)" using that l(1,2) by (simp add: in_region_offset)
    then show "\<not> in_region e (length r) (p + of_nat i)"
      using in_region_split_disj [of "length sp + length w" "length r" p "p + of_nat i"] l(1,2) by (simp add: er)
  qed
  have "m' (q + of_nat i) = m1 (q + of_nat i)" if "i < length w" for i
    using before [of "length sp + i"] that by (simp add: q add.assoc)
  then have "cstr m' (Mem q) w" using m'(2) by (intro word_stays [OF cw]) (simp_all add: e)
  moreover have "in_region p (Suc (length l)) a" if "in_region q (Suc (length w)) a" for a
    using that in_region_split [of "length sp" "Suc (length w)" p a] l(1,2)
      in_region_mono [of p "length sp + Suc (length w)" a "Suc (length l)"] by (simp add: q)
  ultimately have "word_at m' p (Suc (length l)) (Mem q) w" by (simp add: word_at_def)
  moreover have "word_at m' p (Suc (length l)) x y" if "word_at m' e (Suc (length r)) x y" for x y
    using that sub [of "Suc (length r)"] by (simp add: word_at_def l(1) add.assoc)
  then have "list_all2 (word_at m' p (Suc (length l))) new (words_of r)" if "length argv + length (words_of l) \<le> 15"
    using new that by (auto elim: list_all2_mono)
  moreover have "m' a = m a" if a: "\<not> in_region p (length l) a" for a
  proof -
    have "\<not> in_region e (length r) a" using sub [of "length r" a] a by (auto simp: l(1) add.assoc)
    moreover have "\<not> in_region p (length sp) a" using a in_region_mono [of p "length sp" a "length l"] by (auto simp: l(1))
    ultimately show ?thesis using m'(1) by (simp add: m1 fill_region_def)
  qed
  moreover have "m' p = 0" if "is_space (hd l)"
    using that l(4,5) before [of 0] by (cases sp; cases w) (auto simp: l(1) m1 fill_region_def)
  ultimately show ?thesis using res l(1,4) unfolding parsed_def ws by (intro exI [of _ m'] exI [of _ "Mem q # new"]) auto
qed

lemma parse_args_word:
  assumes m: "cstr m (Mem p) (sp @ w @ r)" "length (sp @ w @ r) < 4294967295" and argv: "length argv \<le> 15"
    and sp: "\<forall>c \<in> set sp. is_space c" and w: "w \<noteq> []" "\<forall>c \<in> set w. \<not> is_space c" and r: "r = [] \<or> is_space (hd r)"
    and IH: "\<And>m q argv. cstr m (Mem q) r \<Longrightarrow> length argv \<le> 15 \<Longrightarrow> parsed m q r argv (parse_args m (Mem q) argv)"
  shows "parsed m p (sp @ w @ r) argv (parse_args m (Mem p) argv)"
proof -
  let ?l = "sp @ w @ r" and ?m = "fill_region m p 0 (length sp)" and ?q = "p + of_nat (length sp)"
  let ?e = "?q + of_nat (length w)"
  have hw: "\<not> is_space (hd (w @ r))" using w by (cases w) auto
  have g: "gobble_space m (Mem p) = Some (?m, Mem ?q)" using gobble_space_spaces [OF m(1) sp _ m(2)] hw by blast
  have cw: "cstr ?m (Mem ?q) (w @ r)" using cstr_tail_cong [OF m] by (simp add: fill_region_def)
  have hd: "\<exists>c. rdb ?m (Mem ?q) = Some c \<and> c \<noteq> 0" using cw w(1) by (cases w) auto
  show ?thesis
  proof (cases "length argv = 15")
    case True
    have "parse_args m (Mem p) argv = Some (None, ?m)"
      using g hd True by (subst parse_args.simps) (auto simp: MAXARGS_def)
    moreover have "?m p = 0" if "is_space (hd ?l)" using that hw w(1) by (cases sp) (auto simp: fill_region_def)
    moreover have "\<not> in_region p (length sp) a" if "\<not> in_region p (length ?l) a" for a
      using that in_region_mono [of p "length sp" a "length ?l"] by auto
    ultimately show ?thesis
      using True w(1) words_of_split(2) [OF sp w r] by (auto simp: parsed_def fill_region_def)
  next
    case False
    have "scan_word ?m (Mem ?q) = Some (Mem ?e)" by (rule scan_word_word [OF cw w(2) r])
    then have p: "parse_args m (Mem p) argv = parse_args ?m (Mem ?e) (argv @ [Mem ?q])"
      using g hd False argv by (subst parse_args.simps) (auto simp: argv_store_def MAXARGS_def)
    have "cstr ?m (Mem ?e) r" using cstr_drop [OF cw] by simp
    then have "parsed ?m ?e r (argv @ [Mem ?q]) (parse_args m (Mem p) argv)"
      unfolding p using argv False by (intro IH) simp_all
    then show ?thesis by (rule parsed_behind [OF refl m(2) sp w r refl refl cw refl])
  qed
qed

lemma parse_args_words:
  assumes "cstr m (Mem p) l" "length l < 4294967295" "length argv \<le> 15"
  shows "parsed m p l argv (parse_args m (Mem p) argv)"
  using assms
proof (induction "length l" arbitrary: m p l argv rule: less_induct)
  case less
  show ?case
  proof (cases l rule: line_cases)
    case blank
    then show ?thesis using parse_args_blank less.prems by blast
  next
    case (word sp w r)
    show ?thesis
      using less.prems unfolding word(1)
      by (rule parse_args_word [OF _ _ _ word(2-5)]) (use word less in auto)
  qed
qed


section \<open>What the commands print\<close>

definition chars :: "string \<Rightarrow> u32 list" where
  "chars l = map ucast (bytes l)"

definition help_text :: "u32 list" where
  "help_text = concat (map (\<lambda>c. plain_str (bytes (name c)) @ chars '' - '' @ plain_str (bytes (desc c)) @ chars newline) commands)"

definition symbol_text :: "string \<Rightarrow> u32 \<Rightarrow> u32 list" where
  "symbol_text l a = chars l @ hex8 a @ chars '' (virt)  '' @ hex8 (a - KERNBASE) @ chars ('' (phys)'' @ newline)"

definition kerninfo_text :: "symbols \<Rightarrow> u32 list" where
  "kerninfo_text sy =
     chars (''Special kernel symbols:'' @ newline)
     @ chars ''  _start                  '' @ hex8 (sym_start sy) @ chars ('' (phys)'' @ newline)
     @ symbol_text ''  entry  '' (sym_entry sy) @ symbol_text ''  etext  '' (sym_etext sy)
     @ symbol_text ''  edata  '' (sym_edata sy) @ symbol_text ''  end    '' (sym_end sy)
     @ chars ''Kernel executable memory footprint: ''
     @ dec (of_int (sint (ROUNDUP (sym_end sy - sym_entry sy) 1024) sdiv 1024)) @ chars (''KB'' @ newline)"

lemmas chars_simps = chars_def bytes_def

lemma arg_ok_Word: "arg_ok m R (Word w) (SInt w)"
  by simp

lemma arg_ok_Lit: "CHR 0x00 \<notin> set l \<Longrightarrow> length l < 1073741824 \<Longrightarrow> arg_ok m R (Ptr (Lit l 0)) (SStr (bytes l))"
  by (simp add: cstr_Lit touches_def)

lemma render_help: "render (bytes (''%s - %s'' @ newline)) [SStr a, SStr b] =
    Some (plain_str a @ chars '' - '' @ plain_str b @ chars newline)"
  by (simp add: chars_simps render_steps)

lemma help_loop_prints:
  assumes "crt_ok b s" "\<forall>c \<in> set cs. CHR 0x00 \<notin> set (name c) \<and> CHR 0x00 \<notin> set (desc c) \<and>
    length (name c) < 1073741824 \<and> length (desc c) < 1073741824"
  shows "help_loop d cs s = Some (prints d
    (concat (map (\<lambda>c. plain_str (bytes (name c)) @ chars '' - '' @ plain_str (bytes (desc c)) @ chars newline) cs)) s)"
  using assms
proof (induction cs arbitrary: s)
  case (Cons c cs)
  let ?o = "plain_str (bytes (name c)) @ chars '' - '' @ plain_str (bytes (desc c)) @ chars newline"
  have "cprintf d (Lit (''%s - %s'' @ newline) 0) [Ptr (Lit (name c) 0), Ptr (Lit (desc c) 0)] s = Some (0, prints d ?o s)"
    by (rule cprintf_prints [OF Cons.prems(1) render_help]) (use Cons.prems(2) in \<open>simp_all add: arg_ok_Lit del: arg_ok.simps\<close>)
  then have "help_loop d (c # cs) s = help_loop d cs (prints d ?o s)" by simp
  also have "\<dots> = Some (prints d
      (concat (map (\<lambda>c. plain_str (bytes (name c)) @ chars '' - '' @ plain_str (bytes (desc c)) @ chars newline) cs)) (prints d ?o s))"
    by (rule Cons.IH [OF crt_ok_prints [OF Cons.prems(1)]]) (use Cons.prems(2) in simp)
  finally show ?case by (simp only: list.map concat.simps prints_append append_assoc)
qed (simp add: prints_def)

lemma render_symbol:
  "render (bytes (''  entry  %08x (virt)  %08x (phys)'' @ newline)) [SInt a, SInt (a - KERNBASE)] = Some (symbol_text ''  entry  '' a)"
  "render (bytes (''  etext  %08x (virt)  %08x (phys)'' @ newline)) [SInt a, SInt (a - KERNBASE)] = Some (symbol_text ''  etext  '' a)"
  "render (bytes (''  edata  %08x (virt)  %08x (phys)'' @ newline)) [SInt a, SInt (a - KERNBASE)] = Some (symbol_text ''  edata  '' a)"
  "render (bytes (''  end    %08x (virt)  %08x (phys)'' @ newline)) [SInt a, SInt (a - KERNBASE)] = Some (symbol_text ''  end    '' a)"
  by (simp_all add: chars_simps render_steps symbol_text_def)

lemma render_footprint:
  "render (bytes (''Kernel executable memory footprint: %dKB'' @ newline)) [SInt n] =
     Some (chars ''Kernel executable memory footprint: '' @ dec n @ chars (''KB'' @ newline))"
  "render (bytes (''  _start                  %08x (phys)'' @ newline)) [SInt n] =
     Some (chars ''  _start                  '' @ hex8 n @ chars ('' (phys)'' @ newline))"
  "render (bytes (''Special kernel symbols:'' @ newline)) [] = Some (chars (''Special kernel symbols:'' @ newline))"
  by (simp_all add: chars_simps render_steps)

lemma cprintf_words:
  assumes "crt_ok b s" "render (bytes l) (map SInt ws) = Some out" "CHR 0x00 \<notin> set l" "length l < 4294967296"
  shows "cprintf d (Lit l 0) (map Word ws) s = Some (0, prints d out s)"
  using assms by (intro cprintf_prints [OF assms(1,2)]) (simp_all add: list_all2_map1 list_all2_map2 list_all2_refl)

text \<open>A computation that prints and returns 0, on every console in order; such computations compose.\<close>

definition says :: "u32 \<Rightarrow> devices \<Rightarrow> u32 list \<Rightarrow> (console \<Rightarrow> (int \<times> console) option) \<Rightarrow> bool" where
  "says b d out f \<longleftrightarrow> (\<forall>s. crt_ok b s \<longrightarrow> f s = Some (0, prints d out s))"

lemma says_done: "says b d [] (\<lambda>s. Some (0, s))"
  by (simp add: says_def prints_def)

lemma says_then: "says b d o1 f \<Longrightarrow> says b d o2 g \<Longrightarrow> says b d (o1 @ o2) (\<lambda>s. do { (_, s) \<leftarrow> f s; g s })"
  by (simp add: says_def prints_append crt_ok_prints)

lemma says_words:
  assumes "render (bytes l) (map SInt ws) = Some out" "CHR 0x00 \<notin> set l" "length l < 4294967296"
  shows "says b d out (cprintf d (Lit l 0) (map Word ws))"
  using cprintf_words [OF _ assms] by (simp add: says_def)

lemmas says_word = says_words [where ws = "[n]" for n, unfolded list.map]
  and says_two = says_words [where ws = "[a, c]" for a c, unfolded list.map]
  and says_nothing = says_words [where ws = "[]", unfolded list.map]

lemma mon_kerninfo_says: "says b d (kerninfo_text sy) (mon_kerninfo d sy)"
proof -
  have "says b d ((chars (''Special kernel symbols:'' @ newline)) @
      (chars ''  _start                  '' @ hex8 (sym_start sy) @ chars ('' (phys)'' @ newline)) @
      symbol_text ''  entry  '' (sym_entry sy) @ symbol_text ''  etext  '' (sym_etext sy) @
      symbol_text ''  edata  '' (sym_edata sy) @ symbol_text ''  end    '' (sym_end sy) @
      (chars ''Kernel executable memory footprint: ''
       @ dec (of_int (sint (ROUNDUP (sym_end sy - sym_entry sy) 1024) sdiv 1024)) @ chars (''KB'' @ newline)) @ []) (mon_kerninfo d sy)"
    unfolding mon_kerninfo_def [abs_def]
    by (intro says_then says_done says_nothing [OF render_footprint(3)] says_word [OF render_footprint(2)]
        says_two [OF render_symbol(1)] says_two [OF render_symbol(2)] says_two [OF render_symbol(3)]
        says_two [OF render_symbol(4)] says_word [OF render_footprint(1)]) simp_all
  then show ?thesis by (simp add: kerninfo_text_def)
qed


lemma mon_help_says: "says b d help_text (mon_help d)"
  unfolding says_def
proof (intro allI impI)
  fix s :: console assume "crt_ok b s"
  from help_loop_prints [OF this, of commands] show "mon_help d s = Some (0, prints d help_text s)"
    by (simp add: mon_help_def help_text_def commands_def)
qed

section \<open>What a line makes the monitor print\<close>

definition command_output :: "symbols \<Rightarrow> u8 list \<Rightarrow> u32 list" where
  "command_output sy l =
     (let ws = words_of l in
      if length ws > 15 then chars (''Too many arguments (max 16)'' @ newline)
      else if ws = [] then []
      else if ws ! 0 = bytes ''help'' then help_text
      else if ws ! 0 = bytes ''kerninfo'' then kerninfo_text sy
      else chars (''Unknown command '' @ [CHR 0x27]) @ plain_str (ws ! 0) @ chars ([CHR 0x27] @ newline))"

lemma lookup_command_finds:
  assumes "cstr m q w" "\<forall>c \<in> set cs. CHR 0x00 \<notin> set (name c)"
  shows "lookup_command m q cs = Some (map_option func (find (\<lambda>c. w = bytes (name c)) cs))"
  using assms(2)
proof (induction cs)
  case (Cons c cs)
  have n: "cstr m (Lit (name c) 0) (bytes (name c))" using Cons.prems by (intro cstr_Lit) simp
  then have "strcmp m q (Lit (name c) 0) = Some (cmp_bytes w (bytes (name c)))" using assms(1) by (rule strcmp_cmp_bytes [rotated])
  moreover have "cmp_bytes w (bytes (name c)) = 0 \<longleftrightarrow> w = bytes (name c)"
    using cmp_bytes_0 cstr_nonzero [OF assms(1)] cstr_nonzero [OF n] by blast
  ultimately show ?case using Cons by simp
qed simp

lemma render_monitor:
  "render (bytes (''Too many arguments (max %d)'' @ newline)) [SInt 16] = Some (chars (''Too many arguments (max 16)'' @ newline))"
  "render (bytes (''Unknown command '' @ [CHR 0x27] @ ''%s'' @ [CHR 0x27] @ newline)) [SStr w] =
     Some (chars (''Unknown command '' @ [CHR 0x27]) @ plain_str w @ chars ([CHR 0x27] @ newline))"
proof -
  have "dec 16 = [49, 54]" by code_simp
  then show "render (bytes (''Too many arguments (max %d)'' @ newline)) [SInt 16] = Some (chars (''Too many arguments (max 16)'' @ newline))"
    by (simp add: chars_simps render_steps)
qed (simp add: chars_simps render_steps)

lemma word_readable:
  assumes "word_at m p (Suc n) q w" "length w \<le> n" "n < 1024" "apart p b" "\<not> in_region p 1024 0"
  shows "arg_ok m (\<lambda>a. \<not> in_region b 4000 a) (Ptr q) (SStr w)"
proof -
  have in_buf: "in_region p 1024 a" if "touches q (Suc (length w)) a" for a
  proof -
    have "in_region p (Suc n) a" using that assms(1) by (simp add: word_at_def)
    then show ?thesis by (rule in_region_mono) (use assms(3) in simp)
  qed
  then have "q \<noteq> NULL" using assms(5) by auto
  then show ?thesis using assms(1-4) in_buf by (auto simp: word_at_def apart_def)
qed

lemma runcmd_prints:
  assumes ok: "crt_ok b s" and l: "cstr (m_mem s) (Mem p) l" "length l < 1024" and ap: "apart p b"
    and nz: "\<not> in_region p 1024 0"
  shows "\<exists>m'. runcmd d sy (Mem p) s = Some (0, prints d (command_output sy l) (s\<lparr>m_mem := m'\<rparr>))
    \<and> (\<forall>a. \<not> in_region p (length l) a \<longrightarrow> m' a = m_mem s a)"
proof -
  have "parsed (m_mem s) p l [] (parse_args (m_mem s) (Mem p) [])" using l by (intro parse_args_words) simp_all
  then obtain m' new where
    p: "parse_args (m_mem s) (Mem p) [] = Some (if length (words_of l) \<le> 15 then Some new else None, m')"
    and new: "length (words_of l) \<le> 15 \<Longrightarrow> list_all2 (word_at m' p (Suc (length l))) new (words_of l)"
    and out: "\<forall>a. \<not> in_region p (length l) a \<longrightarrow> m' a = m_mem s a"
    by (auto simp: parsed_def)
  let ?t = "s\<lparr>m_mem := m'\<rparr>"
  have okt: "crt_ok b ?t" using ok by (simp add: crt_ok_def)
  have says: "says b d o1 f \<Longrightarrow> f ?t = Some (0, prints d o1 ?t)" for o1 f using okt by (simp add: says_def)
  have "runcmd d sy (Mem p) s = Some (0, prints d (command_output sy l) ?t)"
  proof (cases "length (words_of l) \<le> 15")
    case False
    have "cprintf d (Lit (''Too many arguments (max %d)'' @ newline) 0) [Word 16] ?t =
        Some (0, prints d (chars (''Too many arguments (max 16)'' @ newline)) ?t)"
      by (rule says [OF says_word [OF render_monitor(1)]]) simp_all
    then show ?thesis using p False by (simp add: runcmd_def MAXARGS_def command_output_def)
  next
    case True
    show ?thesis
    proof (cases "words_of l")
      case Nil
      then show ?thesis using p new by (simp add: runcmd_def command_output_def prints_def)
    next
      case (Cons w ws)
      then obtain q qs where q: "new = q # qs" "word_at m' p (Suc (length l)) q w"
        using new [OF True] by (auto simp: list_all2_Cons2)
      have f: "lookup_command m' q commands = Some (if w = bytes ''help'' then Some Mon_help
          else if w = bytes ''kerninfo'' then Some Mon_kerninfo else None)"
        using q(2) lookup_command_finds [of m' q w commands] by (simp add: word_at_def commands_def)
      have "length w \<le> length l" using words_of_length [of w l] Cons by simp
      then have "arg_ok m' (\<lambda>a. \<not> in_region b 4000 a) (Ptr q) (SStr w)"
        using q(2) l(2) ap nz by (intro word_readable)
      then have u: "cprintf d (Lit (''Unknown command '' @ [CHR 0x27] @ ''%s'' @ [CHR 0x27] @ newline) 0) [Ptr q] ?t = Some (0, prints d
          (chars (''Unknown command '' @ [CHR 0x27]) @ plain_str w @ chars ([CHR 0x27] @ newline)) ?t)"
        by (intro cprintf_prints [OF okt render_monitor(2)]) (simp_all del: arg_ok.simps)
      show ?thesis
        using p True Cons q(1) f u says [OF mon_help_says] says [OF mon_kerninfo_says]
        by (simp add: runcmd_def invoke_def command_output_def del: append_Cons append.simps)
    qed
  qed
  then show ?thesis using out by blast
qed


section \<open>The dialogue\<close>

lemma edit_line_rest: "edit_line line cs = Some (l, e, r) \<Longrightarrow> length r < length cs"
proof (induction cs arbitrary: line e)
  case (Cons c cs)
  from Cons.prems show ?case
    by (cases rule: edit_line_cases) (use Cons.IH in \<open>force+\<close>)
qed simp

lemma readline_prompt:
  assumes "crt_ok b s"
  shows "readline d buf (Lit ''K> '' 0) s = readline_loop d buf True 0 (prints d (chars ''K> '') s)"
proof -
  have "plain_str (bytes ''K> '') = chars ''K> ''" by code_simp
  then have "prompt_text (m_mem s) b (Lit ''K> '' 0) (chars ''K> '')"
    using arg_ok_Lit [of "''K> ''" "m_mem s"] by (auto simp: prompt_text_def intro!: exI [of _ "bytes ''K> ''"])
  then show ?thesis by (rule readline_prints [OF assms])
qed

lemma monitor_step:
  assumes e: "edit_line [] (available input s) = Some (l, e, r)"
    and ok: "crt_ok b s" "input_ok input d s" and buf: "apart buf b" "\<not> in_region buf 1024 0"
  shows "\<exists>t. monitor_round d sy buf s = Some (False, t)
    \<and> talks input d b s (chars ''K> '' @ map ucast e @ command_output sy l) t \<and> available input t = r"
proof -
  let ?u = "prints d (chars ''K> '') s"
  have u: "talks input d b s (chars ''K> '') ?u" "available input ?u = available input s"
    using prints_talks [OF ok] by blast+
  have oku: "crt_ok b ?u" "input_ok input d ?u" using u(1) by (simp_all add: talks_def)
  have eu: "edit_line [] (available input ?u) = Some (l, e, r)" using e u(2) by simp
  have "holds_line buf [] ?u" by (simp add: holds_line_def)
  from readline_loop_edit [OF eu oku buf(1) this] obtain v where v: "readline_loop d buf True 0 ?u = Some (Mem buf, v)" "session input d b ?u e v"
    "available input v = r" "cstr (m_mem v) (Mem buf) l"
    by auto
  have tv: "talks input d b ?u (map ucast e) v" by (rule session_talks [OF v(2) edit_line_echo [OF e]])
  have okv: "crt_ok b v" "input_ok input d v" using tv by (simp_all add: talks_def)
  have len: "length l < 1024" using edit_line_line [OF e] by simp
  obtain m' where m': "runcmd d sy (Mem buf) v = Some (0, prints d (command_output sy l) (v\<lparr>m_mem := m'\<rparr>))"
    "\<forall>a. \<not> in_region buf (length l) a \<longrightarrow> m' a = m_mem v a"
    using runcmd_prints [OF okv(1) v(4) len buf] by blast
  let ?w = "v\<lparr>m_mem := m'\<rparr>"
  have same: "same_ring v ?w" "serial_exists ?w = serial_exists v" "port_in 0x3F8 (m_io ?w) = port_in 0x3F8 (m_io v)"
    by (simp_all add: same_ring_def)
  have okw: "crt_ok b ?w" "input_ok input d ?w" using okv same input_ok_cong(1) [OF okv(2)] by (auto simp: crt_ok_def)
  have "screen_of ?w = screen_of v"
  proof (rule screen_of_cong)
    fix a assume "in_region (crt_buf v) 4000 a"
    then have "\<not> in_region buf 1024 a" using buf(1) okv(1) by (auto simp: apart_def crt_ok_def)
    then show "m_mem ?w a = m_mem v a" using m'(2) len in_region_mono [of buf "length l" a 1024] by auto
  qed simp_all
  then have "talks input d b v [] ?w" using okw by (simp add: talks_def)
  note tw = talks_trans [OF this prints_talks(1) [OF okw, of "command_output sy l"]]
  have "available input ?w = r" using input_ok_cong(2) [OF okv(2) same] v(3) by simp
  then have "available input (prints d (command_output sy l) ?w) = r" using prints_talks(2) [OF okw] by simp
  moreover have "buf \<noteq> 0" using buf(2) by auto
  then have "monitor_round d sy buf s = Some (False, prints d (command_output sy l) ?w)"
    using readline_prompt [OF ok(1), of d buf] v(1) m'(1) by (simp add: monitor_round_def)
  ultimately show ?thesis using talks_trans [OF u(1) talks_trans [OF tv tw]] by auto
qed


text \<open>What the monitor prints for all the complete lines of an input.\<close>

function dialogue :: "symbols \<Rightarrow> u8 list \<Rightarrow> u32 list" where
  "dialogue sy inp = (case edit_line [] inp of
       None \<Rightarrow> []
     | Some (l, e, r) \<Rightarrow> chars ''K> '' @ map ucast e @ command_output sy l @ dialogue sy r)"
  by pat_completeness auto
termination by (relation "measure (\<lambda>(sy, inp). length inp)") (auto dest: edit_line_rest)

declare dialogue.simps [simp del]

lemma monitor_reaches_dialogue:
  assumes "crt_ok b s" "input_ok input d s" "apart buf b" "\<not> in_region buf 1024 0" "monitor_reaches d sy buf s0 s"
  shows "\<exists>t. monitor_reaches d sy buf s0 t \<and> talks input d b s (dialogue sy (available input s)) t
    \<and> edit_line [] (available input t) = None"
  using assms
proof (induction "available input s" arbitrary: s rule: length_induct)
  case (1 s)
  show ?case
  proof (cases "edit_line [] (available input s)")
    case None
    then have "dialogue sy (available input s) = []" by (subst dialogue.simps) simp
    then show ?thesis using None "1.prems" by (intro exI [of _ s]) (simp add: talks_def)
  next
    case (Some x)
    then obtain l e r where e: "edit_line [] (available input s) = Some (l, e, r)" by (cases x) auto
    obtain u where u: "monitor_round d sy buf s = Some (False, u)"
      "talks input d b s (chars ''K> '' @ map ucast e @ command_output sy l) u" "available input u = r"
      using monitor_step [OF e "1.prems"(1-4)] by blast
    have "length (available input u) < length (available input s)" using edit_line_rest [OF e] u(3) by simp
    moreover have "crt_ok b u" "input_ok input d u" using u(2) by (simp_all add: talks_def)
    moreover have "monitor_reaches d sy buf s0 u" using "1.prems"(5) u(1) by (rule monitor_reaches.round)
    ultimately obtain t where "monitor_reaches d sy buf s0 t"
      "talks input d b u (dialogue sy (available input u)) t" "edit_line [] (available input t) = None"
      using "1.hyps" "1.prems"(3,4) by blast
    moreover have "dialogue sy (available input s) = (chars ''K> '' @ map ucast e @ command_output sy l) @ dialogue sy r"
      by (subst dialogue.simps) (simp add: e)
    ultimately show ?thesis using talks_trans [OF u(2)] u(3) by (intro exI [of _ t]) simp
  qed
qed

definition banner_text :: "u32 list" where
  "banner_text = chars banner @ chars (''Type '' @ [CHR 0x27] @ ''help'' @ [CHR 0x27] @ '' for a list of commands.'' @ newline)"

lemma monitor_banner:
  assumes "crt_ok b s"
  shows "monitor_start d s = Some (prints d banner_text s)"
proof -
  have b: "render (bytes banner) [] = Some (chars banner)"
    unfolding chars_def by (rule render_plain) (simp add: banner_def escape_def bytes_def)
  have h: "render (bytes (''Type '' @ [CHR 0x27] @ ''help'' @ [CHR 0x27] @ '' for a list of commands.'' @ newline)) [] =
      Some (chars (''Type '' @ [CHR 0x27] @ ''help'' @ [CHR 0x27] @ '' for a list of commands.'' @ newline))"
    unfolding chars_def by (rule render_plain) (simp add: bytes_def)
  have "cprintf d (Lit banner 0) [] s = Some (0, prints d (chars banner) s)"
    by (rule cprintf_prints [OF assms b]) (simp_all add: banner_def escape_def)
  moreover have "cprintf d (Lit (''Type '' @ [CHR 0x27] @ ''help'' @ [CHR 0x27] @ '' for a list of commands.'' @ newline) 0) []
      (prints d (chars banner) s) = Some (0, prints d banner_text s)"
    unfolding banner_text_def prints_append by (rule cprintf_prints [OF crt_ok_prints [OF assms] h]) simp_all
  ultimately show ?thesis by (simp add: monitor_start_def)
qed

lemma monitor_talks:
  assumes "crt_ok b s" "input_ok input d s" "apart buf b" "\<not> in_region buf 1024 0"
  shows "\<exists>t. monitor_reaches d sy buf s t \<and> talks input d b s (banner_text @ dialogue sy (available input s)) t
    \<and> edit_line [] (available input t) = None"
proof -
  let ?u = "prints d banner_text s"
  have u: "talks input d b s banner_text ?u" "available input ?u = available input s"
    using prints_talks [OF assms(1,2)] by blast+
  have r: "monitor_reaches d sy buf s ?u" by (rule monitor_reaches.start [OF monitor_banner [OF assms(1)]])
  have "crt_ok b ?u" "input_ok input d ?u" using u(1) by (simp_all add: talks_def)
  from monitor_reaches_dialogue [OF this assms(3,4) r] show ?thesis using talks_trans [OF u(1)] unfolding u(2) by blast
qed

section \<open>Properties of the monitor\<close>

text \<open>(C6) The monitor prints its banner and then holds the dialogue with the input that is pending or
  waiting on the serial line: it reaches a round of its loop in which no complete line is left,
  and by then it has printed, for every complete line, the prompt, the echo of the editing, and
  the output of the command, in this order, on the screen and on the two ports.\<close>

theorem monitor_dialogue:
  assumes "crt_ok b s" "input_ok input d s" "apart buf b" "\<not> in_region buf 1024 0"
  shows "\<exists>t. monitor_reaches d sy buf s t
    \<and> screen_of t = fold screen_putc (banner_text @ dialogue sy (available input s)) (screen_of s)
    \<and> port_out 0x3F8 (m_io t) = port_out 0x3F8 (m_io s) @ concat (map cons_bytes (banner_text @ dialogue sy (available input s)))
    \<and> port_out 0x378 (m_io t) = port_out 0x378 (m_io s) @ concat (map cons_bytes (banner_text @ dialogue sy (available input s)))
    \<and> edit_line [] (available input t) = None"
  using monitor_talks [OF assms, of sy] unfolding talks_def by blast

text \<open>A computation that can only return 0.\<close>

definition yields_0 :: "(console \<Rightarrow> (int \<times> console) option) \<Rightarrow> bool" where
  "yields_0 f \<longleftrightarrow> (\<forall>s r t. f s = Some (r, t) \<longrightarrow> r = 0)"

lemma yields_0D: "yields_0 f \<Longrightarrow> f s = Some (r, t) \<Longrightarrow> r = 0"
  by (auto simp: yields_0_def)

lemma yields_0_done: "yields_0 (\<lambda>s. Some (0, s))"
  by (simp add: yields_0_def)

lemma yields_0_then: "yields_0 g \<Longrightarrow> yields_0 (\<lambda>s. do { (_, s) \<leftarrow> f s; g s })"
  by (auto simp: yields_0_def bind_eq_Some_conv)

lemma mon_kerninfo_0: "yields_0 (mon_kerninfo d sy)"
  unfolding mon_kerninfo_def [abs_def] by (intro yields_0_then yields_0_done)

lemma mon_help_0: "yields_0 (mon_help d)"
  by (auto simp: yields_0_def mon_help_def bind_eq_Some_conv)

lemma cprintf_0: "yields_0 (\<lambda>s. do { (_, s) \<leftarrow> cprintf d fmt ap s; Some (0, s) })"
  by (intro yields_0_then yields_0_done)

lemma run_args_0: "yields_0 (run_args d sy args)"
  unfolding yields_0_def
proof (intro allI impI)
  fix s r t assume a: "run_args d sy args s = Some (r, t)"
  have c: "r = 0" if "do { (_, s) \<leftarrow> cprintf d fmt ap s; Some (0, s) } = Some (r, t)" for fmt ap
    using yields_0D [OF cprintf_0 [of d fmt ap], of s r t] that by simp
  have i: "r = 0" if "invoke d sy f s = Some (r, t)" for f
    using that yields_0D [OF mon_help_0, of d s r t] yields_0D [OF mon_kerninfo_0, of d sy s r t]
    by (cases f) (simp_all add: invoke_def)
  from a show "r = 0"
    by (cases "(d, sy, args, s)" rule: run_args.cases) (auto simp: bind_eq_Some_conv intro: i split: option.splits)
qed

lemma runcmd_0: "yields_0 (runcmd d sy buf)"
  using yields_0D [OF run_args_0] by (auto simp: yields_0_def runcmd_def bind_eq_Some_conv)

lemma runcmd_result: "runcmd d sy buf s = Some (r, t) \<Longrightarrow> r = 0"
  by (rule yields_0D [OF runcmd_0])

lemma monitor_round_goes_on: "monitor_round d sy buf s = Some (brk, t) \<Longrightarrow> \<not> brk"
  by (auto simp: monitor_round_def bind_eq_Some_conv dest: runcmd_result split: if_splits)

lemma monitor_loop_never: "monitor_loop d sy buf s = Some t \<Longrightarrow> False"
proof (erule monitor_loop.raw_induct [where P = "\<lambda>d sy buf s t. False", rotated])
  fix rec d sy buf s t
  assume IH: "\<And>d sy buf s t. rec d sy buf s = Some t \<Longrightarrow> False"
    and "do { (brk, s) \<leftarrow> monitor_round d sy buf s; if brk then Some s else rec d sy buf s } = Some t"
  then obtain brk u where r: "monitor_round d sy buf s = Some (brk, u)" "(if brk then Some u else rec d sy buf u) = Some t"
    by (auto simp: bind_eq_Some_conv)
  then show False using IH monitor_round_goes_on [OF r(1)] by (cases brk) simp_all
qed

theorem monitor_dialogue_witness:
  "\<exists>t. monitor_reaches (line_devices [104, 105, 13]) \<lparr>sym_start = 0x10000C, sym_entry = 0xF010000C, sym_etext = 0xF0101A00,
      sym_edata = 0xF0112300, sym_end = 0xF0112960\<rparr> 0x2000 blank_console t
    \<and> port_out 0x3F8 (m_io t) = concat (map cons_bytes banner_text) @ bytes ''K> '' @ [104, 105, 10]
        @ bytes (''Unknown command '' @ [CHR 0x27] @ ''hi'' @ [CHR 0x27] @ newline)"
proof -
  let ?i = "[104, 105, 13] :: u8 list" and ?sy = "\<lparr>sym_start = 0x10000C, sym_entry = 0xF010000C, sym_etext = 0xF0101A00,
      sym_edata = 0xF0112300, sym_end = 0xF0112960\<rparr>"
  have "input_ok ?i (line_devices ?i) blank_console" and av: "available ?i blank_console = ?i"
    using uart_line [of ?i] ring_ok_blank by (simp_all add: input_ok_def available_def waiting_def)
  moreover have "\<not> in_region 0x2000 1024 0" by (simp add: in_region_def)
  ultimately obtain t where "monitor_reaches (line_devices ?i) ?sy 0x2000 blank_console t"
    "port_out 0x3F8 (m_io t) = port_out 0x3F8 (m_io blank_console) @ concat (map cons_bytes (banner_text @ dialogue ?sy ?i))"
    using monitor_dialogue [OF crt_ok_blank _ apart_sample, of ?i "line_devices ?i" ?sy] by auto
  moreover have "edit_line [] ?i = Some ([104, 105], [104, 105, 10], [])" by code_simp
  moreover have "dialogue ?sy [] = []" by (subst dialogue.simps) simp
  moreover have "words_of [104, 105] = [[104, 105]]" by code_simp
  ultimately show ?thesis
    by (intro exI [of _ t]) (subst (asm) dialogue.simps,
      simp add: command_output_def chars_simps cons_bytes_def plain_str_def show_char_def)
qed

text \<open>(C15) The monitor never returns, since no command has a negative result; in particular the code
  after it in \<^verbatim>\<open>i386_init\<close> and in \<^verbatim>\<open>_panic\<close> is not reached.\<close>

theorem monitor_never_returns: "monitor d sy buf s \<noteq> Some t"
  using monitor_loop_never by (auto simp: monitor_def bind_eq_Some_conv)


section \<open>The backtrace\<close>

text \<open>The chain of frame pointers from an address on, each the first word of the previous frame.\<close>

fun stack_to :: "mem \<Rightarrow> u32 \<Rightarrow> u32 list \<Rightarrow> u32 \<Rightarrow> bool" where
  "stack_to m ebp [] e \<longleftrightarrow> ebp = e"
| "stack_to m ebp (f # fs) e \<longleftrightarrow> ebp = f \<and> f \<noteq> 0 \<and> stack_to m (ld32 m f) fs e"

text \<open>The whole chain, which ends in 0.\<close>

fun stack_chain :: "mem \<Rightarrow> u32 \<Rightarrow> u32 list \<Rightarrow> bool" where
  "stack_chain m ebp [] \<longleftrightarrow> ebp = 0"
| "stack_chain m ebp (f # fs) \<longleftrightarrow> ebp = f \<and> f \<noteq> 0 \<and> stack_chain m (ld32 m f) fs"

lemma stack_chain_to: "stack_chain m ebp fs \<longleftrightarrow> stack_to m ebp fs 0"
  by (induction fs arbitrary: ebp) auto

text \<open>What the debugger knows of a return address, with the strings it points to.\<close>

record frame_info =
  fi_info :: Eipdebuginfo
  fi_file :: "u8 list"
  fi_name :: "u8 list"

definition frame_regs :: "mem \<Rightarrow> u32 \<Rightarrow> u32 list" where
  "frame_regs m f =
     chars ''  ebp '' @ hex8 f @ chars ''  eip '' @ hex8 (ld32 m (f + 4)) @ chars ''  args ''
     @ hex8 (ld32 m (f + 8)) @ chars '' '' @ hex8 (ld32 m (f + 12)) @ chars '' '' @ hex8 (ld32 m (f + 16))
     @ chars '' '' @ hex8 (ld32 m (f + 20)) @ chars '' '' @ hex8 (ld32 m (f + 24)) @ chars newline"

definition frame_source :: "mem \<Rightarrow> u32 \<Rightarrow> frame_info \<Rightarrow> u32 list" where
  "frame_source m f i =
     chars ''         '' @ plain_str (fi_file i) @ chars '':'' @ dec (of_int (eip_line (fi_info i))) @ chars '': ''
     @ cut_str (of_int (eip_fn_namelen (fi_info i))) (fi_name i) @ chars ''+''
     @ dec (ld32 m (f + 4) - eip_fn_addr (fi_info i)) @ chars newline"

definition frame_text :: "mem \<Rightarrow> u32 \<Rightarrow> frame_info \<Rightarrow> u32 list" where
  "frame_text m f i = frame_regs m f @ frame_source m f i"

definition frame_ok :: "symtab \<Rightarrow> mem \<Rightarrow> u32 \<Rightarrow> u32 \<Rightarrow> frame_info \<Rightarrow> bool" where
  "frame_ok tab m b f i \<longleftrightarrow>
     (\<forall>a. in_region f 28 a \<longrightarrow> \<not> in_region b 4000 a) \<and>
     (\<forall>m'. (\<forall>a. \<not> in_region b 4000 a \<longrightarrow> m' a = m a) \<longrightarrow>
        (\<exists>r. debuginfo_eip tab m' (ld32 m (f + 4)) = Some (Inr (r, fi_info i)))) \<and>
     arg_ok m (\<lambda>a. \<not> in_region b 4000 a) (Ptr (eip_file (fi_info i))) (SStr (fi_file i)) \<and>
     arg_ok m (\<lambda>a. \<not> in_region b 4000 a) (Ptr (eip_fn_name (fi_info i))) (SStr (fi_name i))"

lemma render_frame:
  "render (bytes (''  ebp %08x  eip %08x  args %08x %08x %08x %08x %08x'' @ newline))
     [SInt a, SInt b, SInt c, SInt d, SInt e, SInt f, SInt g] =
   Some (chars ''  ebp '' @ hex8 a @ chars ''  eip '' @ hex8 b @ chars ''  args '' @ hex8 c @ chars '' '' @ hex8 d
     @ chars '' '' @ hex8 e @ chars '' '' @ hex8 f @ chars '' '' @ hex8 g @ chars newline)"
  "render (bytes (''         %s:%d: %.*s+%d'' @ newline)) [SStr x, SInt l, SInt n, SStr y, SInt z] =
   Some (chars ''         '' @ plain_str x @ chars '':'' @ dec l @ chars '': '' @ cut_str n y @ chars ''+'' @ dec z @ chars newline)"
  by (simp_all add: chars_simps render_steps)

lemma mem_prints: "crt_ok b s \<Longrightarrow> \<not> in_region b 4000 a \<Longrightarrow> m_mem (prints d out s) a = m_mem s a"
  unfolding prints_def
proof (induction out arbitrary: s)
  case (Cons c out)
  then show ?case using crt_ok_cputchar [OF Cons.prems(1), of d c] by (simp add: mem_cputchar)
qed simp

lemma ebp_prints: "crt_ok b s \<Longrightarrow> m_ebp (prints d out s) = m_ebp s"
  using emits_fold [of b s out d] by (auto simp: emits_def prints_def)

lemma ld32_frame:
  assumes "\<forall>a. in_region f 28 a \<longrightarrow> \<not> in_region b 4000 a" "\<And>a. \<not> in_region b 4000 a \<Longrightarrow> m' a = m a" "k \<le> 24"
  shows "ld32 m' (f + of_nat k) = ld32 m (f + of_nat k)"
proof -
  have "m' (f + of_nat (k + i)) = m (f + of_nat (k + i))" if "i < 4" for i
    using assms that by (simp add: in_region_offset del: of_nat_add)
  from this [of 0] this [of 1] this [of 2] this [of 3] show ?thesis by (simp add: ld32_def ac_simps)
qed

lemma print_regs:
  assumes "crt_ok b s"
  shows "cprintf d (Lit (''  ebp %08x  eip %08x  args %08x %08x %08x %08x %08x'' @ newline) 0)
      ([Word f, Word (ld32 m (f + 4))] @ map Word [ld32 m (f + 8), ld32 m (f + 12), ld32 m (f + 16), ld32 m (f + 20), ld32 m (f + 24)]) s
    = Some (0, prints d (frame_regs m f) s)"
  unfolding frame_regs_def by (rule cprintf_prints [OF assms render_frame(1)]) simp_all

lemma print_source:
  assumes "crt_ok b s" "frame_ok tab m b f i" "\<And>a. \<not> in_region b 4000 a \<Longrightarrow> m_mem s a = m a"
  shows "cprintf d (Lit (''         %s:%d: %.*s+%d'' @ newline) 0)
      [Ptr (eip_file (fi_info i)), Word (of_int (eip_line (fi_info i))), Word (of_int (eip_fn_namelen (fi_info i))),
       Ptr (eip_fn_name (fi_info i)), Word (ld32 m (f + 4) - eip_fn_addr (fi_info i))] s = Some (0, prints d (frame_source m f i) s)"
proof -
  have "args_ok m (\<lambda>a. \<not> in_region b 4000 a) [Ptr (eip_file (fi_info i)), Word l, Word n, Ptr (eip_fn_name (fi_info i)), Word z]
      [SStr (fi_file i), SInt l, SInt n, SStr (fi_name i), SInt z]" for l n z
    using assms(2) unfolding frame_ok_def by (intro list.rel_intros arg_ok_Word) simp_all
  note a = args_ok_cong [OF this assms(3)]
  show ?thesis unfolding frame_source_def by (rule cprintf_prints [OF assms(1) render_frame(2) _ _ a]) simp_all
qed

lemma backtrace_loop_prints:
  assumes "crt_ok b s" "stack_to m ebp (map fst fs) e" "\<forall>(f, i) \<in> set fs. frame_ok tab m b f i"
    and "\<And>a. \<not> in_region b 4000 a \<Longrightarrow> m_mem s a = m a"
  shows "backtrace_loop d tab ebp s = backtrace_loop d tab e (prints d (concat (map (\<lambda>(f, i). frame_text m f i) fs)) s)"
  using assms
proof (induction fs arbitrary: ebp s)
  case Nil
  then show ?case by (simp add: prints_def)
next
  case (Cons fi fs)
  obtain f i where fi: "fi = (f, i)" by (cases fi)
  have f: "ebp = f" "f \<noteq> 0" "stack_to m (ld32 m f) (map fst fs) e" "frame_ok tab m b f i" using Cons.prems(2,3) fi by auto
  note ok = f(4) [unfolded frame_ok_def]
  let ?s1 = "prints d (frame_regs m f) s" and ?s2 = "prints d (frame_source m f i) (prints d (frame_regs m f) s)"
  have ld: "ld32 m' (f + of_nat k) = ld32 m (f + of_nat k)" if "k \<le> 24" "\<And>a. \<not> in_region b 4000 a \<Longrightarrow> m' a = m a" for k m'
    using ok that by (intro ld32_frame [of f b]) auto
  note lds = ld [of 0, OF _ Cons.prems(4)] ld [of 4, OF _ Cons.prems(4)] ld [of 8, OF _ Cons.prems(4)] ld [of 12, OF _ Cons.prems(4)]
    ld [of 16, OF _ Cons.prems(4)] ld [of 20, OF _ Cons.prems(4)] ld [of 24, OF _ Cons.prems(4)]
  obtain r where dbg: "debuginfo_eip tab (m_mem s) (ld32 m (f + 4)) = Some (Inr (r, fi_info i))"
    using ok Cons.prems(4) by blast
  have c: "crt_ok b ?s1" "crt_ok b ?s2" using Cons.prems(1) by (simp_all add: crt_ok_prints)
  have m: "m_mem ?s1 a = m a" "m_mem ?s2 a = m a" if "\<not> in_region b 4000 a" for a
    using mem_prints [OF Cons.prems(1) that] mem_prints [OF c(1) that] Cons.prems(4) [OF that] by simp_all
  have nx: "ld32 (m_mem ?s2) f = ld32 m f" using ld [of 0, OF _ m(2)] by simp
  have "backtrace_loop d tab ebp s = backtrace_loop d tab (ld32 m f) ?s2"
    using f(1,2) lds dbg nx print_regs [OF Cons.prems(1), of d f m] print_source [OF c(1) f(4) m(1), of d]
    by (subst backtrace_loop.simps) (simp del: append.simps)
  also have "\<dots> = backtrace_loop d tab e (prints d (concat (map (\<lambda>(f, i). frame_text m f i) fs)) ?s2)"
    using c(2) f(3) Cons.prems(3) m(2) by (intro Cons.IH) auto
  finally show ?case by (simp add: fi frame_text_def prints_append)
qed


definition backtrace_text :: "mem \<Rightarrow> (u32 \<times> frame_info) list \<Rightarrow> u32 list" where
  "backtrace_text m fs = chars (''Stack backtrace:'' @ newline) @ concat (map (\<lambda>(f, i). frame_text m f i) fs)"

lemma mon_backtrace_frames:
  assumes "crt_ok b s" "stack_to m (m_ebp s) (map fst fs) e" "\<forall>(f, i) \<in> set fs. frame_ok tab m b f i"
    and "\<And>a. \<not> in_region b 4000 a \<Longrightarrow> m_mem s a = m a"
  shows "mon_backtrace d tab s = do { r \<leftarrow> backtrace_loop d tab e (prints d (backtrace_text m fs) s);
    Some (case r of Inl p \<Rightarrow> Inl p | Inr s \<Rightarrow> Inr (0, s)) }"
proof -
  let ?h = "chars (''Stack backtrace:'' @ newline)" and ?o = "concat (map (\<lambda>(f, i). frame_text m f i) fs)"
  let ?u = "prints d ?h s"
  have "render (bytes (''Stack backtrace:'' @ newline)) [] = Some ?h" unfolding chars_def by (rule render_plain) (simp add: bytes_def)
  then have h: "cprintf d (Lit (''Stack backtrace:'' @ newline) 0) [] s = Some (0, ?u)"
    by (rule cprintf_prints [OF assms(1)]) simp_all
  have "backtrace_loop d tab (m_ebp s) ?u = backtrace_loop d tab e (prints d ?o ?u)"
    using mem_prints [OF assms(1)] assms(4) by (intro backtrace_loop_prints [OF crt_ok_prints [OF assms(1)] assms(2,3)]) simp
  moreover have "read_ebp ?u = m_ebp s" using ebp_prints [OF assms(1)] by (simp add: read_ebp_def)
  ultimately show ?thesis by (simp add: mon_backtrace_def h prints_append backtrace_text_def del: append.simps)
qed

lemma mon_backtrace_run:
  assumes "crt_ok b s" "stack_chain m (m_ebp s) (map fst fs)" "\<forall>(f, i) \<in> set fs. frame_ok tab m b f i"
    and "\<And>a. \<not> in_region b 4000 a \<Longrightarrow> m_mem s a = m a"
  shows "mon_backtrace d tab s = Some (Inr (0, prints d (backtrace_text m fs) s))"
  using mon_backtrace_frames [OF assms(1) assms(2) [unfolded stack_chain_to] assms(3,4), of d]
  by (simp add: backtrace_loop.simps [of _ _ 0])

text \<open>A frame that returns to an address of user space makes the debugger panic.\<close>

lemma mon_backtrace_user:
  assumes "crt_ok b s" "stack_to m (m_ebp s) (map fst fs) e" "\<forall>(f, i) \<in> set fs. frame_ok tab m b f i"
    and "\<And>a. \<not> in_region b 4000 a \<Longrightarrow> m_mem s a = m a"
    and e: "e \<noteq> 0" "ld32 m (e + 4) < ULIM" "\<forall>a. in_region e 28 a \<longrightarrow> \<not> in_region b 4000 a"
  shows "mon_backtrace d tab s = Some (Inl (''User address'', prints d (backtrace_text m fs) s))"
proof -
  let ?u = "prints d (backtrace_text m fs) s"
  have "m_mem ?u a = m a" if "\<not> in_region b 4000 a" for a using mem_prints [OF assms(1) that] assms(4) [OF that] by simp
  then have "ld32 (m_mem ?u) (e + 4) = ld32 m (e + 4)" using ld32_frame [OF e(3), of "m_mem ?u" m 4] by simp
  then have "debuginfo_eip tab (m_mem ?u) (ld32 (m_mem ?u) (e + 4)) = Some (Inl ''User address'')"
    using e(2) by (simp add: debuginfo_eip_user)
  then show ?thesis
    using e(1) mon_backtrace_frames [OF assms(1-4), of d] by (simp add: backtrace_loop.simps [of _ _ e])
qed

text \<open>(C11) Backtraces on a stack whose chain of frame pointers leads, outside the screen, through frames
  for whose return addresses the debugger has an answer, that is, neither panics nor leaves its
  tables. What is printed, frame by frame from the innermost one, is the frame pointer, the return
  address and five words of arguments in hexadecimal, and below them the file, the line, the
  function (cut to its length) and the offset that the debugger gives for the return address. When
  the chain ends in 0, \<^verbatim>\<open>mon_backtrace\<close> then returns 0. When it leads to a frame that returns to an
  address of user space, below \<^verbatim>\<open>ULIM\<close>, the debugger has no answer, and the backtrace panics there.\<close>

theorem mon_backtrace_prints:
  assumes "crt_ok b s" "\<forall>(f, i) \<in> set fs. frame_ok tab (m_mem s) b f i"
    and out: "out = chars (''Stack backtrace:'' @ newline) @ concat (map (\<lambda>(f, i). frame_text (m_mem s) f i) fs)"
  shows "\<exists>s'. screen_of s' = fold screen_putc out (screen_of s)
    \<and> port_out 0x3F8 (m_io s') = port_out 0x3F8 (m_io s) @ concat (map cons_bytes out)
    \<and> port_out 0x378 (m_io s') = port_out 0x378 (m_io s) @ concat (map cons_bytes out)
    \<and> (stack_chain (m_mem s) (m_ebp s) (map fst fs) \<longrightarrow> mon_backtrace d tab s = Some (Inr (0, s')))
    \<and> (\<forall>e. stack_to (m_mem s) (m_ebp s) (map fst fs) e \<longrightarrow> e \<noteq> 0 \<longrightarrow> ld32 (m_mem s) (e + 4) < ULIM
          \<longrightarrow> (\<forall>a. in_region e 28 a \<longrightarrow> \<not> in_region b 4000 a)
          \<longrightarrow> mon_backtrace d tab s = Some (Inl (''User address'', s')))"
proof (intro exI conjI impI allI)
  let ?s = "prints d (backtrace_text (m_mem s) fs) s"
  have o: "backtrace_text (m_mem s) fs = out" by (simp add: backtrace_text_def out del: append.simps)
  have e: "emits b s (concat (map cons_bytes out)) (fold screen_putc out (screen_of s)) ?s"
    using emits_fold [OF assms(1), of out d] by (simp add: prints_def o)
  show "screen_of ?s = fold screen_putc out (screen_of s)"
    "port_out 0x3F8 (m_io ?s) = port_out 0x3F8 (m_io s) @ concat (map cons_bytes out)"
    "port_out 0x378 (m_io ?s) = port_out 0x378 (m_io s) @ concat (map cons_bytes out)"
    using e by (simp_all add: emits_def)
  show "mon_backtrace d tab s = Some (Inr (0, ?s))" if "stack_chain (m_mem s) (m_ebp s) (map fst fs)"
    by (rule mon_backtrace_run [OF assms(1) that assms(2) refl])
  show "mon_backtrace d tab s = Some (Inl (''User address'', ?s))"
    if "stack_to (m_mem s) (m_ebp s) (map fst fs) e" "e \<noteq> 0" "ld32 (m_mem s) (e + 4) < ULIM"
      "\<forall>a. in_region e 28 a \<longrightarrow> \<not> in_region b 4000 a" for e
    by (rule mon_backtrace_user [OF assms(1) that(1) assms(2) refl that(2-4)])
qed

lemma replicate_nums: "replicate 4 x = [x, x, x, x]" "replicate 7 x = [x, x, x, x, x, x, x]"
  by (simp_all add: numeral_eq_Suc)

definition framed_console :: console where
  "framed_console = blank_console\<lparr>m_mem := st32 (\<lambda>_. 0) 0x8004 0xF0100068, m_ebp := 0x8000\<rparr>"

abbreviation no_stabs :: symtab where
  "no_stabs \<equiv> \<lparr>st_stabs = [], st_str = 0, st_str_end = 0\<rparr>"

definition unknown_frame :: frame_info where
  "unknown_frame = \<lparr>fi_info = \<lparr>eip_file = Lit ''<unknown>'' 0, eip_line = 0, eip_fn_name = Lit ''<unknown>'' 0,
     eip_fn_namelen = 9, eip_fn_addr = 0xF0100068, eip_fn_narg = 0\<rparr>, fi_file = bytes ''<unknown>'', fi_name = bytes ''<unknown>''\<rparr>"

lemma low_frame_apart: "in_region 0x8000 28 a \<Longrightarrow> \<not> in_region (KERNBASE + CGA_BUF) 4000 a"
proof -
  assume r: "in_region 0x8000 28 a"
  obtain j where j: "j < 28" "a = 0x8000 + of_nat j" using r unfolding in_region_iff by blast
  then have "unat (a - 0xF00B8000) = 0xFF50000 + j" by (simp add: unat_sub_if' unat_word_ariths unat_of_nat)
  then show ?thesis by (simp add: in_region_def KERNBASE_def CGA_BUF_def)
qed

lemma unknown_frame_ok:
  assumes "ld32 m 0x8004 = 0xF0100068"
  shows "frame_ok no_stabs m (KERNBASE + CGA_BUF) 0x8000 unknown_frame"
proof -
  note apart = low_frame_apart
  have "debuginfo_eip no_stabs m' 0xF0100068 = Some (Inr (- 1, fi_info unknown_frame))" for m'
    by (simp add: debuginfo_eip_def Let_def ULIM_value unknown_frame_def)
  then show ?thesis
    unfolding frame_ok_def using apart arg_ok_Lit [of "''<unknown>''"] by (simp add: assms unknown_frame_def del: arg_ok.simps)
qed

theorem mon_backtrace_prints_witness:
  "(\<exists>s'. mon_backtrace ready_devices \<lparr>st_stabs = [], st_str = 0, st_str_end = 0\<rparr> framed_console = Some (Inr (0, s'))
    \<and> port_out 0x3F8 (m_io s') = bytes (''Stack backtrace:'' @ newline
        @ ''  ebp 00008000  eip f0100068  args 00000000 00000000 00000000 00000000 00000000'' @ newline
        @ ''         <unknown>:0: <unknown>+0'' @ newline))
   \<and> (\<exists>s'. mon_backtrace ready_devices \<lparr>st_stabs = [], st_str = 0, st_str_end = 0\<rparr> (blank_console\<lparr>m_ebp := 0x8000\<rparr>) = Some (Inl (''User address'', s'))
    \<and> port_out 0x3F8 (m_io s') = bytes (''Stack backtrace:'' @ newline))"
proof -
  let ?tab = no_stabs and ?b = "KERNBASE + CGA_BUF" and ?i = unknown_frame
  let ?m = "st32 (\<lambda>_. 0) 0x8004 0xF0100068"
  have m: "m_mem framed_console = ?m" "m_ebp framed_console = 0x8000" "m_io framed_console = []"
    by (simp_all add: framed_console_def)
  have "ld32 ?m 0x8004 = 0xF0100068 \<and> ld32 ?m 0x8000 = 0 \<and> (\<forall>k \<in> set [0x8008, 0x800C, 0x8010, 0x8014, 0x8018]. ld32 ?m k = 0)"
    by code_simp
  then have ld: "ld32 ?m 0x8004 = 0xF0100068" "ld32 ?m 0x8000 = 0" "ld32 ?m 0x8008 = 0" "ld32 ?m 0x800C = 0" "ld32 ?m 0x8010 = 0"
    "ld32 ?m 0x8014 = 0" "ld32 ?m 0x8018 = 0" by simp_all
  have fr: "frame_ok ?tab ?m ?b 0x8000 ?i" using ld(1) by (rule unknown_frame_ok)
  have ok: "crt_ok ?b framed_console" using crt_ok_blank by (simp add: crt_ok_def framed_console_def)
  have one: "concat (map (\<lambda>(f, i). frame_text (m_mem framed_console) f i) [(0x8000, ?i)]) = frame_text ?m 0x8000 ?i"
    by (simp add: m)
  have out: "concat (map cons_bytes (chars (''Stack backtrace:'' @ newline)
      @ concat (map (\<lambda>(f, i). frame_text (m_mem framed_console) f i) [(0x8000, ?i)]))) =
      bytes (''Stack backtrace:'' @ newline
        @ ''  ebp 00008000  eip f0100068  args 00000000 00000000 00000000 00000000 00000000'' @ newline
        @ ''         <unknown>:0: <unknown>+0'' @ newline)"
  proof -
    have hex: "hex8 0x8000 = chars ''00008000''" "hex8 0xF0100068 = chars ''f0100068''" "hex8 0 = chars ''00000000''"
      by (simp_all add: hex8_def digits.simps hexchar_def chars_simps replicate_nums)
    have rest: "dec 0 = chars ''0''" "plain_str (bytes ''<unknown>'') = chars ''<unknown>''"
      "cut_str 9 (bytes ''<unknown>'') = chars ''<unknown>''"
      by code_simp+
    show ?thesis
      unfolding one unfolding frame_text_def frame_regs_def frame_source_def
      by (simp add: ld hex rest unknown_frame_def) (simp add: chars_simps cons_bytes_def)
  qed
  have chain: "stack_chain (m_mem framed_console) (m_ebp framed_console) (map fst [(0x8000, ?i)])" by (simp add: m ld)
  have frames: "\<forall>(f, i) \<in> set [(0x8000, ?i)]. frame_ok ?tab (m_mem framed_console) ?b f i" using fr by (simp add: m)
  obtain s' where "mon_backtrace ready_devices ?tab framed_console = Some (Inr (0, s'))"
    and p: "port_out 0x3F8 (m_io s') = port_out 0x3F8 (m_io framed_console) @ concat (map cons_bytes (chars (''Stack backtrace:'' @ newline)
      @ concat (map (\<lambda>(f, i). frame_text (m_mem framed_console) f i) [(0x8000, ?i)])))"
    using mon_backtrace_prints [OF ok frames refl, of ready_devices] chain by (elim exE conjE) (rule that, blast+)
  then have kernel: "\<exists>s'. mon_backtrace ready_devices ?tab framed_console = Some (Inr (0, s'))
    \<and> port_out 0x3F8 (m_io s') = bytes (''Stack backtrace:'' @ newline
        @ ''  ebp 00008000  eip f0100068  args 00000000 00000000 00000000 00000000 00000000'' @ newline
        @ ''         <unknown>:0: <unknown>+0'' @ newline)"
    by (intro exI [of _ s'] conjI) (assumption, simp only: p out m(3) port_out.simps append_Nil)
  let ?u = "blank_console\<lparr>m_ebp := 0x8000\<rparr>"
  have u: "crt_ok ?b ?u" "m_mem ?u = (\<lambda>_. 0)" "m_ebp ?u = 0x8000" "m_io ?u = []" using crt_ok_blank by (simp_all add: crt_ok_def)
  have z: "ld32 (\<lambda>_. 0) 0x8004 = 0" by code_simp
  from mon_backtrace_prints [OF u(1), of "[]" ?tab _ ready_devices] obtain s1
    where "port_out 0x3F8 (m_io s1) = concat (map cons_bytes (chars (''Stack backtrace:'' @ newline)))"
      "mon_backtrace ready_devices ?tab ?u = Some (Inl (''User address'', s1))"
    using low_frame_apart by (auto simp: u z ULIM_value simp del: append_Cons)
  moreover have "concat (map cons_bytes (chars (''Stack backtrace:'' @ newline))) = bytes (''Stack backtrace:'' @ newline)"
    by (simp add: chars_simps cons_bytes_def)
  ultimately show ?thesis using kernel by auto
qed

end
