(* ===== verification/JosInit.thy ===== *)
theory JosInit
  imports JosMonitor
begin

text \<open>
  \<^verbatim>\<open>src/kern/init.c\<close>: the C entry of the kernel, and \<^verbatim>\<open>panic\<close> and \<^verbatim>\<open>warn\<close>. The variable
  \<^verbatim>\<open>panicstr\<close> is passed beside the console. What ends in the endless loop around the monitor
  has no result; the states on the way to it are results of separate definitions.

  The frames that the compiler's function entries push on the stack, which \<^verbatim>\<open>test_backtrace\<close>
  is there to show, are not in the source: \<open>enter\<close> and \<open>leave\<close> stand for them.
\<close>

section \<open>Panics and warnings\<close>

partial_function (option) monitor_forever :: "devices \<Rightarrow> symbols \<Rightarrow> u32 \<Rightarrow> console \<Rightarrow> unit option" where
  "monitor_forever d sy buf s = do { s \<leftarrow> monitor d sy buf s; monitor_forever d sy buf s }"

text \<open>Clearing the interrupt flag and the direction flag: \<^verbatim>\<open>cli; cld\<close>.\<close>

definition cli_cld :: "console \<Rightarrow> console" where
  "cli_cld s = s\<lparr>m_eflags := m_eflags s AND NOT 0x600\<rparr>"

definition print_report :: "devices \<Rightarrow> string \<Rightarrow> cptr \<Rightarrow> int \<Rightarrow> cptr \<Rightarrow> slot list \<Rightarrow> console \<Rightarrow> console option" where
  "print_report d intro file_name line_no fmt ap s =
     do { (_, s) \<leftarrow> cprintf d (Lit (intro @ ''%s:%d: '') 0) [Ptr file_name, Word (of_int line_no)] s;
          (_, s) \<leftarrow> vcprintf d fmt ap s;
          (_, s) \<leftarrow> cprintf d (Lit newline 0) [] s;
          Some s }"

text \<open>What \<^verbatim>\<open>_panic\<close> does before its label \<^verbatim>\<open>dead\<close>.\<close>

definition panic_report :: "devices \<Rightarrow> cptr \<Rightarrow> int \<Rightarrow> cptr \<Rightarrow> slot list \<Rightarrow> cptr \<times> console \<Rightarrow> (cptr \<times> console) option" where
  "panic_report d file_name line_no fmt ap =
     (\<lambda>(panicstr, s).
        if panicstr \<noteq> NULL then Some (panicstr, s)
        else
          do { let panicstr = fmt;
               let s = cli_cld s;
               s \<leftarrow> print_report d ''kernel panic at '' file_name line_no fmt ap s;
               Some (panicstr, s) })"

definition panic :: "devices \<Rightarrow> symbols \<Rightarrow> u32 \<Rightarrow> cptr \<Rightarrow> int \<Rightarrow> cptr \<Rightarrow> slot list \<Rightarrow> cptr \<times> console \<Rightarrow> unit option" where
  "panic d sy buf file_name line_no fmt ap st =
     do { (_, s) \<leftarrow> panic_report d file_name line_no fmt ap st; monitor_forever d sy buf s }"

definition warn :: "devices \<Rightarrow> cptr \<Rightarrow> int \<Rightarrow> cptr \<Rightarrow> slot list \<Rightarrow> console \<Rightarrow> console option" where
  "warn d file_name line_no fmt ap s = print_report d ''kernel warning at '' file_name line_no fmt ap s"

section \<open>The start of the kernel\<close>

text \<open>The result \<open>Inl\<close> is a call of \<^verbatim>\<open>panic\<close> with its message, as for \<open>mon_backtrace\<close>.\<close>

function test_backtrace :: "devices \<Rightarrow> symtab \<Rightarrow> (int \<Rightarrow> console \<Rightarrow> console) \<Rightarrow> (int \<Rightarrow> console \<Rightarrow> console)
    \<Rightarrow> int \<Rightarrow> console \<Rightarrow> (string \<times> console + console) option" where
  "test_backtrace d tab enter leave x s =
     do { let s = enter x s;
          (_, s) \<leftarrow> cprintf d (Lit (''entering test_backtrace %d'' @ newline) 0) [Word (of_int x)] s;
          r \<leftarrow> (if x > 0 then test_backtrace d tab enter leave (x - 1) s
               else do { r \<leftarrow> mon_backtrace d tab s; Some (case r of Inl p \<Rightarrow> Inl p | Inr (_, s) \<Rightarrow> Inr s) });
          (case r of
             Inl p \<Rightarrow> Some (Inl p)
           | Inr s \<Rightarrow>
               do { (_, s) \<leftarrow> cprintf d (Lit (''leaving test_backtrace %d'' @ newline) 0) [Word (of_int x)] s;
                    Some (Inr (leave x s)) }) }"
  by pat_completeness auto
termination by (relation "measure (\<lambda>(d, tab, enter, leave, x, s). nat x)") auto

declare test_backtrace.simps [simp del]

text \<open>
  The clearing of the BSS reaches the static variables of the console as well, which are fields
  of the record and not bytes of its memory.
\<close>

definition clear_bss :: "symbols \<Rightarrow> console \<Rightarrow> console" where
  "clear_bss sy s = s\<lparr>m_mem := memset (m_mem s) (sym_edata sy) 0 (sym_end sy - sym_edata sy),
     serial_exists := False, addr_6845 := 0, crt_buf := 0, crt_pos := 0, kbd_shift := 0,
     cons_buf := replicate 512 0, cons_rpos := 0, cons_wpos := 0\<rparr>"

definition init_console :: "devices \<Rightarrow> symbols \<Rightarrow> console \<Rightarrow> console option" where
  "init_console d sy s =
     do { let s = clear_bss sy s;
          s \<leftarrow> cons_init d s;
          (_, s) \<leftarrow> cprintf d (Lit (''6828 decimal is %o octal!'' @ newline) 0) [Word 6828] s;
          Some s }"

definition i386_init :: "devices \<Rightarrow> symbols \<Rightarrow> symtab \<Rightarrow> u32 \<Rightarrow> (int \<Rightarrow> console \<Rightarrow> console)
    \<Rightarrow> (int \<Rightarrow> console \<Rightarrow> console) \<Rightarrow> console \<Rightarrow> unit option" where
  "i386_init d sy tab buf enter leave s =
     do { s \<leftarrow> init_console d sy s;
          r \<leftarrow> test_backtrace d tab enter leave 5 s;
          (case r of
             Inl (msg, s) \<Rightarrow> panic d sy buf (Lit ''kern/kdebug.c'' 0) 127 (Lit msg 0) [] (NULL, s)
           | Inr s \<Rightarrow> monitor_forever d sy buf s) }"


section \<open>What a panic leaves\<close>

lemma render_report:
  "render (bytes (''kernel panic at '' @ ''%s:%d: '')) [SStr w, SInt l] = Some (chars ''kernel panic at '' @ plain_str w @ chars '':'' @ dec l @ chars '': '')"
  "render (bytes (''kernel warning at '' @ ''%s:%d: '')) [SStr w, SInt l] = Some (chars ''kernel warning at '' @ plain_str w @ chars '':'' @ dec l @ chars '': '')"
  by (simp_all add: chars_simps render_steps)

lemma print_report_prints:
  assumes head: "\<And>w l. render (bytes (intro @ ''%s:%d: '')) [SStr w, SInt l] = Some (chars intro @ plain_str w @ chars '':'' @ dec l @ chars '': '')"
    "CHR 0x00 \<notin> set intro" "length intro < 1000"
    and ok: "crt_ok b s" and f: "render f xs = Some out"
    and mem: "arg_ok (m_mem s) (\<lambda>a. \<not> in_region b 4000 a) (Ptr file_name) (SStr w)"
      "readable_str (m_mem s) (\<lambda>a. \<not> in_region b 4000 a) fmt f" "args_ok (m_mem s) (\<lambda>a. \<not> in_region b 4000 a) ap xs"
  shows "print_report d intro file_name l fmt ap s =
    Some (prints d ((chars intro @ plain_str w @ chars '':'' @ dec (of_int l) @ chars '': '') @ out @ chars newline) s)"
proof -
  define h where "h = chars intro @ plain_str w @ chars '':'' @ dec (of_int l) @ chars '': ''"
  let ?s1 = "prints d h s"
  have c1: "crt_ok b ?s1" by (rule crt_ok_prints [OF ok])
  have m1: "m_mem ?s1 a = m_mem s a" if "\<not> in_region b 4000 a" for a by (rule mem_prints [OF ok that])
  have p1: "cprintf d (Lit (intro @ ''%s:%d: '') 0) [Ptr file_name, Word (of_int l)] s = Some (0, ?s1)"
    unfolding h_def
    by (rule cprintf_prints [OF ok head(1)]) (use head(2,3) mem(1) in \<open>simp_all del: arg_ok.simps add: arg_ok_Word\<close>)
  have "cprintf d fmt ap ?s1 = Some (0, prints d out ?s1)"
    unfolding prints_def [of d out]
    by (rule cprintf_run [OF f c1 readable_str_cong [OF mem(2) m1] args_ok_cong [OF mem(3) m1]])
  then have p2: "vcprintf d fmt ap ?s1 = Some (0, prints d out ?s1)" by (simp add: cprintf_def)
  have "render (bytes newline) [] = Some (chars newline)" unfolding chars_def by (rule render_plain) (simp add: bytes_def)
  then have p3: "cprintf d (Lit newline 0) [] (prints d out ?s1) = Some (0, prints d (chars newline) (prints d out ?s1))"
    by (rule cprintf_prints [OF crt_ok_prints [OF c1]]) simp_all
  show ?thesis
    unfolding print_report_def h_def [symmetric] by (simp add: p1 p2 p3 prints_append)
qed

lemma monitor_forever_never: "monitor_forever d sy buf s = None"
proof -
  have "monitor d sy buf s = None" using monitor_loop_never by (cases "monitor d sy buf s") (auto simp: monitor_def bind_eq_Some_conv)
  then show ?thesis by (subst monitor_forever.simps) simp
qed

text \<open>(C13) The first panic prints where it happened and its message, whatever the format means for its
  arguments, turns interrupts off, and remembers the format, so that a panic while the first one is
  being handled prints nothing more. A panic does not return.\<close>

theorem panic_reports:
  assumes "crt_ok b s" "render f xs = Some out" "fmt \<noteq> NULL"
    and "arg_ok (m_mem s) (\<lambda>a. \<not> in_region b 4000 a) (Ptr file_name) (SStr w)"
    and "readable_str (m_mem s) (\<lambda>a. \<not> in_region b 4000 a) fmt f" "args_ok (m_mem s) (\<lambda>a. \<not> in_region b 4000 a) ap xs"
  shows "\<exists>s'. panic_report d file_name l fmt ap (NULL, s) = Some (fmt, s')
    \<and> screen_of s' = fold screen_putc ((chars ''kernel panic at '' @ plain_str w @ chars '':'' @ dec (of_int l) @ chars '': '')
        @ out @ chars newline) (screen_of s)
    \<and> m_eflags s' AND 0x200 = 0
    \<and> (\<forall>file_name l fmt' ap. panic_report d file_name l fmt' ap (fmt, s') = Some (fmt, s'))
    \<and> panic d sy buf file_name l fmt ap (NULL, s) = None"
proof -
  let ?c = "cli_cld s"
  let ?o = "(chars ''kernel panic at '' @ plain_str w @ chars '':'' @ dec (of_int l) @ chars '': '') @ out @ chars newline"
  have c: "crt_ok b ?c" "m_mem ?c = m_mem s" "screen_of ?c = screen_of s"
    using assms(1) by (simp_all add: cli_cld_def crt_ok_def screen_of_cong)
  have p: "print_report d ''kernel panic at '' file_name l fmt ap ?c = Some (prints d ?o ?c)"
    by (rule print_report_prints [OF render_report(1) _ _ c(1) assms(2)]) (use assms(4-6) c(2) in simp_all)
  have e: "emits b ?c (concat (map cons_bytes ?o)) (fold screen_putc ?o (screen_of ?c)) (prints d ?o ?c)"
    unfolding prints_def by (rule emits_fold [OF c(1)])
  then have "m_eflags (prints d ?o ?c) = m_eflags ?c" by (auto simp: emits_def)
  moreover have "m_eflags ?c AND 0x200 = 0"
    unfolding cli_cld_def by (simp add: and.assoc)
  moreover have "panic_report d file_name l fmt ap (NULL, s) = Some (fmt, prints d ?o ?c)"
    unfolding panic_report_def by (simp add: p Let_def del: append.simps append_assoc)
  moreover have "panic d sy buf file_name l fmt ap (NULL, s) = None"
    by (auto simp: panic_def monitor_forever_never Option.bind_eq_None_conv)
  ultimately show ?thesis
    using e c(3) assms(3) by (intro exI [of _ "prints d ?o ?c"]) (simp add: emits_screen panic_report_def)
qed


theorem panic_reports_witness:
  "\<exists>s'. panic_report ready_devices (Lit ''kern/kdebug.c'' 0) 127 (Lit ''User address'' 0) [] (NULL, blank_console) =
      Some (Lit ''User address'' 0, s')
    \<and> panic_report ready_devices (Lit ''kern/pmap.c'' 0) 1 (Lit ''again'' 0) [] (Lit ''User address'' 0, s') = Some (Lit ''User address'' 0, s')"
proof -
  have r: "render (bytes ''User address'') [] = Some (map ucast (bytes ''User address''))"
    by (rule render_plain) (simp add: bytes_def)
  have s: "readable_str (m_mem blank_console) (\<lambda>a. \<not> in_region (KERNBASE + CGA_BUF) 4000 a) (Lit ''User address'' 0) (bytes ''User address'')"
    by (rule readable_str_Lit) simp_all
  have w: "arg_ok (m_mem blank_console) (\<lambda>a. \<not> in_region (KERNBASE + CGA_BUF) 4000 a) (Ptr (Lit ''kern/kdebug.c'' 0)) (SStr (bytes ''kern/kdebug.c''))"
    by (rule arg_ok_Lit) simp_all
  show ?thesis
    using panic_reports [OF crt_ok_blank r _ w s, of "[]" ready_devices 127] by (simp del: fold_append) blast
qed

section \<open>The nested calls of test_backtrace\<close>

text \<open>Two consoles that agree on the frame pointer and on memory outside the screen.\<close>

definition like :: "u32 \<Rightarrow> console \<Rightarrow> console \<Rightarrow> bool" where
  "like b s t \<longleftrightarrow> m_ebp s = m_ebp t \<and> (\<forall>a. \<not> in_region b 4000 a \<longrightarrow> m_mem s a = m_mem t a)"

text \<open>
  What a function's entry and exit do: they change the frame pointer and memory outside the
  screen, depending on nothing else.
\<close>

definition stack_op :: "u32 \<Rightarrow> (console \<Rightarrow> console) \<Rightarrow> bool" where
  "stack_op b e \<longleftrightarrow>
     (\<forall>s. \<exists>m r. e s = s\<lparr>m_mem := m, m_ebp := r\<rparr> \<and> (\<forall>a. in_region b 4000 a \<longrightarrow> m a = m_mem s a))
     \<and> (\<forall>s t. like b s t \<longrightarrow> like b (e s) (e t))"

lemma stack_op_id: "stack_op b (\<lambda>s. s)"
proof -
  have "\<exists>m r. s = s\<lparr>m_mem := m, m_ebp := r\<rparr> \<and> (\<forall>a. in_region b 4000 a \<longrightarrow> m a = m_mem s a)" for s :: console
    by (intro exI [of _ "m_mem s"] exI [of _ "m_ebp s"]) simp
  then show ?thesis by (simp add: stack_op_def)
qed

lemma like_trans: "like b s t \<Longrightarrow> like b t u \<Longrightarrow> like b s u"
  by (simp add: like_def)

lemma like_prints: "crt_ok b s \<Longrightarrow> like b s t \<Longrightarrow> like b (prints d out s) t"
  by (simp add: like_def mem_prints ebp_prints)

lemma stack_op_like: "stack_op b e \<Longrightarrow> like b s t \<Longrightarrow> like b (e s) (e t)"
  unfolding stack_op_def by blast

lemma stack_op_talks:
  assumes "stack_op b e" "crt_ok b s" "input_ok input d s"
  shows "talks input d b s [] (e s)" "available input (e s) = available input s"
proof -
  obtain m r where e: "e s = s\<lparr>m_mem := m, m_ebp := r\<rparr>" "\<forall>a. in_region b 4000 a \<longrightarrow> m a = m_mem s a"
    using assms(1) unfolding stack_op_def by blast
  have c: "crt_buf s = b" using assms(2) by (simp add: crt_ok_def)
  have i: "input_ok input d (e s) \<and> available input (e s) = available input s"
    using input_ok_cong [OF assms(3), of "e s"] by (simp add: e(1) same_ring_def)
  have "screen_of (e s) = screen_of s" by (rule screen_of_cong) (use e c in auto)
  then show "talks input d b s [] (e s)" using assms(2) i by (auto simp: talks_def crt_ok_def e(1))
  show "available input (e s) = available input s" using i ..
qed

text \<open>The two lines of one call.\<close>

definition entering :: "u32 \<Rightarrow> u32 list" where
  "entering w = chars ''entering test_backtrace '' @ dec w @ chars newline"

definition leaving :: "u32 \<Rightarrow> u32 list" where
  "leaving w = chars ''leaving test_backtrace '' @ dec w @ chars newline"

text \<open>What the nested calls print around the text of the innermost one, and the state it sees.\<close>

primrec nested :: "u32 list \<Rightarrow> nat \<Rightarrow> u32 list" where
  "nested mid 0 = entering 0 @ mid @ leaving 0"
| "nested mid (Suc n) = entering (of_nat (Suc n)) @ nested mid n @ leaving (of_nat (Suc n))"

primrec innermost :: "(int \<Rightarrow> console \<Rightarrow> console) \<Rightarrow> nat \<Rightarrow> console \<Rightarrow> console" where
  "innermost enter 0 s = enter 0 s"
| "innermost enter (Suc n) s = innermost enter n (enter (int (Suc n)) s)"

lemma render_trace:
  "render (bytes (''entering test_backtrace %d'' @ newline)) [SInt w] = Some (entering w)"
  "render (bytes (''leaving test_backtrace %d'' @ newline)) [SInt w] = Some (leaving w)"
  by (simp_all add: entering_def leaving_def chars_simps render_steps)

text \<open>One call, given what the inner one does.\<close>

lemma test_backtrace_around:
  assumes ops: "stack_op b (enter x)" "stack_op b (leave x)" and ok: "crt_ok b s" "input_ok input d s"
    and u: "u = prints d (entering (of_int x)) (enter x s)"
    and inner: "(if x > 0 then test_backtrace d tab enter leave (x - 1) u
        else do { r \<leftarrow> mon_backtrace d tab u; Some (case r of Inl p \<Rightarrow> Inl p | Inr (_, s) \<Rightarrow> Inr s) }) = Some (Inr v)"
      "talks input d b u mid v" "available input v = available input u"
  shows "\<exists>t. test_backtrace d tab enter leave x s = Some (Inr t)
    \<and> talks input d b s (entering (of_int x) @ mid @ leaving (of_int x)) t \<and> available input t = available input s"
proof -
  let ?e = "enter x s" and ?w = "prints d (leaving (of_int x)) v"
  have e: "talks input d b s [] ?e" "available input ?e = available input s" using stack_op_talks [OF ops(1) ok] .
  then have oke: "crt_ok b ?e" "input_ok input d ?e" by (simp_all add: talks_def)
  have c1: "cprintf d (Lit (''entering test_backtrace %d'' @ newline) 0) [Word (of_int x)] ?e = Some (0, u)"
    unfolding u by (rule cprintf_prints [OF oke(1) render_trace(1)]) simp_all
  have tu: "talks input d b s (entering (of_int x)) u" "available input u = available input s"
    using talks_trans [OF e(1) prints_talks(1) [OF oke, of "entering (of_int x)"]] prints_talks(2) [OF oke] e(2) by (simp_all add: u)
  have okv: "crt_ok b v" "input_ok input d v" using inner(2) by (simp_all add: talks_def)
  have c2: "cprintf d (Lit (''leaving test_backtrace %d'' @ newline) 0) [Word (of_int x)] v = Some (0, ?w)"
    by (rule cprintf_prints [OF okv(1) render_trace(2)]) simp_all
  have tw: "talks input d b s (entering (of_int x) @ mid @ leaving (of_int x)) ?w"
    by (rule talks_trans [OF tu(1) talks_trans [OF inner(2) prints_talks(1) [OF okv]]])
  have okw: "crt_ok b ?w" "input_ok input d ?w" using tw by (simp_all add: talks_def)
  have "test_backtrace d tab enter leave x s = Some (Inr (leave x ?w))"
    by (subst test_backtrace.simps) (simp add: c1 c2 inner(1) Let_def del: append.simps)
  moreover have "talks input d b s (entering (of_int x) @ mid @ leaving (of_int x)) (leave x ?w)"
    using talks_trans [OF tw stack_op_talks(1) [OF ops(2) okw]] by simp
  moreover have "available input (leave x ?w) = available input s"
    using stack_op_talks(2) [OF ops(2) okw] prints_talks(2) [OF okv] inner(3) tu(2) by simp
  ultimately show ?thesis by blast
qed

lemma test_backtrace_talks:
  assumes "\<And>x. stack_op b (enter x)" "\<And>x. stack_op b (leave x)" "crt_ok b s" "input_ok input d s" "like b s s0"
    and "stack_chain (m_mem (innermost enter n s0)) (m_ebp (innermost enter n s0)) (map fst fs)"
    and "\<forall>(f, i) \<in> set fs. frame_ok tab (m_mem (innermost enter n s0)) b f i"
  shows "\<exists>t. test_backtrace d tab enter leave (int n) s = Some (Inr t)
    \<and> talks input d b s (nested (backtrace_text (m_mem (innermost enter n s0)) fs) n) t \<and> available input t = available input s"
  using assms(3-)
proof (induction n arbitrary: s s0)
  case 0
  let ?m = "m_mem (enter 0 s0)" and ?u = "prints d (entering 0) (enter 0 s)"
  have e: "talks input d b s [] (enter 0 s)" using stack_op_talks(1) [OF assms(1) 0(1,2)] .
  then have oke: "crt_ok b (enter 0 s)" "input_ok input d (enter 0 s)" by (simp_all add: talks_def)
  have u: "like b ?u (enter 0 s0)" using like_prints [OF oke(1) stack_op_like [OF assms(1) 0(3)]] .
  have oku: "crt_ok b ?u" "input_ok input d ?u" using prints_talks(1) [OF oke, of "entering 0"] by (simp_all add: talks_def)
  have "mon_backtrace d tab ?u = Some (Inr (0, prints d (backtrace_text ?m fs) ?u))"
    using u 0(4,5) by (intro mon_backtrace_run [OF oku(1)]) (simp_all add: like_def)
  then show ?case
    using test_backtrace_around [where x = 0 and u = ?u and tab = tab and mid = "backtrace_text ?m fs", OF assms(1,2) 0(1,2)] prints_talks [OF oku]
    by simp
next
  case (Suc n)
  let ?x = "int (Suc n)"
  let ?u = "prints d (entering (of_int ?x)) (enter ?x s)"
  have e: "talks input d b s [] (enter ?x s)" using stack_op_talks(1) [OF assms(1) Suc.prems(1,2)] .
  then have oke: "crt_ok b (enter ?x s)" "input_ok input d (enter ?x s)" by (simp_all add: talks_def)
  have u: "like b ?u (enter ?x s0)" using like_prints [OF oke(1) stack_op_like [OF assms(1) Suc.prems(3)]] .
  have oku: "crt_ok b ?u" "input_ok input d ?u" using prints_talks(1) [OF oke, of "entering (of_int ?x)"] by (simp_all add: talks_def)
  obtain v where v: "test_backtrace d tab enter leave (int n) ?u = Some (Inr v)"
    "talks input d b ?u (nested (backtrace_text (m_mem (innermost enter (Suc n) s0)) fs) n) v" "available input v = available input ?u"
    using Suc.IH [OF oku u] Suc.prems(4,5) by auto
  show ?case
    using test_backtrace_around [where x = ?x and enter = enter and leave = leave and tab = tab,
        OF assms(1,2) Suc.prems(1,2) refl _ v(2,3)] v(1)
    by simp
qed

section \<open>The kernel comes up\<close>

lemma oct_6828: "oct 6828 = chars ''15254''"
  by (simp add: oct_def digits.simps hexchar_def chars_simps)

definition greeting :: "u32 list" where
  "greeting = chars (''6828 decimal is 15254 octal!'' @ newline)"

lemma init_console_prints:
  assumes "cons_init d (clear_bss sy s) = Some t" "crt_ok b t"
  shows "init_console d sy s = Some (prints d greeting t)"
proof -
  have "render (bytes (''6828 decimal is %o octal!'' @ newline)) [SInt 6828] = Some greeting"
    by (simp add: greeting_def chars_simps render_steps oct_6828)
  then have "cprintf d (Lit (''6828 decimal is %o octal!'' @ newline) 0) [Word 6828] t = Some (0, prints d greeting t)"
    by (rule cprintf_prints [OF assms(2)]) simp_all
  then show ?thesis using assms(1) by (simp add: init_console_def)
qed

lemma clear_bss_ring: "ring_ok (clear_bss sy s)" "pending (clear_bss sy s) = []"
  by (simp_all add: clear_bss_def ring_ok_def pending_def ring_slice_def CONSBUFSIZE_def)

text \<open>(C12) When the hardware's cursor is on the screen, the start of the kernel gets through the clearing
  of the BSS and the initialisation of the console: the BSS outside the screen is zero and no other
  memory has changed, no input is pending, the screen is ready, and the first message has been
  printed on it, with 6828 in octal.\<close>

theorem kernel_starts:
  assumes "a = (if dev_cga d \<in> {None, Some 0xA55A} then CGA_BASE else MONO_BASE)"
    and "b = (if dev_cga d \<in> {None, Some 0xA55A} then KERNBASE + CGA_BUF else KERNBASE + MONO_BUF)"
    and "hw_cursor d a (m_io s) < CRT_SIZE"
  shows "\<exists>t u. cons_init d (clear_bss sy s) = Some t \<and> init_console d sy s = Some u \<and> crt_ok b u
    \<and> screen_of u = fold screen_putc (chars (''6828 decimal is 15254 octal!'' @ newline)) (screen_of t)
    \<and> port_out 0x3F8 (m_io u) = port_out 0x3F8 (m_io t) @ bytes (''6828 decimal is 15254 octal!'' @ newline)
    \<and> ring_ok u \<and> pending u = []
    \<and> (\<forall>x. \<not> in_region b 4000 x \<longrightarrow>
        m_mem u x = (if in_region (sym_edata sy) (unat (sym_end sy - sym_edata sy)) x then 0 else m_mem s x))"
proof -
  let ?z = "clear_bss sy s" and ?o = "chars (''6828 decimal is 15254 octal!'' @ newline)"
  have "m_io ?z = m_io s" by (simp add: clear_bss_def)
  then obtain t where t: "cons_init d ?z = Some t" "crt_ok b t" "same_ring ?z t"
    "\<forall>x. \<not> in_region b 4000 x \<longrightarrow> m_mem t x = m_mem ?z x"
    using cons_init_run [OF assms(1,2), of ?z] assms(3) by auto
  have u: "init_console d sy s = Some (prints d ?o t)"
    by (rule init_console_prints [OF t(1,2), unfolded greeting_def])
  have e: "emits b t (concat (map cons_bytes ?o)) (fold screen_putc ?o (screen_of t)) (prints d ?o t)"
    unfolding prints_def by (rule emits_fold [OF t(2)])
  have o: "concat (map cons_bytes ?o) = bytes (''6828 decimal is 15254 octal!'' @ newline)"
    by (simp add: chars_simps cons_bytes_def)
  note clear_bss_ring [of sy s]
  moreover have "same_ring t (prints d ?o t)" using e by (auto simp: emits_def same_ring_def)
  ultimately have r: "ring_ok (prints d ?o t)" "pending (prints d ?o t) = []"
    using same_ring_pending [OF t(3)] same_ring_pending by auto
  have m: "m_mem (prints d ?o t) x = (if in_region (sym_edata sy) (unat (sym_end sy - sym_edata sy)) x then 0 else m_mem s x)"
    if "\<not> in_region b 4000 x" for x
    using mem_prints [OF t(2) that, of d ?o] t(4) that by (simp add: clear_bss_def memset_fill fill_region_def)
  show ?thesis
    using t(1) u r m e by (intro exI [of _ t] exI [of _ "prints d ?o t"] conjI) (simp_all only: emits_def o, auto)
qed

theorem kernel_starts_witness:
  "\<exists>u. init_console ready_devices \<lparr>sym_start = 0x10000C, sym_entry = 0xF010000C, sym_etext = 0xF0101A00,
      sym_edata = 0xF0112300, sym_end = 0xF0112960\<rparr> blank_console = Some u \<and> crt_ok (KERNBASE + CGA_BUF) u \<and> m_mem u 0xF0112300 = 0"
proof -
  let ?sy = "\<lparr>sym_start = 0x10000C, sym_entry = 0xF010000C, sym_etext = 0xF0101A00, sym_edata = 0xF0112300, sym_end = 0xF0112960\<rparr>"
  let ?b = "KERNBASE + CGA_BUF"
  have "\<not> in_region ?b 4000 0xF0112300" by (simp add: in_region_def KERNBASE_def CGA_BUF_def)
  moreover have "in_region (sym_edata ?sy) (unat (sym_end ?sy - sym_edata ?sy)) 0xF0112300" by (simp add: in_region_def)
  moreover have "hw_cursor ready_devices CGA_BASE (m_io blank_console) < CRT_SIZE"
    by (simp add: ready_devices_def hw_cursor_def CGA_BASE_def crt_defs Let_def)
  ultimately show ?thesis
    using kernel_starts [of CGA_BASE ready_devices ?b blank_console ?sy] by (auto simp: ready_devices_def)
qed

end
