(* ===== verification/JosSafe.thy ===== *)
theory JosSafe
  imports JosMonitor
begin

text \<open>
  What holds of the console and the monitor whatever the devices do and whatever is typed:
  the console's variables keep to their ranges, so that no access of its arrays is outside
  them, and memory changes only on the screen and in the buffer of \<^verbatim>\<open>readline\<close>.
\<close>

section \<open>Well-formed consoles\<close>

definition console_ok :: "u32 \<Rightarrow> console \<Rightarrow> bool" where
  "console_ok b s \<longleftrightarrow> crt_ok b s \<and> shift_ok (kbd_shift s) \<and> ring_ok s"

text \<open>Going from one state to another, well-formedness is kept and memory outside the screen too.\<close>

definition keeps :: "u32 \<Rightarrow> console \<Rightarrow> console \<Rightarrow> bool" where
  "keeps b s t \<longleftrightarrow> (console_ok b s \<longrightarrow> console_ok b t \<and> (\<forall>a. \<not> in_region b 4000 a \<longrightarrow> m_mem t a = m_mem s a))"

lemma keeps_refl: "keeps b s s"
  by (simp add: keeps_def)

lemma keeps_trans: "keeps b s t \<Longrightarrow> keeps b t u \<Longrightarrow> keeps b s u"
  by (auto simp: keeps_def)

lemma keepsD:
  assumes "keeps b s t" "console_ok b s"
  shows "console_ok b t" "\<not> in_region b 4000 a \<Longrightarrow> m_mem t a = m_mem s a"
  using assms by (auto simp: keeps_def)

lemma keeps_io: "keeps b s (s\<lparr>m_io := io\<rparr>)"
  by (simp add: keeps_def console_ok_def crt_ok_def ring_ok_def)

lemma keeps_prints: "keeps b s (fold (cputchar d) out s)"
  unfolding keeps_def
proof
  assume ok: "console_ok b s"
  then have "crt_ok b s" by (simp add: console_ok_def)
  from emits_fold [OF this, of out d] show "console_ok b (fold (cputchar d) out s)
    \<and> (\<forall>a. \<not> in_region b 4000 a \<longrightarrow> m_mem (fold (cputchar d) out s) a = m_mem s a)"
    using ok by (auto simp: emits_def console_ok_def ring_ok_def screen_step_def)
qed

lemma keeps_cputchar: "keeps b s (cputchar d c s)"
  using keeps_prints [of b s d "[c]"] by simp

lemma keeps_cprintf: "cprintf d fmt ap s = Some (r, t) \<Longrightarrow> keeps b s t"
  by (drule cprintf_calls) (auto intro: keeps_prints)

section \<open>Input\<close>

lemma keeps_serial: "serial_proc_data d s = Some (c, t) \<Longrightarrow> keeps b s t"
  by (auto simp: serial_proc_data_def inb_def log_io_def Let_def split: if_splits intro: keeps_io)

lemma keeps_shift: "shift_ok sh \<Longrightarrow> keeps b s (s\<lparr>m_io := io, kbd_shift := sh\<rparr>)"
  by (simp add: keeps_def console_ok_def crt_ok_def ring_ok_def)

lemma keeps_kbd:
  assumes "kbd_proc_data d s = Some (c, t)"
  shows "keeps b s t"
proof (cases "console_ok b s")
  case True
  let ?st = "dev_inb d (m_io s) 0x64"
  let ?s1 = "s\<lparr>m_io := InB 0x64 ?st # m_io s\<rparr>"
  let ?data = "dev_inb d (m_io ?s1) 0x60"
  let ?r = "kbd_code (kbd_shift s) ?data"
  let ?s2 = "s\<lparr>m_io := InB 0x60 ?data # InB 0x64 ?st # m_io s, kbd_shift := fst ?r\<rparr>"
  have "shift_ok (fst ?r)" using True by (intro kbd_code_shift) (simp add: console_ok_def)
  then have s2: "keeps b s ?s2" by (rule keeps_shift)
  have out: "keeps b u (outb p v u)" for p v u by (simp add: outb_def log_io_def keeps_io)
  consider "t = ?s1" | "t = ?s2" | r v where "cprintf d (Lit (''Rebooting!'' @ [CHR 0x0A]) 0) [] ?s2 = Some (r, v)" "t = outb 0x92 0x3 v"
    using assms by (auto simp: kbd_proc_data_def inb_def kbd_defs Let_def split_beta log_io_def bind_eq_Some_conv split: if_splits)
  then show ?thesis
  proof cases
    case 1
    then show ?thesis by (simp only: keeps_io)
  next
    case 2
    then show ?thesis using s2 by (simp only:)
  next
    case 3
    show ?thesis unfolding 3(2) by (rule keeps_trans [OF s2 keeps_trans [OF keeps_cprintf [OF 3(1)] out]])
  qed
qed (simp add: keeps_def)

lemma keeps_store: "cons_store c s = Some t \<Longrightarrow> keeps b s t"
  using cons_store_ring_ok [of s c t]
  by (auto simp: keeps_def console_ok_def crt_ok_def cons_store_def Let_def split: if_splits)

text \<open>
  What \<^verbatim>\<open>cons_intr\<close> relies on in the routine it is given: every call keeps the console
  well-formed. The two routines of the source are instances.
\<close>

locale device_routine =
  fixes proc :: "console \<Rightarrow> (u32 \<times> console) option"
    and b :: u32
  assumes proc_keeps: "proc s = Some (c, t) \<Longrightarrow> keeps b s t"
begin

lemma feeds_keeps: "feeds proc s cs u \<Longrightarrow> keeps b s u"
proof (induction rule: feeds.induct)
  case (feeds_byte s c t v cs u)
  then show ?case using keeps_trans [OF proc_keeps keeps_trans [OF keeps_store]] by blast
qed (blast intro: proc_keeps keeps_trans)+

lemma cons_intr_keeps: "cons_intr proc s = Some u \<Longrightarrow> keeps b s u"
  using cons_intr_feeds feeds_keeps by blast

end

interpretation serial: device_routine "serial_proc_data d" b for d b
  by unfold_locales (rule keeps_serial)

interpretation keyboard: device_routine "kbd_proc_data d" b for d b
  by unfold_locales (rule keeps_kbd)

lemma keeps_serial_intr: "serial_intr d s = Some t \<Longrightarrow> keeps b s t"
  by (auto simp: serial_intr_def split: if_splits intro: keeps_refl serial.cons_intr_keeps)

lemma keeps_kbd_intr: "kbd_intr d s = Some t \<Longrightarrow> keeps b s t"
  unfolding kbd_intr_def by (rule keyboard.cons_intr_keeps)

lemma keeps_fetch:
  assumes "cons_fetch s = Some (c, t)"
  shows "keeps b s t"
proof (cases "cons_rpos s = cons_wpos s")
  case True
  with assms show ?thesis by (simp add: cons_fetch_def keeps_refl)
next
  case False
  then have t: "t = s\<lparr>cons_rpos := (if cons_rpos s + 1 = of_nat CONSBUFSIZE then 0 else cons_rpos s + 1)\<rparr>"
    using assms by (auto simp: cons_fetch_def Let_def split: if_splits)
  show ?thesis unfolding keeps_def
  proof
    assume ok: "console_ok b s"
    then have r: "unat (cons_rpos s) < 512" by (simp add: console_ok_def ring_ok_def CONSBUFSIZE_def)
    then have "unat (if cons_rpos s + 1 = of_nat CONSBUFSIZE then 0 else cons_rpos s + 1) = ring_next (unat (cons_rpos s))"
      by (rule unat_ring_next)
    then have "unat (cons_rpos t) < CONSBUFSIZE" unfolding t using ring_next_less r by (simp add: CONSBUFSIZE_def)
    then show "console_ok b t \<and> (\<forall>a. \<not> in_region b 4000 a \<longrightarrow> m_mem t a = m_mem s a)"
      using ok by (simp add: t console_ok_def crt_ok_def ring_ok_def)
  qed
qed

lemma keeps_cons_getc:
  assumes "cons_getc d s = Some (c, t)"
  shows "keeps b s t \<and> unat c < 256"
proof -
  obtain u v k where u: "serial_intr d s = Some u" "kbd_intr d u = Some v" "cons_fetch v = Some (k, t)" "c = ucast k"
    using assms by (auto simp: cons_getc_def bind_eq_Some_conv)
  have "unat c < 256" using unsigned_less [of k, where ?'a = nat] by (simp add: u(4) unat_ucast_u8_u32)
  then show ?thesis
    using keeps_trans [OF keeps_serial_intr [OF u(1)] keeps_trans [OF keeps_kbd_intr [OF u(2)] keeps_fetch [OF u(3)]]] by blast
qed

lemma keeps_getchar: "getchar d s = Some r \<Longrightarrow> keeps b s (snd r) \<and> fst r \<noteq> 0 \<and> unat (fst r) < 256"
proof (erule getchar.raw_induct [where P = "\<lambda>d s r. keeps b s (snd r) \<and> fst r \<noteq> 0 \<and> unat (fst r) < 256", rotated])
  fix loop d s r
  assume IH: "\<And>d s r. loop d s = Some r \<Longrightarrow> keeps b s (snd r) \<and> fst r \<noteq> 0 \<and> unat (fst r) < 256"
    and "do { (c, s) \<leftarrow> cons_getc d s; if c = 0 then loop d s else Some (c, s) } = Some r"
  then obtain c t where c: "cons_getc d s = Some (c, t)" "(if c = 0 then loop d t else Some (c, t)) = Some r"
    by (auto simp: bind_eq_Some_conv)
  show "keeps b s (snd r) \<and> fst r \<noteq> 0 \<and> unat (fst r) < 256"
    using keeps_cons_getc [OF c(1), of b] c(2) IH [of d t r] keeps_trans by (cases "c = 0") auto
qed

section \<open>Lines\<close>

text \<open>
  Beside the screen only the buffer of \<^verbatim>\<open>readline\<close> changes.
\<close>

definition edits :: "u32 \<Rightarrow> u32 \<Rightarrow> console \<Rightarrow> console \<Rightarrow> bool" where
  "edits b buf s t \<longleftrightarrow> (console_ok b s \<longrightarrow> console_ok b t
     \<and> (\<forall>a. \<not> in_region b 4000 a \<longrightarrow> \<not> in_region buf 1024 a \<longrightarrow> m_mem t a = m_mem s a))"

lemma edits_trans: "edits b buf s t \<Longrightarrow> edits b buf t u \<Longrightarrow> edits b buf s u"
  by (auto simp: edits_def)

lemma keeps_edits: "keeps b s t \<Longrightarrow> edits b buf s t"
  by (simp add: keeps_def edits_def)

lemma edits_mem: "(\<And>a. \<not> in_region buf 1024 a \<Longrightarrow> m a = m_mem s a) \<Longrightarrow> edits b buf s (s\<lparr>m_mem := m\<rparr>)"
  by (simp add: edits_def console_ok_def crt_ok_def ring_ok_def)

lemma edits_store: "0 \<le> i \<Longrightarrow> i < 1024 \<Longrightarrow> edits b buf s (s\<lparr>m_mem := (m_mem s)(buf + of_int i := v)\<rparr>)"
  using in_region_offset [of "nat i" buf 1024] by (intro edits_mem) (auto simp: nat_less_iff)

text \<open>The line that a completed \<^verbatim>\<open>readline\<close> has left: the buffer holds a NUL.\<close>

definition holds_nul :: "u32 \<Rightarrow> mem \<Rightarrow> bool" where
  "holds_nul buf m \<longleftrightarrow> (\<exists>k < 1024. m (buf + of_nat k) = 0)"

lemma edits_echo: "edits b buf s (if echoing then cputchar d c s else s)"
  by (simp add: keeps_edits keeps_cputchar keeps_refl)

definition reads_line :: "u32 \<Rightarrow> u32 \<Rightarrow> console \<Rightarrow> cptr \<times> console \<Rightarrow> bool" where
  "reads_line b buf s r \<longleftrightarrow> edits b buf s (snd r) \<and> fst r = Mem buf \<and> holds_nul buf (m_mem (snd r))"

lemma reads_line_trans: "edits b buf s t \<Longrightarrow> reads_line b buf t r \<Longrightarrow> reads_line b buf s r"
  by (auto simp: reads_line_def intro: edits_trans)

lemma reads_line_end:
  assumes "0 \<le> i" "i < 1024"
  shows "reads_line b buf s (Mem buf, s\<lparr>m_mem := (m_mem s)(buf + of_int i := 0)\<rparr>)"
proof -
  have "(buf + of_int i) = buf + of_nat (nat i)" using assms by simp
  then have "holds_nul buf ((m_mem s)(buf + of_int i := 0))" using assms
    unfolding holds_nul_def by (intro exI [of _ "nat i"]) (simp add: nat_less_iff)
  then show ?thesis using edits_store [OF assms] by (simp add: reads_line_def)
qed

lemma readline_loop_reads:
  "readline_loop d buf echoing i s = Some r \<Longrightarrow> 0 \<le> i \<longrightarrow> i < 1024 \<longrightarrow> reads_line b buf s r"
proof (erule readline_loop.raw_induct [where P = "\<lambda>d buf echoing i s r. 0 \<le> i \<longrightarrow> i < 1024 \<longrightarrow> reads_line b buf s r", rotated],
    intro impI)
  fix loop d buf echoing i s r
  assume IH: "\<And>d buf echoing i s r. loop d buf echoing i s = Some r \<Longrightarrow> 0 \<le> i \<longrightarrow> i < 1024 \<longrightarrow> reads_line b buf s r"
    and run: "do { (c, s) \<leftarrow> getchar d s;
          if sint c < 0 then
            do { (_, s) \<leftarrow> cprintf d (Lit (''read error: %e'' @ [CHR 0x0A]) 0) [Word c] s;
                 Some (NULL, s) }
          else if (c = 8 \<or> c = 0x7F) \<and> i > 0 then
            loop d buf echoing (i - 1) (if echoing then cputchar d 8 s else s)
          else if sint c \<ge> 32 \<and> i < BUFLEN - 1 then
            let s = (if echoing then cputchar d c s else s);
                s = s\<lparr>m_mem := (m_mem s)(buf + of_int i := ucast c)\<rparr>
            in loop d buf echoing (i + 1) s
          else if c = 10 \<or> c = 13 then
            let s = (if echoing then cputchar d 10 s else s);
                s = s\<lparr>m_mem := (m_mem s)(buf + of_int i := 0)\<rparr>
            in Some (Mem buf, s)
          else loop d buf echoing i s } = Some r"
    and i: "0 \<le> i" "i < 1024"
  from run obtain c t where g: "getchar d s = Some (c, t)" by (auto simp: bind_eq_Some_conv)
  have "unat c < 256" and t: "edits b buf s t" using keeps_getchar [OF g, of b] keeps_edits by auto
  then have c: "\<not> sint c < 0" by (simp add: sint_of_small)
  define e where "e k = (if echoing then cputchar d k t else t)" for k
  have e: "edits b buf t (e k)" for k unfolding e_def by (rule edits_echo)
  let ?put = "\<lambda>k v. (e k)\<lparr>m_mem := (m_mem (e k))(buf + of_int i := v)\<rparr>"
  have "(if (c = 8 \<or> c = 0x7F) \<and> i > 0 then loop d buf echoing (i - 1) (e 8)
      else if sint c \<ge> 32 \<and> i < 1024 - 1 then loop d buf echoing (i + 1) (?put c (ucast c))
      else if c = 10 \<or> c = 13 then Some (Mem buf, ?put 10 0) else loop d buf echoing i t) = Some r"
    using run c unfolding g Let_def BUFLEN_def e_def by (simp only: bind.bind_lunit Option.bind.simps prod.case if_False)
  then consider "0 < i" "loop d buf echoing (i - 1) (e 8) = Some r"
    | "i < 1023" "loop d buf echoing (i + 1) (?put c (ucast c)) = Some r"
    | "r = (Mem buf, ?put 10 0)" | "loop d buf echoing i t = Some r"
    by (cases "(c = 8 \<or> c = 0x7F) \<and> i > 0"; cases "sint c \<ge> 32 \<and> i < 1024 - 1"; cases "c = 10 \<or> c = 13")
      (simp_all only: if_True if_False simp_thms option.inject, auto)
  then have "reads_line b buf t r"
  proof cases
    case 1
    then have "reads_line b buf (e 8) r" using IH i by simp
    then show ?thesis by (rule reads_line_trans [OF e])
  next
    case 2
    then have "reads_line b buf (?put c (ucast c)) r" using IH i by simp
    then show ?thesis by (rule reads_line_trans [OF edits_trans [OF e edits_store [OF i]]])
  next
    case 3
    show ?thesis unfolding 3 by (rule reads_line_trans [OF e reads_line_end [OF i]])
  next
    case 4
    then show ?thesis using IH i by simp
  qed
  with t show "reads_line b buf s r" by (rule reads_line_trans)
qed

lemma readline_reads:
  assumes "readline d buf prompt s = Some r"
  shows "reads_line b buf s r"
proof -
  obtain t where t: "(if prompt \<noteq> NULL then do { (_, s) \<leftarrow> cprintf d (Lit ''%s'' 0) [Ptr prompt] s; Some s } else Some s) = Some t"
    "readline_loop d buf (iscons 0 \<noteq> 0) 0 t = Some r"
    using assms by (auto simp: readline_def bind_eq_Some_conv)
  have "keeps b s t" using t(1) by (auto simp: bind_eq_Some_conv split: if_splits intro: keeps_cprintf keeps_refl)
  moreover have "reads_line b buf t r" using readline_loop_reads [OF t(2), of b] by simp
  ultimately show ?thesis by (blast intro: reads_line_trans keeps_edits)
qed

lemma holds_nul_cstr:
  assumes "holds_nul buf m"
  obtains l where "cstr m (Mem buf) l" "length l < 1024"
proof -
  obtain k where k: "k < 1024" "m (buf + of_nat k) = 0" using assms by (auto simp: holds_nul_def)
  have "\<exists>l. cstr m (Mem d) l \<and> length l \<le> k" if "m (d + of_nat k) = 0" for d
    using that
  proof (induction k arbitrary: d)
    case 0
    then show ?case by (intro exI [of _ "[]"]) simp
  next
    case (Suc k)
    show ?case
    proof (cases "m d = 0")
      case True
      then show ?thesis by (intro exI [of _ "[]"]) simp
    next
      case False
      have "m (d + 1 + of_nat k) = 0" using Suc.prems by (simp add: add.assoc)
      from Suc.IH [OF this] obtain l where "cstr m (Mem (d + 1)) l" "length l \<le> k" by blast
      with False show ?thesis by (intro exI [of _ "m d # l"]) simp
    qed
  qed
  from this [OF k(2)] k(1) show ?thesis by (auto intro: that)
qed

section \<open>The monitor\<close>

lemma monitor_round_edits:
  assumes "monitor_round d sy buf s = Some (brk, u)" "console_ok b s" "apart buf b" "\<not> in_region buf 1024 0"
  shows "edits b buf s u"
proof -
  obtain p t where r: "readline d buf (Lit ''K> '' 0) s = Some (p, t)"
    using assms(1) by (auto simp: monitor_round_def bind_eq_Some_conv)
  from readline_reads [OF r, of b] have t: "edits b buf s t" "p = Mem buf" "holds_nul buf (m_mem t)"
    by (simp_all add: reads_line_def)
  obtain l where l: "cstr (m_mem t) (Mem buf) l" "length l < 1024" using t(3) by (rule holds_nul_cstr)
  have "crt_ok b t" using t(1) assms(2) by (simp add: edits_def console_ok_def)
  then obtain m' where m': "runcmd d sy (Mem buf) t = Some (0, prints d (command_output sy l) (t\<lparr>m_mem := m'\<rparr>))"
    "\<forall>a. \<not> in_region buf (length l) a \<longrightarrow> m' a = m_mem t a"
    using runcmd_prints [OF _ l assms(3,4)] by blast
  have nn: "buf \<noteq> 0" using assms(4) by (auto simp: in_region_def)
  have "u = prints d (command_output sy l) (t\<lparr>m_mem := m'\<rparr>)"
    using assms(1) by (simp add: monitor_round_def r t(2) nn m'(1))
  moreover have "edits b buf t (t\<lparr>m_mem := m'\<rparr>)"
    using m'(2) l(2) in_region_mono by (intro edits_mem) (metis less_imp_le)
  ultimately show ?thesis
    using edits_trans [OF t(1) edits_trans [OF _ keeps_edits [OF keeps_prints]]] by (simp add: prints_def)
qed

lemma monitor_start_keeps: "monitor_start d s = Some t \<Longrightarrow> keeps b s t"
  by (auto simp: monitor_start_def bind_eq_Some_conv intro: keeps_trans keeps_cprintf)

lemma monitor_reaches_edits:
  assumes "monitor_reaches d sy buf s t" "console_ok b s" "apart buf b" "\<not> in_region buf 1024 0"
  shows "console_ok b t \<and> edits b buf s t"
  using assms
proof (induction rule: monitor_reaches.induct)
  case (start s t)
  then show ?case using monitor_start_keeps [of d s t b] keepsD keeps_edits by blast
next
  case (round s t u)
  then have t: "console_ok b t" "edits b buf s t" by simp_all
  have "edits b buf t u" using monitor_round_edits [OF round.hyps(2) t(1)] round.prems by simp
  then show ?case using t edits_trans by (auto simp: edits_def)
qed

section \<open>Properties\<close>

text \<open>
  (C8) The variables of the console keep to their types, whatever the devices answer: every
  operation leads from a well-formed console to a well-formed one, \<^verbatim>\<open>getchar\<close> returns a byte other
  than 0, so \<^verbatim>\<open>readline\<close> returns its buffer and never NULL, and in a well-formed console no device
  routine and no access of the circular buffer is undefined.
\<close>

theorem console_typed:
  assumes "console_ok b s"
  shows "console_ok b (cputchar d c s)
    \<and> (\<forall>fmt ap r t. cprintf d fmt ap s = Some (r, t) \<longrightarrow> console_ok b t)
    \<and> (\<forall>k t. getchar d s = Some (k, t) \<longrightarrow> console_ok b t \<and> k \<noteq> 0 \<and> unat k < 256)
    \<and> (\<forall>buf prompt p t. readline d buf prompt s = Some (p, t) \<longrightarrow> console_ok b t \<and> p = Mem buf)
    \<and> (\<exists>t. cons_store v s = Some t \<and> console_ok b t) \<and> (\<exists>r. cons_fetch s = Some r \<and> console_ok b (snd r))
    \<and> (\<exists>r. serial_proc_data d s = Some r \<and> console_ok b (snd r)) \<and> (\<exists>r. kbd_proc_data d s = Some r \<and> console_ok b (snd r))"
proof (intro conjI allI impI)
  have ok: "crt_ok b s" "shift_ok (kbd_shift s)" "ring_ok s" using assms by (simp_all add: console_ok_def)
  note keep = keepsD(1) [OF _ assms]
  show "console_ok b (cputchar d c s)" by (rule keep [OF keeps_cputchar])
  show "console_ok b t" if "cprintf d fmt ap s = Some (r, t)" for fmt ap r t by (rule keep [OF keeps_cprintf [OF that]])
  show "console_ok b t" "k \<noteq> 0" "unat k < 256" if "getchar d s = Some (k, t)" for k t
    using keeps_getchar [OF that, of b] keep by auto
  show "console_ok b t" "p = Mem buf" if "readline d buf prompt s = Some (p, t)" for buf prompt p t
    using readline_reads [OF that, of b] assms by (auto simp: reads_line_def edits_def)
  have "\<exists>t. cons_store v s = Some t" using ok(3) by (simp add: cons_store_def ring_ok_def Let_def)
  then show "\<exists>t. cons_store v s = Some t \<and> console_ok b t" using keep keeps_store by blast
  have "\<exists>r. cons_fetch s = Some r" using ok(3) by (simp add: cons_fetch_def ring_ok_def Let_def)
  then show "\<exists>r. cons_fetch s = Some r \<and> console_ok b (snd r)" using keep keeps_fetch by fastforce
  have "\<exists>r. serial_proc_data d s = Some r" by (simp add: serial_proc_data_def Let_def split_beta)
  then show "\<exists>r. serial_proc_data d s = Some r \<and> console_ok b (snd r)" using keep keeps_serial by fastforce
  have "\<exists>r. kbd_proc_data d s = Some r" using kbd_proc_data_run [OF ok(1,2), of d] by blast
  then show "\<exists>r. kbd_proc_data d s = Some r \<and> console_ok b (snd r)" using keep keeps_kbd by fastforce
qed

lemma console_ok_blank: "console_ok (KERNBASE + CGA_BUF) blank_console"
  using crt_ok_blank ring_ok_blank by (simp add: console_ok_def)

theorem console_typed_witness:
  "console_ok (KERNBASE + CGA_BUF) (cputchar ready_devices 65 blank_console)
    \<and> (\<exists>t. cons_store 7 blank_console = Some t \<and> console_ok (KERNBASE + CGA_BUF) t)"
  using console_typed [OF console_ok_blank, of ready_devices 65 7] by blast

text \<open>
  (C4) Whatever is typed and whatever the devices answer, in every state the monitor reaches the
  console is well-formed and memory has changed at most on the screen and in the 1024 bytes of
  the buffer of \<^verbatim>\<open>readline\<close>: neither a long line nor the splitting into arguments overruns it.
\<close>

theorem monitor_safe:
  assumes "console_ok b s" "apart buf b" "\<not> in_region buf 1024 0" "monitor_reaches d sy buf s t"
  shows "console_ok b t \<and> (\<forall>a. \<not> in_region b 4000 a \<longrightarrow> \<not> in_region buf 1024 a \<longrightarrow> m_mem t a = m_mem s a)"
  using monitor_reaches_edits [OF assms(4,1-3)] assms(1) by (simp add: edits_def)

theorem monitor_safe_witness:
  "\<exists>t. monitor_reaches ready_devices \<lparr>sym_start = 0x10000C, sym_entry = 0xF010000C, sym_etext = 0xF0101A00,
      sym_edata = 0xF0112300, sym_end = 0xF0112960\<rparr> 0x2000 blank_console t
    \<and> console_ok (KERNBASE + CGA_BUF) t \<and> m_mem t 0xF0112300 = 0"
proof -
  let ?sy = "\<lparr>sym_start = 0x10000C, sym_entry = 0xF010000C, sym_etext = 0xF0101A00, sym_edata = 0xF0112300, sym_end = 0xF0112960\<rparr>"
  have r: "monitor_reaches ready_devices ?sy 0x2000 blank_console (prints ready_devices banner_text blank_console)"
    by (rule monitor_reaches.start [OF monitor_banner [OF crt_ok_blank]])
  have "\<not> in_region 0x2000 1024 0" by (simp add: in_region_def)
  from monitor_safe [OF console_ok_blank apart_sample this r] r show ?thesis
    by (intro exI conjI) (assumption, simp_all add: in_region_def KERNBASE_def CGA_BUF_def)
qed

end
