(* ===== verification/JosSendpage.thy ===== *)
theory JosSendpage
  imports JosRender JosMmu
begin

text \<open>
  \<^verbatim>\<open>src/user/sendpage.c\<close>: a user program in which a parent and its child exchange a page each.
  The user library \<^verbatim>\<open>inc/lib.h\<close> is not part of the repository: the record \<open>user_lib\<close> holds the
  functions that the program calls, and \<open>user_laws\<close> states under which conditions they succeed and
  what they then do; where a condition fails nothing is said of them. The string functions are those
  of \<open>JosString\<close>. An access to a page that is not mapped for it is a page fault, which ends the
  program, and has the result None. The addresses of the two messages, which the linker chooses, are
  parameters; the program's own data is taken to be mapped.
\<close>

section \<open>The program\<close>

text \<open>
  What a user environment sees: its memory, the permissions of the page that each address is in (0
  where none is mapped), its identifier, and what the library keeps for it: the environments that
  exist, whether there is memory left, the pages that are sent to it in order, and what it has
  printed and sent.
\<close>

record message =
  msg_from :: u32
  msg_page :: "u8 list"
  msg_perm :: u32

datatype user_event = Printed "u32 list" | Sent u32 u32 "u8 list" u32

record user_env =
  ue_mem :: mem
  ue_perm :: "u32 \<Rightarrow> u32"
  ue_id :: u32
  ue_live :: "u32 set"
  ue_free :: bool
  ue_inbox :: "message list"
  ue_log :: "user_event list"

record user_lib =
  lib_fork :: "user_env \<Rightarrow> (u32 \<times> user_env) option"
  lib_ipc_recv :: "u32 \<Rightarrow> u32 \<Rightarrow> user_env \<Rightarrow> (u32 \<times> user_env) option"
  lib_ipc_send :: "u32 \<Rightarrow> u32 \<Rightarrow> u32 \<Rightarrow> u32 \<Rightarrow> user_env \<Rightarrow> user_env option"
  lib_sys_page_alloc :: "u32 \<Rightarrow> u32 \<Rightarrow> u32 \<Rightarrow> user_env \<Rightarrow> (int \<times> user_env) option"
  lib_cprintf :: "cptr \<Rightarrow> slot list \<Rightarrow> user_env \<Rightarrow> user_env option"

definition may_read :: "user_env \<Rightarrow> u32 \<Rightarrow> bool" where
  "may_read s a \<longleftrightarrow> ue_perm s a AND (PTE_P OR PTE_U) = PTE_P OR PTE_U"

definition may_write :: "user_env \<Rightarrow> u32 \<Rightarrow> bool" where
  "may_write s a \<longleftrightarrow> ue_perm s a AND (PTE_P OR PTE_W OR PTE_U) = PTE_P OR PTE_W OR PTE_U"

definition message1 :: string where
  "message1 = ''hello child environment! how are you?''"

definition message2 :: string where
  "message2 = ''hello parent environment! I'' @ [CHR 0x27] @ ''m good.''"

definition TEMP_ADDR :: u32 where "TEMP_ADDR = 0xa00000"
definition TEMP_ADDR_CHILD :: u32 where "TEMP_ADDR_CHILD = 0xb00000"

text \<open>\<^verbatim>\<open>memcpy(page, str, strlen(str) + 1)\<close>, and the comparison with its report.\<close>

definition copy_message :: "u32 \<Rightarrow> u32 \<Rightarrow> user_env \<Rightarrow> user_env option" where
  "copy_message pg str s =
     do { n \<leftarrow> strlen (ue_mem s) (Mem str);
          if list_all (\<lambda>i. may_write s (pg + of_nat i)) [0..<unat (n + 1)]
          then Some (s\<lparr>ue_mem := memcpy (ue_mem s) pg str (n + 1)\<rparr>) else None }"

definition check_message :: "user_lib \<Rightarrow> u32 \<Rightarrow> u32 \<Rightarrow> string \<Rightarrow> user_env \<Rightarrow> user_env option" where
  "check_message L pg str report s =
     do { n \<leftarrow> strlen (ue_mem s) (Mem str);
          r \<leftarrow> (if list_all (\<lambda>i. may_read s (pg + of_nat i)) [0..<unat n]
               then strncmp (ue_mem s) (Mem pg) (Mem str) n else None);
          if r = 0 then lib_cprintf L (Lit report 0) [] s else Some s }"

definition got_message :: string where
  "got_message = ''%x got message: %s'' @ [CHR 0x0A]"

definition child_ok :: string where
  "child_ok = ''child received correct message'' @ [CHR 0x0A]"

definition parent_ok :: string where
  "parent_ok = ''parent received correct message'' @ [CHR 0x0A]"

definition umain :: "user_lib \<Rightarrow> u32 \<Rightarrow> u32 \<Rightarrow> user_env \<Rightarrow> user_env option" where
  "umain L str1 str2 s =
     do { (who, s) \<leftarrow> lib_fork L s;
          if who = 0 then
            do { (who, s) \<leftarrow> lib_ipc_recv L TEMP_ADDR_CHILD 0 s;
                 s \<leftarrow> lib_cprintf L (Lit got_message 0) [Word who, Ptr (Mem TEMP_ADDR_CHILD)] s;
                 s \<leftarrow> check_message L TEMP_ADDR_CHILD str1 child_ok s;
                 s \<leftarrow> copy_message TEMP_ADDR_CHILD str2 s;
                 lib_ipc_send L who 0 TEMP_ADDR_CHILD (PTE_P OR PTE_W OR PTE_U) s }
          else
            do { (_, s) \<leftarrow> lib_sys_page_alloc L (ue_id s) TEMP_ADDR (PTE_P OR PTE_W OR PTE_U) s;
                 s \<leftarrow> copy_message TEMP_ADDR str1 s;
                 s \<leftarrow> lib_ipc_send L who 0 TEMP_ADDR (PTE_P OR PTE_W OR PTE_U) s;
                 (who, s) \<leftarrow> lib_ipc_recv L TEMP_ADDR 0 s;
                 s \<leftarrow> lib_cprintf L (Lit got_message 0) [Word who, Ptr (Mem TEMP_ADDR)] s;
                 check_message L TEMP_ADDR str2 parent_ok s } }"

section \<open>What the library promises\<close>

definition page_at :: "mem \<Rightarrow> u32 \<Rightarrow> u8 list" where
  "page_at m pg = map (\<lambda>i. m (pg + of_nat i)) [0..<4096]"

text \<open>Page-aligned addresses of user space, and the permissions that \<^verbatim>\<open>mmu.h\<close> allows in system calls.\<close>

definition user_page :: "u32 \<Rightarrow> bool" where
  "user_page pg \<longleftrightarrow> pg AND 0xFFF = 0 \<and> pg < UTOP"

definition perm_ok :: "u32 \<Rightarrow> bool" where
  "perm_ok perm \<longleftrightarrow> perm AND (PTE_P OR PTE_U) = PTE_P OR PTE_U \<and> perm AND NOT PTE_SYSCALL = 0"

definition map_page :: "u32 \<Rightarrow> u8 list \<Rightarrow> u32 \<Rightarrow> user_env \<Rightarrow> user_env" where
  "map_page pg d perm s =
     s\<lparr>ue_mem := put_bytes (ue_mem s) pg d, ue_perm := (\<lambda>a. if in_region pg 4096 a then perm else ue_perm s a)\<rparr>"

text \<open>
  \<^verbatim>\<open>cprintf\<close> prints the meaning of its format, when the strings it is given are mapped. \<^verbatim>\<open>ipc_send\<close>
  sends a page that is mapped, to an environment that exists, with permissions that are allowed and,
  for writing, held; the page is then shared, so its content may change, but nothing else does.
  \<^verbatim>\<open>ipc_recv\<close> maps the next page that is sent. \<^verbatim>\<open>sys_page_alloc\<close>, while there is memory, maps a page of zeros.
\<close>

definition user_laws :: "user_lib \<Rightarrow> bool" where
  "user_laws L \<longleftrightarrow>
     (\<forall>s l xs ap out. render (bytes l) xs = Some out \<longrightarrow> CHR 0x00 \<notin> set l \<longrightarrow> length l < 1024 \<longrightarrow> args_ok (ue_mem s) (may_read s) ap xs \<longrightarrow>
        lib_cprintf L (Lit l 0) ap s = Some (s\<lparr>ue_log := ue_log s @ [Printed out]\<rparr>)) \<and>
     (\<forall>s to v pg perm. to \<in> ue_live s \<longrightarrow> user_page pg \<longrightarrow> perm_ok perm \<longrightarrow> may_read s pg \<longrightarrow> (perm AND PTE_W \<noteq> 0 \<longrightarrow> may_write s pg) \<longrightarrow>
        (\<exists>m. (\<forall>a. \<not> in_region pg 4096 a \<longrightarrow> m a = ue_mem s a) \<and>
           lib_ipc_send L to v pg perm s = Some (s\<lparr>ue_mem := m, ue_log := ue_log s @ [Sent to v (page_at (ue_mem s) pg) perm]\<rparr>))) \<and>
     (\<forall>s msg rest pg. ue_inbox s = msg # rest \<longrightarrow> user_page pg \<longrightarrow>
        lib_ipc_recv L pg 0 s = Some (msg_from msg, map_page pg (msg_page msg) (msg_perm msg) (s\<lparr>ue_inbox := rest\<rparr>))) \<and>
     (\<forall>s pg perm. ue_free s \<longrightarrow> user_page pg \<longrightarrow> perm_ok perm \<longrightarrow>
        (\<exists>f. lib_sys_page_alloc L (ue_id s) pg perm s = Some (0, map_page pg (replicate 4096 0) perm (s\<lparr>ue_free := f\<rparr>))))"

text \<open>A page that begins with a string.\<close>

definition begins :: "u8 list \<Rightarrow> string \<Rightarrow> bool" where
  "begins d s \<longleftrightarrow> length d = 4096 \<and> take (length s + 1) d = bytes s @ [0]"

text \<open>A message in the program's data, away from the pages.\<close>

definition message_at :: "mem \<Rightarrow> u32 \<Rightarrow> string \<Rightarrow> bool" where
  "message_at m p s \<longleftrightarrow> cstr m (Mem p) (bytes s) \<and> length s < 64 \<and> unat p + 64 < 4294967296 \<and>
     (\<forall>a. in_region p 64 a \<longrightarrow> \<not> in_region TEMP_ADDR 4096 a \<and> \<not> in_region TEMP_ADDR_CHILD 4096 a)"

text \<open>What the program prints of a page: the sender in hexadecimal, and the string the page holds.\<close>

definition page_text :: "u8 list \<Rightarrow> u8 list" where
  "page_text d = takeWhile (\<lambda>c. c \<noteq> 0) d"

definition got_text :: "u32 \<Rightarrow> u8 list \<Rightarrow> u32 list" where
  "got_text who d = map hexchar (digits 16 (unat who)) @ map ucast (bytes '' got message: '') @ plain_str (page_text d) @ [10]"

section \<open>Facts\<close>

lemma length_page_at [simp]: "length (page_at m pg) = 4096"
  by (simp add: page_at_def)

lemma cstr_iff: "cstr m (Mem p) s \<longleftrightarrow> (\<forall>i < length s. m (p + of_nat i) = s ! i \<and> s ! i \<noteq> 0) \<and> m (p + of_nat (length s)) = 0"
  using cstr_append [of m "Mem p" s "[]"] by simp

lemma page_begins:
  assumes "cstr m (Mem pg) (bytes s)" "length s < 4096"
  shows "begins (page_at m pg) s"
proof -
  have "take (length s + 1) (page_at m pg) = bytes s @ [0]"
    using assms by (intro nth_equalityI) (auto simp: page_at_def cstr_iff nth_append less_Suc_eq)
  then show ?thesis by (simp add: begins_def)
qed

lemma map_page_simps [simp]:
  "ue_id (map_page pg d perm s) = ue_id s" "ue_live (map_page pg d perm s) = ue_live s" "ue_free (map_page pg d perm s) = ue_free s"
  "ue_inbox (map_page pg d perm s) = ue_inbox s" "ue_log (map_page pg d perm s) = ue_log s"
  by (simp_all add: map_page_def)

lemma map_page_byte:
  assumes "length d = 4096" "i < 4096"
  shows "ue_mem (map_page pg d perm s) (pg + of_nat i) = d ! i" "ue_perm (map_page pg d perm s) (pg + of_nat i) = perm"
  using assms by (simp_all add: map_page_def put_bytes_nth in_region_offset)

lemma map_page_outside: "length d = 4096 \<Longrightarrow> \<not> in_region pg 4096 a \<Longrightarrow> ue_mem (map_page pg d perm s) a = ue_mem s a"
  by (simp add: map_page_def put_bytes_outside)

lemma of_nat_eq_0_iff_u32: "n < 4294967296 \<Longrightarrow> (of_nat n :: u32) = 0 \<longleftrightarrow> n = 0"
  using unat_of_nat_u32 [of n] by fastforce

lemma all_less_Suc_first: "(\<forall>i < Suc n. P i) \<longleftrightarrow> P 0 \<and> (\<forall>i < n. P (Suc i))"
  using less_Suc_eq_0_disj by auto

lemma strncmp_starts:
  assumes "cstr m q s" "length s < 4294967296"
  shows "\<exists>r. strncmp m (Mem p) q (of_nat (length s)) = Some r \<and> (r = 0 \<longleftrightarrow> (\<forall>i < length s. m (p + of_nat i) = s ! i))"
  using assms
proof (induction s arbitrary: p q)
  case Nil
  show ?case by (subst strncmp.simps) simp
next
  case (Cons c s)
  have q: "rdb m q = Some c" "c \<noteq> 0" "cstr m (padd q 1) s" using Cons.prems(1) by auto
  have pos: "(of_nat (length (c # s)) :: u32) > 0" using Cons.prems(2) by (simp add: word_gt_0 of_nat_eq_0_iff_u32 del: of_nat_Suc)
  have less: "of_nat (length (c # s)) - 1 = (of_nat (length s) :: u32)" by simp
  have step: "strncmp m (Mem p) q (of_nat (length (c # s))) =
      (if m p = c then strncmp m (Mem (p + 1)) (padd q 1) (of_nat (length s)) else Some (uint (m p) - uint c))"
    using pos q by (subst strncmp.simps) (auto simp: less)
  have first: "(\<forall>i < length (c # s). m (p + of_nat i) = (c # s) ! i) \<longleftrightarrow> m p = c \<and> (\<forall>i < length s. m (p + 1 + of_nat i) = s ! i)"
    by (simp add: all_less_Suc_first add.assoc)
  show ?case
    using Cons.IH [OF q(3), of "p + 1"] Cons.prems(2) unfolding step first by (auto simp: word_uint_eq_iff)
qed

text \<open>Both pages are pages of user space, and the permissions of the program are allowed.\<close>

lemma pages: "user_page TEMP_ADDR" "user_page TEMP_ADDR_CHILD"
  by (simp_all add: user_page_def TEMP_ADDR_def TEMP_ADDR_CHILD_def layout_defs page_defs)

lemma perm_PWU: "perm_ok (PTE_P OR PTE_W OR PTE_U)"
  by (simp add: perm_ok_def PTE_SYSCALL_def PTE_AVAIL_def PTE_P_def PTE_W_def PTE_U_def)

lemma may_write_read: "may_write s a \<Longrightarrow> may_read s a"
proof -
  assume w: "may_write s a"
  have "ue_perm s a AND (PTE_P OR PTE_U) = (ue_perm s a AND (PTE_P OR PTE_W OR PTE_U)) AND (PTE_P OR PTE_U)"
    by (simp add: PTE_P_def PTE_W_def PTE_U_def and.assoc)
  also have "\<dots> = PTE_P OR PTE_U" using w by (simp add: may_write_def) (simp add: PTE_P_def PTE_W_def PTE_U_def)
  finally show ?thesis by (simp add: may_read_def)
qed

lemma message_stays:
  assumes "message_at m p s" "\<And>a. \<not> in_region pg 4096 a \<Longrightarrow> m' a = m a" "pg = TEMP_ADDR \<or> pg = TEMP_ADDR_CHILD"
  shows "message_at m' p s"
proof -
  have "m' (p + of_nat i) = m (p + of_nat i)" if "i < 64" for i
  proof -
    have "in_region p 64 (p + of_nat i)" using that by (simp add: in_region_offset)
    then show ?thesis using assms by (auto simp: message_at_def)
  qed
  then show ?thesis using assms(1) by (simp add: message_at_def cstr_iff)
qed

lemma copy_message_effect:
  assumes "message_at (ue_mem s) p str" "pg = TEMP_ADDR \<or> pg = TEMP_ADDR_CHILD" "\<forall>i < 4096. may_write s (pg + of_nat i)"
  obtains m where "copy_message pg p s = Some (s\<lparr>ue_mem := m\<rparr>)" "cstr m (Mem pg) (bytes str)"
    "\<And>a. \<not> in_region pg 4096 a \<Longrightarrow> m a = ue_mem s a"
proof -
  have c: "cstr (ue_mem s) (Mem p) (bytes str)" and l: "length str < 64" "unat p + 64 < 4294967296"
    using assms(1) by (simp_all add: message_at_def)
  have n: "unat (of_nat (length str) + 1 :: u32) = length str + 1" using l(1) by (simp add: unat_word_ariths unat_of_nat)
  have pg: "unat pg + 4096 < 4294967296" using assms(2) by (auto simp: TEMP_ADDR_def TEMP_ADDR_CHILD_def)
  let ?m = "copy_region (ue_mem s) pg p (length str + 1)"
  have "memmove (ue_mem s) pg p (of_nat (length str) + 1) = ?m"
    using memmove_region [of p "of_nat (length str) + 1" pg "ue_mem s"] l pg by (simp add: n)
  moreover have "list_all (\<lambda>i. may_write s (pg + of_nat i)) [0..<length str + 1]" using assms(3) l(1) by (simp add: list_all_iff)
  ultimately have run: "copy_message pg p s = Some (s\<lparr>ue_mem := ?m\<rparr>)"
    using strlen_cstr [OF c] by (simp add: copy_message_def memcpy_def n del: upt_Suc)
  have byte: "?m (pg + of_nat i) = ue_mem s (p + of_nat i)" if "i \<le> length str" for i
    using that l(1) by (simp add: copy_region_def in_region_offset add.commute)
  have "cstr ?m (Mem pg) (bytes str)" using c byte by (simp add: cstr_iff)
  moreover have "?m a = ue_mem s a" if "\<not> in_region pg 4096 a" for a
    using that in_region_mono [of pg "length str + 1" a 4096] l(1) by (auto simp: copy_region_def)
  ultimately show ?thesis using run by (rule that [rotated])
qed

lemma page_text_cstr:
  assumes "length d = 4096" "0 \<in> set d"
  shows "cstr (ue_mem (map_page pg d perm s)) (Mem pg) (page_text d)" "length (page_text d) < 4096"
proof -
  let ?n = "length (page_text d)"
  have "?n \<le> 4096" using length_takeWhile_le [of "\<lambda>c. c \<noteq> 0" d] assms(1) by (simp add: page_text_def)
  moreover have "?n \<noteq> 4096"
  proof
    assume "?n = 4096"
    then have "page_text d = d" using takeWhile_eq_take [of "\<lambda>c. c \<noteq> 0" d] assms(1) by (simp add: page_text_def)
    then show False using assms(2) by (metis page_text_def set_takeWhileD)
  qed
  ultimately show n: "?n < 4096" by simp
  have "d ! ?n = 0" using nth_length_takeWhile [of "\<lambda>c. c \<noteq> 0" d] n assms(1) by (simp add: page_text_def)
  moreover have "d ! i = page_text d ! i" "page_text d ! i \<noteq> 0" if "i < ?n" for i
    using that takeWhile_nth [of i "\<lambda>c. c \<noteq> 0" d] set_takeWhileD [OF nth_mem, of i "\<lambda>c. c \<noteq> 0" d] by (simp_all add: page_text_def)
  ultimately show "cstr (ue_mem (map_page pg d perm s)) (Mem pg) (page_text d)"
    using n map_page_byte(1) [OF assms(1)] by (simp add: cstr_iff)
qed

lemma render_messages:
  "render (bytes child_ok) [] = Some (map ucast (bytes child_ok))" "render (bytes parent_ok) [] = Some (map ucast (bytes parent_ok))"
  "render (bytes got_message) [SInt who, SStr w] =
    Some (map hexchar (digits 16 (unat who)) @ map ucast (bytes '' got message: '') @ plain_str w @ [10])"
  by (simp_all add: child_ok_def parent_ok_def got_message_def bytes_def render_steps)

text \<open>A received page is announced.\<close>

lemma got_printed:
  assumes laws: "user_laws L" and pg: "pg = TEMP_ADDR \<or> pg = TEMP_ADDR_CHILD"
    and d: "length d = 4096" "0 \<in> set d" "perm_ok perm" and u: "u = map_page pg d perm s"
  shows "lib_cprintf L (Lit got_message 0) [Word who, Ptr (Mem pg)] u = Some (u\<lparr>ue_log := ue_log u @ [Printed (got_text who d)]\<rparr>)"
proof -
  have "may_read u a" if "touches (Mem pg) (Suc (length (page_text d))) a" for a
  proof -
    have "in_region pg 4096 a" using that page_text_cstr(2) [OF d(1,2)] in_region_mono [of pg "Suc (length (page_text d))" a 4096] by simp
    then show ?thesis using d(3) by (simp add: may_read_def u map_page_def perm_ok_def)
  qed
  moreover have "Mem pg \<noteq> NULL" using pg by (auto simp: TEMP_ADDR_def TEMP_ADDR_CHILD_def)
  ultimately have "args_ok (ue_mem u) (may_read u) [Word who, Ptr (Mem pg)] [SInt who, SStr (page_text d)]"
    using page_text_cstr(1) [OF d(1,2), of pg perm s] page_text_cstr(2) [OF d(1,2)] by (simp add: u)
  moreover have "CHR 0x00 \<notin> set got_message" "length got_message < 1024" by (simp_all add: got_message_def)
  ultimately show ?thesis
    using laws render_messages(3) unfolding user_laws_def got_text_def by blast
qed

lemma check_message_result:
  assumes laws: "user_laws L" and p: "message_at (ue_mem s) p str" and pg: "\<forall>i < 4096. may_read s (pg + of_nat i)"
    and report: "render (bytes report) [] = Some (map ucast (bytes report))" "CHR 0x00 \<notin> set report" "length report < 1024"
  shows "check_message L pg p report s =
    Some (s\<lparr>ue_log := ue_log s @ (if take (length str) (page_at (ue_mem s) pg) = bytes str then [Printed (map ucast (bytes report))] else [])\<rparr>)"
proof -
  have c: "cstr (ue_mem s) (Mem p) (bytes str)" "length str < 64" using p by (simp_all add: message_at_def)
  have "(\<forall>i < length str. ue_mem s (pg + of_nat i) = bytes str ! i) \<longleftrightarrow> take (length str) (page_at (ue_mem s) pg) = bytes str"
    using c(2) by (auto simp: list_eq_iff_nth_eq page_at_def)
  then obtain r where r: "strncmp (ue_mem s) (Mem pg) (Mem p) (of_nat (length str)) = Some r"
    "r = 0 \<longleftrightarrow> take (length str) (page_at (ue_mem s) pg) = bytes str"
    using strncmp_starts [OF c(1), of pg] c(2) by auto
  have "lib_cprintf L (Lit report 0) [] s = Some (s\<lparr>ue_log := ue_log s @ [Printed (map ucast (bytes report))]\<rparr>)"
    using laws report unfolding user_laws_def by blast
  moreover have "list_all (\<lambda>i. may_read s (pg + of_nat i)) [0..<length str]" using pg c(2) by (simp add: list_all_iff)
  ultimately show ?thesis using r strlen_cstr [OF c(1)] c(2) by (simp add: check_message_def unat_of_nat)
qed

lemma page_at_map_page: "length d = 4096 \<Longrightarrow> page_at (ue_mem (map_page pg d perm s)) pg = d"
  by (rule nth_equalityI) (simp_all add: page_at_def map_page_byte)

lemma map_page_access:
  assumes "length d = 4096" "perm_ok perm" "i < 4096"
  shows "may_read (map_page pg d perm s) (pg + of_nat i)" "perm AND PTE_W = PTE_W \<Longrightarrow> may_write (map_page pg d perm s) (pg + of_nat i)"
proof -
  show "may_read (map_page pg d perm s) (pg + of_nat i)"
    using assms by (simp add: may_read_def map_page_byte perm_ok_def)
  show "may_write (map_page pg d perm s) (pg + of_nat i)" if w: "perm AND PTE_W = PTE_W"
  proof -
    have split: "PTE_P OR PTE_W OR PTE_U = (PTE_P OR PTE_U) OR PTE_W" by (simp add: PTE_P_def PTE_W_def PTE_U_def)
    have "perm AND (PTE_P OR PTE_U) = PTE_P OR PTE_U" using assms(2) by (simp add: perm_ok_def)
    then have "perm AND (PTE_P OR PTE_W OR PTE_U) = PTE_P OR PTE_W OR PTE_U"
      using w unfolding split by (simp only: bit.conj_disj_distrib [of perm "PTE_P OR PTE_U" PTE_W])
    then show ?thesis using assms(1,3) by (simp add: may_write_def map_page_byte)
  qed
qed

lemma user_lawsD:
  assumes "user_laws L"
  shows "to \<in> ue_live s \<Longrightarrow> user_page pg \<Longrightarrow> perm_ok perm \<Longrightarrow> may_read s pg \<Longrightarrow> (perm AND PTE_W \<noteq> 0 \<longrightarrow> may_write s pg) \<Longrightarrow>
      \<exists>m. (\<forall>a. \<not> in_region pg 4096 a \<longrightarrow> m a = ue_mem s a) \<and>
         lib_ipc_send L to v pg perm s = Some (s\<lparr>ue_mem := m, ue_log := ue_log s @ [Sent to v (page_at (ue_mem s) pg) perm]\<rparr>)"
    "ue_inbox s = msg # rest \<Longrightarrow> user_page pg \<Longrightarrow>
      lib_ipc_recv L pg 0 s = Some (msg_from msg, map_page pg (msg_page msg) (msg_perm msg) (s\<lparr>ue_inbox := rest\<rparr>))"
    "ue_free s \<Longrightarrow> user_page pg \<Longrightarrow> perm_ok perm \<Longrightarrow>
      \<exists>f. lib_sys_page_alloc L (ue_id s) pg perm s = Some (0, map_page pg (replicate 4096 0) perm (s\<lparr>ue_free := f\<rparr>))"
  using assms unfolding user_laws_def by simp_all

text \<open>Writing a message into a page that may be written, and sending it.\<close>

lemma copy_then_send:
  assumes laws: "user_laws L" and p: "message_at (ue_mem s) p str" and pg: "pg = TEMP_ADDR \<or> pg = TEMP_ADDR_CHILD"
    and w: "\<forall>i < 4096. may_write s (pg + of_nat i)" and to: "to \<in> ue_live s"
  obtains m m' d where "copy_message pg p s = Some (s\<lparr>ue_mem := m\<rparr>)"
    "lib_ipc_send L to 0 pg (PTE_P OR PTE_W OR PTE_U) (s\<lparr>ue_mem := m\<rparr>) =
       Some (s\<lparr>ue_mem := m', ue_log := ue_log s @ [Sent to 0 d (PTE_P OR PTE_W OR PTE_U)]\<rparr>)"
    "begins d str" "\<forall>a. \<not> in_region pg 4096 a \<longrightarrow> m' a = ue_mem s a"
proof -
  obtain m where m: "copy_message pg p s = Some (s\<lparr>ue_mem := m\<rparr>)" "cstr m (Mem pg) (bytes str)"
    "\<And>a. \<not> in_region pg 4096 a \<Longrightarrow> m a = ue_mem s a" using copy_message_effect [OF p pg w] by metis
  let ?s = "s\<lparr>ue_mem := m\<rparr>"
  have "may_write ?s pg" using w [rule_format, of 0] by (simp add: may_write_def)
  then obtain m' where m': "\<forall>a. \<not> in_region pg 4096 a \<longrightarrow> m' a = m a"
      "lib_ipc_send L to 0 pg (PTE_P OR PTE_W OR PTE_U) ?s =
       Some (?s\<lparr>ue_mem := m', ue_log := ue_log ?s @ [Sent to 0 (page_at m pg) (PTE_P OR PTE_W OR PTE_U)]\<rparr>)"
    using user_lawsD(1) [OF laws, of to ?s pg "PTE_P OR PTE_W OR PTE_U" 0] to pages pg perm_PWU may_write_read [of ?s pg] by auto
  have "begins (page_at m pg) str" using page_begins [OF m(2)] p by (simp add: message_at_def)
  then show ?thesis using m m' by (intro that [of m "page_at m pg" m']) simp_all
qed

text \<open>Receiving a page: it is announced and compared.\<close>

lemma receive_and_check:
  assumes laws: "user_laws L" and p: "message_at (ue_mem s) p str" and pg: "pg = TEMP_ADDR \<or> pg = TEMP_ADDR_CHILD"
    and msg: "ue_inbox s = msg # rest" "length (msg_page msg) = 4096" "0 \<in> set (msg_page msg)" "perm_ok (msg_perm msg)"
    and report: "render (bytes report) [] = Some (map ucast (bytes report))" "CHR 0x00 \<notin> set report" "length report < 1024"
  obtains u where "lib_ipc_recv L pg 0 s = Some (msg_from msg, u)"
    "lib_cprintf L (Lit got_message 0) [Word (msg_from msg), Ptr (Mem pg)] u = Some (u\<lparr>ue_log := ue_log s @ [Printed (got_text (msg_from msg) (msg_page msg))]\<rparr>)"
    "check_message L pg p report (u\<lparr>ue_log := ue_log s @ [Printed (got_text (msg_from msg) (msg_page msg))]\<rparr>) =
      Some (u\<lparr>ue_log := ue_log s @ [Printed (got_text (msg_from msg) (msg_page msg))]
        @ (if take (length str) (msg_page msg) = bytes str then [Printed (map ucast (bytes report))] else [])\<rparr>)"
    "u = map_page pg (msg_page msg) (msg_perm msg) (s\<lparr>ue_inbox := rest\<rparr>)"
proof -
  let ?u = "map_page pg (msg_page msg) (msg_perm msg) (s\<lparr>ue_inbox := rest\<rparr>)"
  let ?v = "?u\<lparr>ue_log := ue_log s @ [Printed (got_text (msg_from msg) (msg_page msg))]\<rparr>"
  have got: "lib_cprintf L (Lit got_message 0) [Word (msg_from msg), Ptr (Mem pg)] ?u = Some ?v"
    using got_printed [OF laws pg msg(2-4) refl, of "msg_from msg" "s\<lparr>ue_inbox := rest\<rparr>"] by simp
  have "message_at (ue_mem ?v) p str" using msg(2) by (intro message_stays [OF p _ pg]) (simp add: map_page_outside)
  moreover have "\<forall>i < 4096. may_read ?v (pg + of_nat i)"
    using map_page_access(1) [OF msg(2,4)] by (simp add: may_read_def)
  ultimately have "check_message L pg p report ?v = Some (?v\<lparr>ue_log := ue_log ?v
      @ (if take (length str) (page_at (ue_mem ?v) pg) = bytes str then [Printed (map ucast (bytes report))] else [])\<rparr>)"
    by (rule check_message_result [OF laws _ _ report])
  then show ?thesis
    using got user_lawsD(2) [OF laws msg(1)] pages pg page_at_map_page [OF msg(2)] by (intro that [of ?u]) auto
qed

lemma reports:
  "render (bytes child_ok) [] = Some (map ucast (bytes child_ok))" "CHR 0x00 \<notin> set child_ok" "length child_ok < 1024"
  "render (bytes parent_ok) [] = Some (map ucast (bytes parent_ok))" "CHR 0x00 \<notin> set parent_ok" "length parent_ok < 1024"
  using render_messages by (simp_all add: child_ok_def parent_ok_def)

lemma child_converses:
  assumes laws: "user_laws L" and one: "message_at (ue_mem s) str1 message1" and two: "message_at (ue_mem s) str2 message2"
    and fork: "lib_fork L s0 = Some (0, s)"
    and msg: "ue_inbox s = [msg]" "length (msg_page msg) = 4096" "0 \<in> set (msg_page msg)" "perm_ok (msg_perm msg)"
    and w: "msg_perm msg AND PTE_W = PTE_W" "msg_from msg \<in> ue_live s"
  shows "\<exists>s' d. umain L str1 str2 s0 = Some s' \<and> begins d message2 \<and>
    ue_log s' = ue_log s @ [Printed (got_text (msg_from msg) (msg_page msg))]
      @ (if take (length message1) (msg_page msg) = bytes message1 then [Printed (map ucast (bytes child_ok))] else [])
      @ [Sent (msg_from msg) 0 d (PTE_P OR PTE_W OR PTE_U)]"
proof -
  let ?got = "ue_log s @ [Printed (got_text (msg_from msg) (msg_page msg))]"
  let ?log = "ue_log s @ [Printed (got_text (msg_from msg) (msg_page msg))] @ (if take (length message1) (msg_page msg) = bytes message1 then [Printed (map ucast (bytes child_ok))] else [])"
  obtain u where u: "lib_ipc_recv L TEMP_ADDR_CHILD 0 s = Some (msg_from msg, u)"
    "lib_cprintf L (Lit got_message 0) [Word (msg_from msg), Ptr (Mem TEMP_ADDR_CHILD)] u = Some (u\<lparr>ue_log := ?got\<rparr>)"
    "check_message L TEMP_ADDR_CHILD str1 child_ok (u\<lparr>ue_log := ?got\<rparr>) = Some (u\<lparr>ue_log := ?log\<rparr>)"
    "u = map_page TEMP_ADDR_CHILD (msg_page msg) (msg_perm msg) (s\<lparr>ue_inbox := []\<rparr>)"
    by (rule receive_and_check [OF laws one disjI2 [OF refl] msg reports(1-3)])
  let ?u = "u\<lparr>ue_log := ?log\<rparr>"
  have "message_at (ue_mem ?u) str2 message2"
    by (intro message_stays [OF two, of TEMP_ADDR_CHILD]) (simp_all add: u(4) map_page_outside msg(2))
  moreover have "\<forall>i < 4096. may_write ?u (TEMP_ADDR_CHILD + of_nat i)"
    using map_page_access(2) [OF msg(2,4) _ w(1), of _ TEMP_ADDR_CHILD "s\<lparr>ue_inbox := []\<rparr>"] by (simp add: u(4) may_write_def)
  moreover have "msg_from msg \<in> ue_live ?u" using w(2) by (simp add: u(4))
  ultimately obtain m m' d where c: "copy_message TEMP_ADDR_CHILD str2 ?u = Some (?u\<lparr>ue_mem := m\<rparr>)"
    "lib_ipc_send L (msg_from msg) 0 TEMP_ADDR_CHILD (PTE_P OR PTE_W OR PTE_U) (?u\<lparr>ue_mem := m\<rparr>) =
       Some (?u\<lparr>ue_mem := m', ue_log := ue_log ?u @ [Sent (msg_from msg) 0 d (PTE_P OR PTE_W OR PTE_U)]\<rparr>)" "begins d message2"
    by (rule copy_then_send [OF laws _ disjI2 [OF refl]])
  then have "umain L str1 str2 s0 =
      Some (?u\<lparr>ue_mem := m', ue_log := ue_log ?u @ [Sent (msg_from msg) 0 d (PTE_P OR PTE_W OR PTE_U)]\<rparr>)"
    by (simp only: umain_def fork u(1,2,3) Option.bind.simps bind.bind_lunit prod.case refl if_True)
  then show ?thesis using c(3) by auto
qed

lemma parent_converses:
  assumes laws: "user_laws L" and one: "message_at (ue_mem s) str1 message1" and two: "message_at (ue_mem s) str2 message2"
    and fork: "lib_fork L s0 = Some (who, s)" "who \<noteq> 0"
    and msg: "ue_inbox s = [msg]" "length (msg_page msg) = 4096" "0 \<in> set (msg_page msg)" "perm_ok (msg_perm msg)"
    and w: "who \<in> ue_live s" "ue_free s"
  shows "\<exists>s' d. umain L str1 str2 s0 = Some s' \<and> begins d message1 \<and>
    ue_log s' = ue_log s @ [Sent who 0 d (PTE_P OR PTE_W OR PTE_U), Printed (got_text (msg_from msg) (msg_page msg))]
      @ (if take (length message2) (msg_page msg) = bytes message2 then [Printed (map ucast (bytes parent_ok))] else [])"
proof -
  let ?PWU = "PTE_P OR PTE_W OR PTE_U"
  obtain f where f: "lib_sys_page_alloc L (ue_id s) TEMP_ADDR ?PWU s = Some (0, map_page TEMP_ADDR (replicate 4096 0) ?PWU (s\<lparr>ue_free := f\<rparr>))"
    using user_lawsD(3) [OF laws w(2) pages(1) perm_PWU] by blast
  let ?a = "map_page TEMP_ADDR (replicate 4096 0) ?PWU (s\<lparr>ue_free := f\<rparr>)"
  have one1: "message_at (ue_mem ?a) str1 message1" and two1: "message_at (ue_mem ?a) str2 message2"
    using message_stays [OF one, of TEMP_ADDR "ue_mem ?a"] message_stays [OF two, of TEMP_ADDR "ue_mem ?a"] by (simp_all add: map_page_outside)
  have "\<forall>i < 4096. may_write ?a (TEMP_ADDR + of_nat i)"
    by (simp add: map_page_byte(2) may_write_def)
  moreover have "who \<in> ue_live ?a" using w(1) by simp
  ultimately obtain m m' d where c: "copy_message TEMP_ADDR str1 ?a = Some (?a\<lparr>ue_mem := m\<rparr>)"
    "lib_ipc_send L who 0 TEMP_ADDR ?PWU (?a\<lparr>ue_mem := m\<rparr>) = Some (?a\<lparr>ue_mem := m', ue_log := ue_log ?a @ [Sent who 0 d ?PWU]\<rparr>)"
    "begins d message1" "\<forall>a. \<not> in_region TEMP_ADDR 4096 a \<longrightarrow> m' a = ue_mem ?a a"
    by (rule copy_then_send [OF laws one1 disjI1 [OF refl]])
  let ?s = "?a\<lparr>ue_mem := m', ue_log := ue_log ?a @ [Sent who 0 d ?PWU]\<rparr>"
  have "message_at (ue_mem ?s) str2 message2" using c(4) by (intro message_stays [OF two1, of TEMP_ADDR]) simp_all
  moreover have "ue_inbox ?s = [msg]" using msg(1) by simp
  ultimately obtain u where u: "lib_ipc_recv L TEMP_ADDR 0 ?s = Some (msg_from msg, u)"
    "lib_cprintf L (Lit got_message 0) [Word (msg_from msg), Ptr (Mem TEMP_ADDR)] u =
      Some (u\<lparr>ue_log := ue_log ?s @ [Printed (got_text (msg_from msg) (msg_page msg))]\<rparr>)"
    "check_message L TEMP_ADDR str2 parent_ok (u\<lparr>ue_log := ue_log ?s @ [Printed (got_text (msg_from msg) (msg_page msg))]\<rparr>) =
      Some (u\<lparr>ue_log := ue_log ?s @ [Printed (got_text (msg_from msg) (msg_page msg))]
        @ (if take (length message2) (msg_page msg) = bytes message2 then [Printed (map ucast (bytes parent_ok))] else [])\<rparr>)"
    by (rule receive_and_check [OF laws _ disjI1 [OF refl] _ msg(2-4) reports(4-6)])
  have "umain L str1 str2 s0 = Some (u\<lparr>ue_log := ue_log ?s @ [Printed (got_text (msg_from msg) (msg_page msg))]
        @ (if take (length message2) (msg_page msg) = bytes message2 then [Printed (map ucast (bytes parent_ok))] else [])\<rparr>)"
    by (simp only: umain_def fork f c(1,2) u Option.bind.simps bind.bind_lunit prod.case if_False simp_thms)
  then show ?thesis using c(3) by auto
qed

lemma begins_take: "begins d s \<Longrightarrow> take (length s) d = bytes s \<and> length d = 4096 \<and> 0 \<in> set d"
proof -
  assume b: "begins d s"
  then have "0 \<in> set (take (length s + 1) d)" by (simp add: begins_def)
  then have "0 \<in> set d" by (rule in_set_takeD)
  then show ?thesis using b take_take [of "length s" "length s + 1" d] by (simp add: begins_def)
qed

text \<open>
  (C40) When the library keeps its laws, the fork has given an environment that exists, and a page waits
  that may be read (and by the child written) and holds a terminated string, the program does
  exactly this, on either side of \<^verbatim>\<open>fork\<close>. The child prints who has sent the page and the string in
  it, reports whether the page begins with the first message, and answers to the sender with a page
  that begins with the second one. The parent sends a page that begins with the first message,
  prints the answer, and reports whether it begins with the second one. Both pages are sent present,
  writable and for users.
\<close>

theorem umain_converses:
  assumes laws: "user_laws L" and messages: "message_at (ue_mem s) str1 message1" "message_at (ue_mem s) str2 message2"
    and fork: "lib_fork L s0 = Some (who, s)"
    and msg: "ue_inbox s = [msg]" "length (msg_page msg) = 4096" "0 \<in> set (msg_page msg)" "perm_ok (msg_perm msg)"
    and child: "who = 0 \<Longrightarrow> msg_perm msg AND PTE_W = PTE_W \<and> msg_from msg \<in> ue_live s"
    and parent: "who \<noteq> 0 \<Longrightarrow> who \<in> ue_live s \<and> ue_free s"
  shows "\<exists>s' d. umain L str1 str2 s0 = Some s' \<and> begins d (if who = 0 then message2 else message1) \<and>
    ue_log s' = ue_log s @
      (if who = 0 then
         [Printed (got_text (msg_from msg) (msg_page msg))]
           @ (if take (length message1) (msg_page msg) = bytes message1 then [Printed (map ucast (bytes child_ok))] else [])
           @ [Sent (msg_from msg) 0 d (PTE_P OR PTE_W OR PTE_U)]
       else
         [Sent who 0 d (PTE_P OR PTE_W OR PTE_U), Printed (got_text (msg_from msg) (msg_page msg))]
           @ (if take (length message2) (msg_page msg) = bytes message2 then [Printed (map ucast (bytes parent_ok))] else []))"
proof (cases "who = 0")
  case True
  then show ?thesis using child_converses [OF laws messages _ msg, of s0] fork child by simp
next
  case False
  then show ?thesis using parent_converses [OF laws messages fork False msg] parent by simp
qed

section \<open>A conversation\<close>

text \<open>
  A library that keeps the laws. Its \<^verbatim>\<open>cprintf\<close> is the formatter of \<^verbatim>\<open>lib/printfmt.c\<close> with a callback
  that collects the characters.
\<close>

definition collect :: "u32 \<Rightarrow> mem \<times> u32 list \<Rightarrow> mem \<times> u32 list" where
  "collect c = (\<lambda>(m, out). (m, out @ [c]))"

interpretation collector: printer collect fst "\<lambda>_. True" R for R
  by unfold_locales (auto simp: collect_def)

lemma fold_collect: "fold collect cs (m, out) = (m, out @ cs)"
  by (induction cs arbitrary: out) (simp_all add: collect_def)

definition demo_lib :: "u32 \<Rightarrow> user_lib" where
  "demo_lib child = \<lparr>
     lib_fork = (\<lambda>s. Some (child, s)),
     lib_ipc_recv = (\<lambda>pg p s. case ue_inbox s of [] \<Rightarrow> None
       | msg # rest \<Rightarrow> Some (msg_from msg, map_page pg (msg_page msg) (msg_perm msg) (s\<lparr>ue_inbox := rest\<rparr>))),
     lib_ipc_send = (\<lambda>to v pg perm s. if to \<in> ue_live s \<and> user_page pg \<and> perm_ok perm
       then Some (s\<lparr>ue_log := ue_log s @ [Sent to v (page_at (ue_mem s) pg) perm]\<rparr>) else None),
     lib_sys_page_alloc = (\<lambda>env pg perm s. if ue_free s then Some (0, map_page pg (replicate 4096 0) perm s) else Some (- 4, s)),
     lib_cprintf = (\<lambda>fmt ap s. do { (m, out) \<leftarrow> vprintfmt collect fst fmt ap (ue_mem s, []);
       Some (s\<lparr>ue_log := ue_log s @ [Printed out]\<rparr>) })\<rparr>"

lemma demo_laws: "user_laws (demo_lib child)"
proof -
  have "lib_cprintf (demo_lib child) (Lit l 0) ap s = Some (s\<lparr>ue_log := ue_log s @ [Printed out]\<rparr>)"
    if "render (bytes l) xs = Some out" "CHR 0x00 \<notin> set l" "length l < 1024" "args_ok (ue_mem s) (may_read s) ap xs" for s l xs ap out
  proof -
    have "vprintfmt collect fst (Lit l 0) ap (ue_mem s, []) = Some (fold collect out (ue_mem s, []))"
      unfolding vprintfmt_def
      by (rule collector.vprintfmt_loop_render [where R = "may_read s", OF that(1)]) (use that in \<open>simp_all add: readable_str_Lit\<close>)
    then show ?thesis by (simp add: demo_lib_def fold_collect)
  qed
  moreover have "\<exists>m. (\<forall>a. \<not> in_region pg 4096 a \<longrightarrow> m a = ue_mem s a) \<and> lib_ipc_send (demo_lib child) to v pg perm s =
      Some (s\<lparr>ue_mem := m, ue_log := ue_log s @ [Sent to v (page_at (ue_mem s) pg) perm]\<rparr>)"
    if "to \<in> ue_live s" "user_page pg" "perm_ok perm" for s to v pg perm
    using that by (intro exI [of _ "ue_mem s"]) (simp add: demo_lib_def)
  moreover have "\<exists>f. lib_sys_page_alloc (demo_lib child) (ue_id s) pg perm s =
      Some (0, map_page pg (replicate 4096 0) perm (s\<lparr>ue_free := f\<rparr>))" if "ue_free s" for s pg perm
    using that by (intro exI [of _ True]) (cases s, simp add: demo_lib_def map_page_def)
  ultimately show ?thesis unfolding user_laws_def by (simp add: demo_lib_def)
qed

definition demo_data :: mem where
  "demo_data = put_bytes (put_bytes (\<lambda>_. 0) 0x800080 (bytes message1 @ [0])) 0x800020 (bytes message2 @ [0])"

lemma regions_apart: "unat p + n \<le> unat q \<Longrightarrow> unat q + k \<le> 4294967296 \<Longrightarrow> in_region p n a \<Longrightarrow> \<not> in_region q k a"
  unfolding in_region_def by (cases "unat q \<le> unat a"; cases "unat p \<le> unat a") (simp_all add: unat_sub_if')

lemma message_at_low:
  assumes "cstr m (Mem p) (bytes s)" "length s < 64" "unat p + 64 \<le> unat TEMP_ADDR"
  shows "message_at m p s"
proof -
  have "unat p + 64 \<le> unat TEMP_ADDR_CHILD" "unat p + 64 < 4294967296"
    using assms(3) by (simp_all add: TEMP_ADDR_def TEMP_ADDR_CHILD_def)
  moreover have "unat TEMP_ADDR + 4096 \<le> 4294967296" "unat TEMP_ADDR_CHILD + 4096 \<le> 4294967296"
    by (simp_all add: TEMP_ADDR_def TEMP_ADDR_CHILD_def)
  ultimately show ?thesis using assms regions_apart [of p 64 _ 4096] by (simp add: message_at_def)
qed

lemma demo_messages: "message_at demo_data 0x800080 message1" "message_at demo_data 0x800020 message2"
proof -
  have z: "0 \<notin> set (bytes message1)" "0 \<notin> set (bytes message2)" by (simp_all add: message1_def message2_def bytes_def)
  have l: "length message1 = 37" "length message2 = 35" by (simp_all add: message1_def message2_def)
  let ?m = "put_bytes (\<lambda>_. 0) 0x800080 (bytes message1 @ [0])"
  have one: "cstr ?m (Mem 0x800080) (bytes message1)" using z l by (intro cstr_put_bytes) simp_all
  have "\<not> in_region 0x800020 36 (0x800080 + of_nat i)" if "i \<le> 37" for i
    using that regions_apart [of "0x800020" 36 "0x800080" 39 "0x800080 + of_nat i"] by (auto simp: in_region_offset)
  then have same: "demo_data (0x800080 + of_nat i) = ?m (0x800080 + of_nat i)" if "i \<le> 37" for i
    using that l by (simp add: demo_data_def put_bytes_outside)
  then have "cstr demo_data (Mem 0x800080) (bytes message1)"
    using one l same same [of 37] unfolding cstr_iff by simp
  then show "message_at demo_data 0x800080 message1" using l by (intro message_at_low) (simp_all add: TEMP_ADDR_def)
  have "cstr demo_data (Mem 0x800020) (bytes message2)"
    unfolding demo_data_def using z l by (intro cstr_put_bytes) simp_all
  then show "message_at demo_data 0x800020 message2" using l by (intro message_at_low) (simp_all add: TEMP_ADDR_def)
qed

text \<open>
  The child 0x1001 gets the first message from the parent 0x1000, which gets what the child answers.
\<close>

definition demo_page :: "u8 list" where
  "demo_page = bytes message1 @ replicate 4059 0"

definition demo_env :: "u32 \<Rightarrow> u32 \<Rightarrow> u8 list \<Rightarrow> user_env" where
  "demo_env self other d = \<lparr>ue_mem = demo_data, ue_perm = (\<lambda>_. 0), ue_id = self, ue_live = {other}, ue_free = True,
     ue_inbox = [\<lparr>msg_from = other, msg_page = d, msg_perm = 7\<rparr>], ue_log = []\<rparr>"

theorem umain_converses_witness:
  "\<exists>s d t e. umain (demo_lib 0) 0x800080 0x800020 (demo_env 0x1001 0x1000 demo_page) = Some s \<and>
     ue_log s = [Printed (got_text 0x1000 demo_page), Printed (map ucast (bytes child_ok)), Sent 0x1000 0 d 7] \<and>
     umain (demo_lib 0x1001) 0x800080 0x800020 (demo_env 0x1000 0x1001 d) = Some t \<and>
     ue_log t = [Sent 0x1001 0 e 7, Printed (got_text 0x1001 d), Printed (map ucast (bytes parent_ok))] \<and> begins e message1"
proof -
  have l: "length message1 = 37" by (simp add: message1_def)
  have p: "perm_ok 7" "(7 :: u32) AND PTE_W = PTE_W" "PTE_P OR PTE_W OR PTE_U = 7"
    by (simp_all add: perm_ok_def PTE_SYSCALL_def PTE_AVAIL_def PTE_P_def PTE_W_def PTE_U_def)
  have fork: "lib_fork (demo_lib c) s = Some (c, s)" for c s by (simp add: demo_lib_def)
  have d: "length demo_page = 4096" "0 \<in> set demo_page" "take 37 demo_page = bytes message1" by (simp_all add: demo_page_def l)
  have m: "message_at (ue_mem (demo_env a b x)) 0x800080 message1" "message_at (ue_mem (demo_env a b x)) 0x800020 message2" for a b x
    using demo_messages by (simp_all add: demo_env_def)
  obtain s dc where 1: "umain (demo_lib 0) 0x800080 0x800020 (demo_env 0x1001 0x1000 demo_page) = Some s" "begins dc message2"
      "ue_log s = [Printed (got_text 0x1000 demo_page), Printed (map ucast (bytes child_ok)), Sent 0x1000 0 dc 7]"
    using umain_converses [OF demo_laws m fork, of "0x1001" "0x1000" demo_page "\<lparr>msg_from = 0x1000, msg_page = demo_page, msg_perm = 7\<rparr>" 0] d p
    by (auto simp: demo_env_def l)
  obtain t dp where "umain (demo_lib 0x1001) 0x800080 0x800020 (demo_env 0x1000 0x1001 dc) = Some t" "begins dp message1"
      "ue_log t = [Sent 0x1001 0 dp 7, Printed (got_text 0x1001 dc), Printed (map ucast (bytes parent_ok))]"
    using umain_converses [OF demo_laws m fork, of "0x1000" "0x1001" dc "\<lparr>msg_from = 0x1001, msg_page = dc, msg_perm = 7\<rparr>" "0x1001"]
      begins_take [OF 1(2)] p by (auto simp: demo_env_def)
  then show ?thesis using 1 by blast
qed

end
