(* ===== verification/Spec2Isabelle.thy ===== *)
theory Spec2Isabelle
  imports JosSnprintf JosEntryPgdir JosHardware JosBoot JosInit JosSafe JosSendpage
begin

text \<open>
  A verification development for JOS, the teaching kernel of MIT's operating systems course, at
  its first stage: a boot loader that reads the kernel from disk, and a kernel that brings up a
  console and runs a small monitor on it. The development follows the C sources under
  \<^verbatim>\<open>src/\<close> function by function; the names of the definitions are those of the sources.

  \<^bold>\<open>The parts and how they interact.\<close> The loader (\<^verbatim>\<open>boot/main.c\<close>) reads the ELF image of
  the kernel from the disk, sector by sector, and jumps into it. The processor then runs on the
  page tables of \<^verbatim>\<open>kern/entrypgdir.c\<close>. \<^verbatim>\<open>kern/init.c\<close> clears the BSS, initialises the console
  (\<^verbatim>\<open>kern/console.c\<close>), prints through \<^verbatim>\<open>kern/printf.c\<close>, which calls the formatter of
  \<^verbatim>\<open>lib/printfmt.c\<close> with a callback, and enters the monitor (\<^verbatim>\<open>kern/monitor.c\<close>), which reads lines
  with \<^verbatim>\<open>lib/readline.c\<close> and uses \<^verbatim>\<open>lib/string.c\<close> to find the command, and \<^verbatim>\<open>kern/kdebug.c\<close> to
  name the functions of a backtrace.

  \<^bold>\<open>Theories.\<close>
  \<^item> \<open>JosPrelude\<close>: integers at their width, memory as a function from 32-bit addresses to
    bytes, C pointers (into memory or into a string literal), strings in memory (\<open>cstr\<close>), and
    the lemmas on regions that all theories share.
  \<^item> \<open>JosString\<close>: \<^verbatim>\<open>lib/string.c\<close>, in the assembly and in the portable version.
  \<^item> \<open>JosPrintfmt\<close>: the code of \<^verbatim>\<open>lib/printfmt.c\<close>. \<open>JosFormat\<close> gives the meaning of a format,
    \<open>render\<close>, which knows no pointers and no callback; \<open>JosPrinter\<close> states as the locale
    \<open>printer\<close> what a callback owes to the formatter, and proves in it that the formatter
    implements \<open>render\<close>. \<open>JosSnprintf\<close> interprets the locale with the bounded buffer of
    \<^verbatim>\<open>snprintf\<close>, \<open>JosCprintf\<close> with the console. \<open>JosRender\<close> computes the meaning of formats
    whose arguments are variables. \<open>JosCallback\<close> shows for every format, malformed ones included,
    that the formatter does nothing but call its callback.
  \<^item> \<open>JosMachine\<close>: \<^verbatim>\<open>inc/x86.h\<close> and \<^verbatim>\<open>inc/types.h\<close>: the record \<open>machine\<close> with memory, registers
    and the history of port accesses. A device is a function from histories to answers.
  \<^item> \<open>JosConsole\<close> and \<open>JosInput\<close>: \<^verbatim>\<open>kern/console.c\<close>, its output and its input half; the record
    \<open>console\<close> extends \<open>machine\<close> by the file's static variables. The text screen is abstracted to
    a list of cells and a cursor, the circular input buffer to a queue (the locale
    \<open>bounded_queue\<close>, interpreted on \<open>cons_store\<close> and \<open>cons_fetch\<close>).
  \<^item> \<open>JosReadline\<close>: \<^verbatim>\<open>lib/readline.c\<close>, shown to implement a line editor on lists.
  \<^item> \<open>JosKdebug\<close>: \<^verbatim>\<open>kern/kdebug.c\<close>, the binary search of the STABS table.
  \<^item> \<open>JosMonitor\<close>: \<^verbatim>\<open>kern/monitor.c\<close>, with \<open>dialogue\<close>, what the monitor prints for an input, as
    its abstract specification. \<open>JosInit\<close>: \<^verbatim>\<open>kern/init.c\<close>.
  \<^item> \<open>JosSafe\<close>: what holds of the console, of \<^verbatim>\<open>readline\<close> and of the monitor whatever the devices
    answer; the locale \<open>device_routine\<close> is the contract of the routines that \<^verbatim>\<open>cons_intr\<close> calls,
    interpreted on the serial receiver and on the keyboard driver.
  \<^item> \<open>JosMmu\<close> and \<open>JosEntryPgdir\<close>: \<^verbatim>\<open>inc/mmu.h\<close>, \<^verbatim>\<open>inc/memlayout.h\<close> and the entry page tables.
  \<^item> \<open>JosHardware\<close>: the rest of \<^verbatim>\<open>inc/mmu.h\<close>, \<^verbatim>\<open>inc/kbdreg.h\<close>, \<^verbatim>\<open>inc/stab.h\<close> and \<^verbatim>\<open>inc/elf.h\<close>:
    formats in memory and codes.
  \<^item> \<open>JosBoot\<close>: \<^verbatim>\<open>boot/main.c\<close> and \<^verbatim>\<open>inc/elf.h\<close>.
  \<^item> \<open>JosSendpage\<close>: \<^verbatim>\<open>user/sendpage.c\<close>, a user program of later stages, over a user library that is
    a parameter and a memory whose pages have permissions; the example library prints with the
    formatter of \<^verbatim>\<open>lib/printfmt.c\<close>, through the locale \<open>printer\<close>.
  \<^item> This theory: the properties that span components, \<^verbatim>\<open>snprintf\<close> against \<^verbatim>\<open>strtol\<close>, and the
    kernel from its entry to the monitor.

  \<^bold>\<open>Conventions.\<close> An \<^verbatim>\<open>int\<close> of the source is an integer kept in range by \<open>wrap32\<close> where it can
  overflow, or a word read by \<open>sint\<close>; addresses and unsigned integers are words. A result None
  stands for undefined behaviour (an access outside an array or a literal) or for a loop that
  does not return; loops that may not return are \<open>partial_function\<close>s, so no fuel is used, and
  every property that says a routine returns says so as \<open>Some\<close>. Loops with a bound of their own
  (the waits of the ports, 12800 rounds) are total. A call of \<^verbatim>\<open>panic\<close> in the middle of a
  computation is the value \<open>Inl\<close>.

  \<^bold>\<open>What the lemmas show.\<close> For the library: the string routines against their specification on
  lists and regions, the formatter against \<open>render\<close>, for any callback. For the console: a
  refinement of the abstract screen with the frame outside it (\<open>emits\<close>), the queue, the states of
  the keyboard driver, and that input reaches \<^verbatim>\<open>getchar\<close>. For the kernel: what the monitor prints
  for every input, what a backtrace and a panic print, that the loader places the kernel, that the
  entry page tables map what they should. Two kinds of statement complement each other: the
  functional ones say that a routine returns and what it does, under hypotheses on the input; the
  safety ones, for the formatter, the console and the monitor, have no hypotheses on formats or
  devices and bound what can change. The last property of this theory composes the components.

  \<^bold>\<open>Parameters.\<close> The devices, the addresses the linker chooses, the symbol tables, the buffer of
  \<^verbatim>\<open>readline\<close>, the stack frames of function entries, and the user library of \<^verbatim>\<open>sendpage\<close>
  (\<open>user_lib\<close>; \<open>user_laws\<close> says when its functions succeed and what they then do). Hypotheses on the
  devices state what the hardware documents: the disk serves a sector after a read command issued
  while it was ready (\<open>ide_disk\<close>), the serial line delivers its bytes in order (\<open>uart\<close>).

  \<^bold>\<open>Not modelled.\<close> \<^verbatim>\<open>boot/boot.S\<close> and \<^verbatim>\<open>kern/entry.S\<close> are assembly. \<^verbatim>\<open>breakpoint\<close> of \<^verbatim>\<open>inc/x86.h\<close> raises an
  exception for which the kernel has no handler yet. Prototypes and \<^verbatim>\<open>typedef\<close>s have no definitions
  of their own: the types are the words of \<open>JosPrelude\<close>.
\<close>

section \<open>Numbers survive printing and reading\<close>

lemma hexchar_digit:
  assumes "d < 10"
  shows "digit_value (ucast (hexchar d)) = Some (int d)" "digit_of 10 (ucast (hexchar d))" "(ucast (hexchar d) :: u8) \<noteq> 0"
proof -
  have "d = 0 \<or> d = 1 \<or> d = 2 \<or> d = 3 \<or> d = 4 \<or> d = 5 \<or> d = 6 \<or> d = 7 \<or> d = 8 \<or> d = 9" using assms by presburger
  then show "digit_value (ucast (hexchar d)) = Some (int d)" "digit_of 10 (ucast (hexchar d))" "(ucast (hexchar d) :: u8) \<noteq> 0"
    by (elim disjE; simp add: hexchar_def digit_value_def digit_of_def)+
qed

lemma number_hexchars:
  assumes "\<forall>d \<in> set ds. d < 10"
  shows "number 10 (map ucast (map hexchar ds)) = int (foldl (\<lambda>v d. v * 10 + d) 0 ds)"
proof -
  have "foldl (\<lambda>v c. v * 10 + the (digit_value c)) (int v) (map ucast (map hexchar ds)) = int (foldl (\<lambda>v d. v * 10 + d) v ds)" for v
    using assms
  proof (induction ds arbitrary: v)
    case (Cons d ds)
    then show ?case using Cons.IH [of "v * 10 + d"] by (simp add: hexchar_digit)
  qed simp
  from this [of 0] show ?thesis by (simp add: number_def)
qed

text \<open>
  (C14) What \<^verbatim>\<open>snprintf\<close> prints with \<^verbatim>\<open>%d\<close>, \<^verbatim>\<open>strtol\<close> reads back: every 32-bit number, the smallest one
  included, and the end pointer is behind the last character printed. Twelve bytes of buffer are
  enough.
\<close>

theorem snprintf_strtol:
  assumes "buf \<noteq> 0" "12 \<le> n" "n < 2147483648" "uint buf + n \<le> 4294967296"
  shows "\<exists>r m'. snprintf m buf n (Lit ''%d'' 0) [Word w] = Some (r, m')
    \<and> strtol m' (Mem buf) 10 = Some (sint w, padd (Mem buf) r)"
proof -
  define neg where "neg \<longleftrightarrow> sint w < 0"
  define ds where "ds = digits 10 (nat \<bar>sint w\<bar>)"
  let ?cs = "map ucast (map hexchar ds) :: u8 list" and ?sign = "if neg then [45] else [] :: u8 list"
  have small: "\<forall>d \<in> set ds. d < 10" using digits_less [of 10] by (auto simp: ds_def)
  have "- 2147483648 \<le> sint w" "sint w < 2147483648" using sint_ge [of w] sint_lt [of w] by simp_all
  then have "length ds \<le> 10" unfolding ds_def by (intro digits_length_pow) simp_all
  then have len: "length (?sign @ ?cs) \<le> 11" by simp
  have out: "map ucast (dec w) = ?sign @ ?cs" by (simp add: dec_def neg_def ds_def)
  then have lo: "length (dec w) = length (?sign @ ?cs)" by (metis length_map)
  have "render (bytes ''%d'') [SInt w] = Some (dec w)" by (simp add: chars_simps render_steps)
  then have p: "snprintf m buf n (Lit ''%d'' 0) [Word w] =
      Some (wrap32 (int (length (dec w))), put_bytes m buf (map ucast (take (nat n - 1) (dec w)) @ [0]))"
    unfolding snprintf_def using assms
    by (intro vsnprintf_output [where f = "bytes ''%d''" and xs = "[SInt w]"]) (simp_all add: readable_str_Lit)
  have t: "take (nat n - 1) (dec w) = dec w" using lo len assms(2) by simp
  have r: "wrap32 (int (length (dec w))) = int (length (?sign @ ?cs))" using lo len by (simp add: wrap32_id)
  let ?m = "put_bytes m buf ((?sign @ ?cs) @ [0])"
  have "cstr ?m (Mem buf) (?sign @ ?cs)"
    using small len by (intro cstr_put_bytes) (auto simp: hexchar_digit)
  then have "cstr ?m (Mem buf) (?sign @ ?cs @ [])" by simp
  then have "strtol ?m (Mem buf) 10 = Some (wrap32 (if neg then - number 10 ?cs else number 10 ?cs),
      padd (Mem buf) (int ((if neg then 1 else 0) + length ?cs)))"
    by (rule strtol_decimal) (use small in \<open>auto simp: hexchar_digit ds_def\<close>)
  moreover have "number 10 ?cs = \<bar>sint w\<bar>"
    unfolding number_hexchars [OF small] by (simp add: ds_def digits_value)
  moreover have "(if neg then - \<bar>sint w\<bar> else \<bar>sint w\<bar>) = sint w" by (simp add: neg_def)
  moreover have "wrap32 (sint w) = sint w" by (simp add: wrap32_sint)
  ultimately show ?thesis using p unfolding t out r by (auto simp: neg_def)
qed

theorem snprintf_strtol_witness:
  "\<exists>r m'. snprintf (\<lambda>_. 0) 0x1000 12 (Lit ''%d'' 0) [Word 0x80000000] = Some (r, m')
    \<and> strtol m' (Mem 0x1000) 10 = Some (- 2147483648, padd (Mem 0x1000) r)"
  using snprintf_strtol [of "0x1000" 12 "\<lambda>_. 0" "0x80000000"] by simp

section \<open>The kernel from its entry to the monitor\<close>

text \<open>
  (C1) The start of the kernel as a whole. With an adapter whose cursor is on the screen and a serial
  port, the BSS is cleared, the console comes up, the nested calls of \<^verbatim>\<open>test_backtrace\<close> print their
  lines around the backtrace of the innermost one and come back, and the monitor then holds the
  dialogue with the input: all this, and nothing else, is on the screen and on the two ports, in
  this order. Of the input the byte is lost that waits when the serial port is initialised.
\<close>

theorem kernel_session:
  assumes "a = (if dev_cga d \<in> {None, Some 0xA55A} then CGA_BASE else MONO_BASE)"
    and "b = (if dev_cga d \<in> {None, Some 0xA55A} then KERNBASE + CGA_BUF else KERNBASE + MONO_BUF)"
    and "hw_cursor d a (m_io s) < CRT_SIZE" and lsr: "\<And>io. dev_inb d io 0x3FD \<noteq> 0xFF"
    and "uart input d" "quiet_kbd d" "unread = filter (\<lambda>c. c \<noteq> 0) (drop (Suc (port_in 0x3F8 (m_io s))) input)" "length unread \<le> 511"
    and ops: "\<And>x. stack_op b (enter x)" "\<And>x. stack_op b (leave x)" and w: "w = innermost enter 5 (clear_bss sy s)"
    and chain: "stack_chain (m_mem w) (m_ebp w) (map fst fs)" "\<forall>(f, i) \<in> set fs. frame_ok tab (m_mem w) b f i"
    and buf: "apart buf b" "\<not> in_region buf 1024 0"
    and out: "out = greeting @ nested (backtrace_text (m_mem w) fs) 5 @ banner_text @ dialogue sy unread"
  shows "\<exists>c u v t. cons_init d (clear_bss sy s) = Some c \<and> init_console d sy s = Some u
    \<and> test_backtrace d tab enter leave 5 u = Some (Inr v) \<and> monitor_reaches d sy buf v t
    \<and> screen_of t = fold screen_putc out (screen_of c)
    \<and> port_out 0x3F8 (m_io t) = port_out 0x3F8 (m_io c) @ concat (map cons_bytes out)
    \<and> port_out 0x378 (m_io t) = port_out 0x378 (m_io c) @ concat (map cons_bytes out)
    \<and> edit_line [] (available input t) = None"
proof -
  let ?z = "clear_bss sy s"
  have z: "m_io ?z = m_io s" by (simp add: clear_bss_def)
  obtain c where c: "cons_init d ?z = Some c" "crt_ok b c" "same_ring ?z c" "\<forall>x. \<not> in_region b 4000 x \<longrightarrow> m_mem c x = m_mem ?z x"
    "serial_exists c" "m_ebp c = m_ebp ?z" "port_in 0x3F8 (m_io c) = Suc (port_in 0x3F8 (m_io s))"
    using cons_init_serial [OF assms(1,2), of ?z] assms(3) lsr z by auto
  let ?u = "prints d greeting c"
  have u: "init_console d sy s = Some ?u" by (rule init_console_prints [OF c(1,2)])
  have avc: "available input c = unread"
    using same_ring_pending [OF c(3)] clear_bss_ring [of sy s] c(7) assms(7) by (simp add: available_def waiting_def)
  then have ic: "input_ok input d c"
    using same_ring_pending [OF c(3)] clear_bss_ring [of sy s] c(5) assms(5,6,8) by (simp add: input_ok_def)
  have tu: "talks input d b c greeting ?u" "available input ?u = unread" using prints_talks [OF c(2) ic] avc by simp_all
  then have oku: "crt_ok b ?u" "input_ok input d ?u" by (simp_all add: talks_def)
  have lk: "like b ?u ?z" using c(2,4,6) by (intro like_prints) (simp_all add: like_def)
  obtain v where v: "test_backtrace d tab enter leave 5 ?u = Some (Inr v)"
    "talks input d b ?u (nested (backtrace_text (m_mem w) fs) 5) v" "available input v = unread"
    using test_backtrace_talks [where n = 5 and enter = enter and leave = leave, OF ops oku lk chain [unfolded w]] tu(2) by (auto simp: w)
  then have okv: "crt_ok b v" "input_ok input d v" by (simp_all add: talks_def)
  obtain t where t: "monitor_reaches d sy buf v t" "talks input d b v (banner_text @ dialogue sy unread) t"
    "edit_line [] (available input t) = None"
    using monitor_talks [OF okv buf] v(3) by auto
  have "talks input d b c out t"
    unfolding out using talks_trans [OF tu(1) talks_trans [OF v(2) t(2)]] by simp
  then show ?thesis using c(1) u v(1) t(1,3) unfolding talks_def by blast
qed

text \<open>A session in which the user types \<^verbatim>\<open>hi\<close>, after a byte that the initialisation takes.\<close>

theorem kernel_session_witness:
  "\<exists>(c :: console) u v t trace. init_console (line_devices [0, 104, 105, 13]) \<lparr>sym_start = 0x10000C, sym_entry = 0xF010000C,
      sym_etext = 0xF0101A00, sym_edata = 0xF0112300, sym_end = 0xF0112960\<rparr> framed_console = Some u
    \<and> test_backtrace (line_devices [0, 104, 105, 13]) no_stabs (\<lambda>_ s. s) (\<lambda>_ s. s) 5 u = Some (Inr v)
    \<and> monitor_reaches (line_devices [0, 104, 105, 13]) \<lparr>sym_start = 0x10000C, sym_entry = 0xF010000C,
      sym_etext = 0xF0101A00, sym_edata = 0xF0112300, sym_end = 0xF0112960\<rparr> 0x2000 v t
    \<and> port_out 0x3F8 (m_io t) = port_out 0x3F8 (m_io c) @ concat (map cons_bytes (greeting @ trace @ banner_text))
        @ bytes ''K> '' @ [104, 105, 10] @ bytes (''Unknown command '' @ [CHR 0x27] @ ''hi'' @ [CHR 0x27] @ newline)"
proof -
  let ?d = "line_devices [0, 104, 105, 13]" and ?b = "KERNBASE + CGA_BUF" and ?s = framed_console
  let ?sy = "\<lparr>sym_start = 0x10000C, sym_entry = 0xF010000C, sym_etext = 0xF0101A00, sym_edata = 0xF0112300, sym_end = 0xF0112960\<rparr>"
  let ?w = "clear_bss ?sy ?s" and ?fs = "[(0x8000 :: u32, unknown_frame)]"
  have cga: "dev_cga ?d \<in> {None, Some 0xA55A}" "hw_cursor ?d CGA_BASE (m_io ?s) < CRT_SIZE"
    by (simp_all add: line_devices_def ready_devices_def hw_cursor_def CGA_BASE_def crt_defs Let_def)
  have io: "m_io ?s = []" by (simp add: framed_console_def)
  have lsr: "dev_inb ?d io 0x3FD \<noteq> 0xFF" for io by (simp add: line_devices_def)
  have op: "stack_op ?b (\<lambda>s. s)" by (rule stack_op_id)
  have "ld32 (st32 (\<lambda>_. 0) 0x8004 0xF0100068) 0x8004 = 0xF0100068 \<and> ld32 (st32 (\<lambda>_. 0) 0x8004 0xF0100068) 0x8000 = 0" by code_simp
  moreover have "m_mem ?w a = st32 (\<lambda>_. 0) 0x8004 0xF0100068 a" if "a \<in> {0x8000, 0x8001, 0x8002, 0x8003, 0x8004, 0x8005, 0x8006, 0x8007}" for a
    using that by (auto simp: clear_bss_def memset_fill fill_region_def in_region_def framed_console_def)
  ultimately have ld: "ld32 (m_mem ?w) 0x8004 = 0xF0100068" "ld32 (m_mem ?w) 0x8000 = 0" by (simp_all add: ld32_def)
  have w: "innermost (\<lambda>_ s. s) 5 ?w = ?w" by (simp add: eval_nat_numeral)
  have ebp: "m_ebp ?w = 0x8000" by (simp add: clear_bss_def framed_console_def)
  have unread: "filter (\<lambda>c. c \<noteq> 0) (drop (Suc (port_in 0x3F8 (m_io ?s))) [0, 104, 105, 13]) = ([104, 105, 13] :: u8 list)" by (simp add: io)
  have buf: "\<not> in_region 0x2000 1024 0" by (simp add: in_region_def)
  have base: "CGA_BASE = (if dev_cga ?d \<in> {None, Some 0xA55A} then CGA_BASE else MONO_BASE)"
    "?b = (if dev_cga ?d \<in> {None, Some 0xA55A} then KERNBASE + CGA_BUF else KERNBASE + MONO_BUF)"
    using cga(1) by simp_all
  have frames: "stack_chain (m_mem ?w) (m_ebp ?w) (map fst ?fs)" "\<forall>(f, i) \<in> set ?fs. frame_ok no_stabs (m_mem ?w) ?b f i"
    using unknown_frame_ok [OF ld(1)] by (simp_all add: ld(2) ebp)
  have len: "length ([104, 105, 13] :: u8 list) \<le> 511" by simp
  obtain c :: console and u v t where "init_console ?d ?sy ?s = Some u" "test_backtrace ?d no_stabs (\<lambda>_ s. s) (\<lambda>_ s. s) 5 u = Some (Inr v)"
    "monitor_reaches ?d ?sy 0x2000 v t" "port_out 0x3F8 (m_io t) = port_out 0x3F8 (m_io c)
      @ concat (map cons_bytes (greeting @ nested (backtrace_text (m_mem ?w) ?fs) 5 @ banner_text @ dialogue ?sy [104, 105, 13]))"
    using kernel_session [OF base cga(2) lsr uart_line unread [symmetric] len op op w [symmetric] frames apart_sample buf refl]
    by (elim exE conjE) (rule that)
  moreover have "concat (map cons_bytes (dialogue ?sy [104, 105, 13])) =
      bytes ''K> '' @ [104, 105, 10] @ bytes (''Unknown command '' @ [CHR 0x27] @ ''hi'' @ [CHR 0x27] @ newline)"
  proof -
    have "edit_line [] [104, 105, 13] = Some ([104, 105], [104, 105, 10], [])" by code_simp
    moreover have "dialogue ?sy [] = []" by (subst dialogue.simps) simp
    moreover have "words_of [104, 105] = [[104, 105]]" by code_simp
    ultimately show ?thesis
      by (subst dialogue.simps) (simp add: command_output_def chars_simps cons_bytes_def plain_str_def show_char_def)
  qed
  ultimately show ?thesis
    by (intro exI [of _ c] exI [of _ u] exI [of _ v] exI [of _ t] exI [of _ "nested (backtrace_text (m_mem ?w) ?fs) 5"]) simp
qed

end
